(* ===== verification/Prelude.thy ===== *)
theory Prelude
  imports Main "HOL-Library.Word" "HOL-Library.Monad_Syntax"
begin

text \<open>
  Shared vocabulary of the development: the machine integers of the C code as words, byte
  strings as \<^typ>\<open>string\<close>, the status codes of nginx and of the C standard library's
  conventions, the string routines of the C library that the module calls through nginx's
  names (\<open>ngx_strncmp\<close> is \<open>strncmp\<close>, \<open>ngx_strlchr\<close> a bounded \<open>strchr\<close>), and the generic
  facts the components share.  The collection \<open>word_facts\<close> holds the conversions from word
  arithmetic to \<^typ>\<open>nat\<close>, \<open>cstr_facts\<close> the facts on the string routines.

  \<open>ngx_str_t\<close> is a pointer and a length.  Every string the module handles with it at run
  time is a token of the configuration file, a suffix of one, or the value of an nginx
  complex value; it is modelled by its bytes, and a null \<open>data\<close> pointer by \<open>None\<close> where the
  code tests for it.
\<close>

named_theorems word_facts
named_theorems cstr_facts

type_synonym u8 = "8 word"
type_synonym u16 = "16 word"
type_synonym u32 = "32 word"
type_synonym u64 = "64 word"

abbreviation UINT32_MAX :: u32 where
  "UINT32_MAX \<equiv> 4294967295"

abbreviation nul :: char where
  "nul \<equiv> CHR 0x00"

text \<open>The return codes of nginx that the module's functions return (\<open>ngx_int_t\<close>).\<close>

datatype ngx_rc =
    NGX_OK
  | NGX_ERROR
  | NGX_AGAIN
  | NGX_DECLINED
  | NGX_HTTP_TOO_MANY_REQUESTS
  | NGX_HTTP_INTERNAL_SERVER_ERROR

subsection \<open>Bytes and decimal digits\<close>

definition byte :: "char \<Rightarrow> nat" where
  "byte c = of_char c"

definition is_digit :: "char \<Rightarrow> bool" where
  "is_digit c \<longleftrightarrow> \<not> (byte c < 48 \<or> byte c > 57)"

definition digit_nat :: "char \<Rightarrow> nat" where
  "digit_nat c = byte c - 48"

text \<open>The mathematical value of a decimal numeral, the specification of the parsers.\<close>

fun dec_value :: "nat \<Rightarrow> string \<Rightarrow> nat" where
  "dec_value v [] = v"
| "dec_value v (c # cs) = dec_value (v * 10 + digit_nat c) cs"

lemma digit_nat_le: "is_digit c \<Longrightarrow> digit_nat c \<le> 9"
  unfolding is_digit_def digit_nat_def by arith

lemma dec_value_ge: "v \<le> dec_value v cs"
proof (induction cs arbitrary: v)
  case (Cons c cs)
  have "v \<le> v * 10 + digit_nat c" by simp
  also have "\<dots> \<le> dec_value (v * 10 + digit_nat c) cs" by (rule Cons.IH)
  finally show ?case by simp
qed simp

subsection \<open>Words\<close>

lemma unat_u32_less [word_facts]: "unat (w :: u32) < 4294967296"
  using unsigned_less [of w] by simp

lemma unat_u64_less [word_facts]: "unat (w :: u64) < 18446744073709551616"
  using unsigned_less [of w] by simp

lemma unat_u32_of_nat [word_facts]: "n < 4294967296 \<Longrightarrow> unat (of_nat n :: u32) = n"
  by (simp add: unsigned_of_nat take_bit_nat_eq_self)

lemma unat_u64_of_nat [word_facts]: "n < 18446744073709551616 \<Longrightarrow> unat (of_nat n :: u64) = n"
  by (simp add: unsigned_of_nat take_bit_nat_eq_self)

lemma unat_add_no_wrap [word_facts]:
  fixes a b :: "'a::len word"
  assumes "unat a + unat b < 2 ^ LENGTH('a)"
  shows "unat (a + b) = unat a + unat b"
  using assms by (simp add: unat_word_ariths)

lemma unat_mult_no_wrap [word_facts]:
  fixes a b :: "'a::len word"
  assumes "unat a * unat b < 2 ^ LENGTH('a)"
  shows "unat (a * b) = unat a * unat b"
  using assms by (simp add: unat_word_ariths)

lemma unat_sub_no_wrap [word_facts]:
  fixes a b :: "'a::len word"
  assumes "unat b \<le> unat a"
  shows "unat (a - b) = unat a - unat b"
  using assms by (simp add: unat_sub_if')

lemma unat_ucast_u64_u32 [word_facts, simp]: "unat (ucast (w :: u32) :: u64) = unat w"
  using unat_u32_less [of w] by (simp add: unsigned_ucast_eq take_bit_nat_eq_self)

lemma unat_ucast_u32_u64 [word_facts]:
  fixes w :: u64
  assumes "unat w < 4294967296"
  shows "unat (ucast w :: u32) = unat w"
  using assms by (simp add: unsigned_ucast_eq take_bit_nat_eq_self)

lemma ex_u32_pair:
  "(\<exists>(r :: u32) (w :: u32). P (unat r) (unat w)) \<longleftrightarrow>
    (\<exists>r w. P r w \<and> r < 4294967296 \<and> w < 4294967296)"
proof
  assume "\<exists>r w. P r w \<and> r < 4294967296 \<and> w < 4294967296"
  then obtain r w where "P r w" "r < 4294967296" "w < 4294967296" by blast
  then have "P (unat (of_nat r :: u32)) (unat (of_nat w :: u32))"
    by (simp add: unat_u32_of_nat)
  then show "\<exists>(r :: u32) (w :: u32). P (unat r) (unat w)" by blast
qed (use unat_u32_less in blast)

subsection \<open>The C string routines\<close>

text \<open>
  \<open>strncmp (a, b, n) == 0\<close> on NUL-terminated strings: the end of the list is the terminator,
  and the comparison stops at the first NUL both strings share.  nginx terminates every
  configuration token, so reading past \<open>len\<close> reads the terminator.
\<close>

fun c_head :: "string \<Rightarrow> char" where
  "c_head [] = nul"
| "c_head (c # cs) = c"

fun strncmp_eq :: "nat \<Rightarrow> string \<Rightarrow> string \<Rightarrow> bool" where
  "strncmp_eq 0 a b = True"
| "strncmp_eq (Suc n) a b =
     (c_head a = c_head b \<and> (c_head a = nul \<or> strncmp_eq n (tl a) (tl b)))"

definition c_string :: "string \<Rightarrow> string" where
  "c_string buf = takeWhile (\<lambda>c. c \<noteq> nul) buf"

lemma c_string_terminated: "c_string (s @ [nul]) = c_string s"
  by (induction s) (simp_all add: c_string_def)

text \<open>\<open>memcpy (out + i, bytes, n)\<close>, for writes inside the buffer.\<close>

definition write_bytes :: "nat \<Rightarrow> string \<Rightarrow> string \<Rightarrow> string" where
  "write_bytes i bytes out = take i out @ bytes @ drop (i + length bytes) out"

text \<open>\<open>ngx_strncmp (s, "p", sizeof("p") - 1) == 0\<close>.\<close>

definition has_prefix :: "string \<Rightarrow> string \<Rightarrow> bool" where
  "has_prefix s p \<longleftrightarrow> strncmp_eq (length p) s p"

text \<open>\<open>a.len == b.len && ngx_strncmp (a.data, b.data, b.len) == 0\<close>.\<close>

definition ngx_str_eq :: "string \<Rightarrow> string \<Rightarrow> bool" where
  "ngx_str_eq a b \<longleftrightarrow> length a = length b \<and> strncmp_eq (length b) a b"

text \<open>The offset of the first \<open>c\<close> in the bytes, \<open>None\<close> for a null result.\<close>

fun ngx_strlchr :: "string \<Rightarrow> char \<Rightarrow> nat option" where
  "ngx_strlchr [] c = None"
| "ngx_strlchr (x # xs) c = (if x = c then Some 0 else map_option Suc (ngx_strlchr xs c))"

lemma has_prefix_take [cstr_facts]:
  assumes "nul \<notin> set p"
  shows "has_prefix s p \<longleftrightarrow> take (length p) s = p"
proof -
  have "nul \<notin> set p \<Longrightarrow> strncmp_eq (length p) s p \<longleftrightarrow> take (length p) s = p" for s
  proof (induction p arbitrary: s)
    case (Cons c p)
    then show ?case by (cases s) auto
  qed simp
  with assms show ?thesis by (simp add: has_prefix_def)
qed

lemma strncmp_eq_refl [simp]: "strncmp_eq n a a"
  by (induction n arbitrary: a) auto

lemma strncmp_eq_sym: "strncmp_eq n a b \<Longrightarrow> strncmp_eq n b a"
  by (induction n arbitrary: a b) auto

lemma strncmp_eq_trans: "strncmp_eq n a b \<Longrightarrow> strncmp_eq n b c \<Longrightarrow> strncmp_eq n a c"
  by (induction n arbitrary: a b c) auto

lemma ngx_str_eq_refl [simp, cstr_facts]: "ngx_str_eq a a"
  by (simp add: ngx_str_eq_def)

lemma ngx_str_eq_sym: "ngx_str_eq a b \<Longrightarrow> ngx_str_eq b a"
  by (auto simp: ngx_str_eq_def intro: strncmp_eq_sym)

lemma ngx_str_eq_trans: "ngx_str_eq a b \<Longrightarrow> ngx_str_eq b c \<Longrightarrow> ngx_str_eq a c"
  by (auto simp: ngx_str_eq_def intro: strncmp_eq_trans)

lemma ngx_str_eq_nul_free [cstr_facts]:
  assumes "nul \<notin> set b"
  shows "ngx_str_eq a b \<longleftrightarrow> a = b"
proof
  assume "ngx_str_eq a b"
  then have "length a = length b" and "has_prefix a b"
    by (simp_all add: ngx_str_eq_def has_prefix_def)
  with assms show "a = b" by (simp add: has_prefix_take)
qed simp

lemma ngx_strlchr_None [cstr_facts]: "ngx_strlchr s c = None \<longleftrightarrow> c \<notin> set s"
  by (induction s) auto

lemma ngx_strlchr_Some [cstr_facts]:
  "ngx_strlchr s c = Some n \<longleftrightarrow> n < length s \<and> s ! n = c \<and> c \<notin> set (take n s)"
proof (induction s arbitrary: n)
  case (Cons x xs)
  then show ?case by (cases n) auto
qed simp

subsection \<open>Runs of fallible steps\<close>

text \<open>A sequence of steps that stops at the first one that fails.\<close>

fun run_steps :: "('d \<Rightarrow> 's \<Rightarrow> 's option) \<Rightarrow> 'd list \<Rightarrow> 's \<Rightarrow> 's option" where
  "run_steps step [] s = Some s"
| "run_steps step (d # ds) s = (case step d s of None \<Rightarrow> None | Some t \<Rightarrow> run_steps step ds t)"

lemma run_steps_append:
  "run_steps step (ds @ es) s =
    (case run_steps step ds s of None \<Rightarrow> None | Some t \<Rightarrow> run_steps step es t)"
  by (induction ds arbitrary: s) (auto split: option.splits)

text \<open>The contract of a system whose operations keep an invariant.\<close>

locale step_invariant =
  fixes step :: "'d \<Rightarrow> 's \<Rightarrow> 's option"
    and inv :: "'s \<Rightarrow> bool"
  assumes step_keeps: "inv s \<Longrightarrow> step d s = Some t \<Longrightarrow> inv t"
begin

lemma run_keeps: "inv s \<Longrightarrow> run_steps step ds s = Some t \<Longrightarrow> inv t"
  by (induction ds arbitrary: s) (auto split: option.splits dest: step_keeps)

end

subsection \<open>Computations that do not fail\<close>

text \<open>A fallible computation that succeeds with a result satisfying \<open>Q\<close>.\<close>

definition ok_with :: "('a \<Rightarrow> bool) \<Rightarrow> 'a option \<Rightarrow> bool" where
  "ok_with Q m \<longleftrightarrow> (case m of None \<Rightarrow> False | Some a \<Rightarrow> Q a)"

lemma ok_Some [simp]: "ok_with Q (Some a) \<longleftrightarrow> Q a"
  by (simp add: ok_with_def)

lemma ok_None [simp]: "\<not> ok_with Q None"
  by (simp add: ok_with_def)

lemma ok_bind: "ok_with (\<lambda>a. ok_with Q (f a)) m \<Longrightarrow> ok_with Q (Option.bind m f)"
  by (cases m) auto

lemma ok_mono: "ok_with P m \<Longrightarrow> (\<And>a. P a \<Longrightarrow> Q a) \<Longrightarrow> ok_with Q m"
  by (cases m) auto

lemma ok_map: "ok_with (\<lambda>a. Q (f a)) m \<Longrightarrow> ok_with Q (map_option f m)"
  by (cases m) auto

lemma ok_iff: "ok_with Q m \<longleftrightarrow> (\<exists>a. m = Some a \<and> Q a)"
  by (cases m) auto

end
