(* ===== verification/Numeric.thy ===== *)
theory Numeric
  imports Prelude
begin

text \<open>
  \<open>src/rn_numeric.c\<close>: the decimal, rate and time conversions of the module.  A pointer the
  code compares with \<open>NULL\<close> is an option; an output pointer is \<open>Some\<close> of the cell's old
  contents, and every function returns its \<open>int\<close> status and the cells after the call, so
  that a failed conversion's effect on them is part of the model.
\<close>

subsection \<open>Decimal numerals\<close>

text \<open>
  One step of the digit loops: \<open>digit = data[i] - '0'\<close>, the overflow test
  \<open>value > (UINT32_MAX - digit) / 10\<close>, and \<open>value * 10 + digit\<close>.
\<close>

definition digit_u32 :: "char \<Rightarrow> u32" where
  "digit_u32 c = of_nat (digit_nat c)"

definition push_digit :: "u32 \<Rightarrow> char \<Rightarrow> u32 option" where
  "push_digit value c =
     (let digit = digit_u32 c in
      if value > (UINT32_MAX - digit) div 10 then None
      else Some (value * 10 + digit))"

fun parse_u32_loop :: "u32 \<Rightarrow> string \<Rightarrow> u32 option" where
  "parse_u32_loop value [] = Some value"
| "parse_u32_loop value (c # cs) =
     (if \<not> is_digit c then None
      else case push_digit value c of
        None \<Rightarrow> None
      | Some value' \<Rightarrow> parse_u32_loop value' cs)"

definition rn_numeric_parse_u32 :: "string option \<Rightarrow> u32 option \<Rightarrow> int \<times> u32 option" where
  "rn_numeric_parse_u32 data out =
     (case data of
        None \<Rightarrow> (-1, out)
      | Some s \<Rightarrow>
          (if length s = 0 \<or> out = None then (-1, out)
           else case parse_u32_loop 0 s of
             None \<Rightarrow> (-1, out)
           | Some value \<Rightarrow> (0, Some value)))"

definition rn_numeric_u32_from_u64 :: "u64 \<Rightarrow> u32 option \<Rightarrow> int \<times> u32 option" where
  "rn_numeric_u32_from_u64 value out =
     (if out = None \<or> value > ucast UINT32_MAX then (-1, out)
      else (0, Some (ucast value)))"

definition rn_numeric_ttl_ms_until :: "u64 \<Rightarrow> u64 \<Rightarrow> u32" where
  "rn_numeric_ttl_ms_until expires_at_s now_s =
     (if expires_at_s \<le> now_s then 0
      else let remaining_s = expires_at_s - now_s in
        if remaining_s > ucast (UINT32_MAX div 1000) then UINT32_MAX
        else ucast remaining_s * 1000)"

subsection \<open>Rates\<close>

text \<open>
  The two \<open>while\<close> loops of \<open>rn_numeric_parse_rate\<close>: \<open>None\<close> is the overflow return, otherwise
  the value and the bytes from \<open>pos\<close> on.
\<close>

fun digits_loop :: "u32 \<Rightarrow> string \<Rightarrow> (u32 \<times> string) option" where
  "digits_loop value [] = Some (value, [])"
| "digits_loop value (c # cs) =
     (if is_digit c
      then case push_digit value c of
        None \<Rightarrow> None
      | Some value' \<Rightarrow> digits_loop value' cs
      else Some (value, c # cs))"

text \<open>\<open>pos >= len || data[pos++] != c\<close> fails, leaving the bytes after \<open>pos\<close>.\<close>

fun expect_char :: "char \<Rightarrow> string \<Rightarrow> string option" where
  "expect_char c [] = None"
| "expect_char c (x # xs) = (if x = c then Some xs else None)"

definition rate_factor :: "char \<Rightarrow> u32 option" where
  "rate_factor c =
     (if c = CHR ''s'' then Some 1000
      else if c = CHR ''m'' then Some 60000
      else if c = CHR ''h'' then Some 3600000
      else None)"

definition parse_rate_window :: "string \<Rightarrow> u32 option" where
  "parse_rate_window s =
     do { (window0, rest) \<leftarrow> digits_loop 0 s;
          let window = (if window0 = 0 then 1 else window0);
          unit \<leftarrow> (case rest of [c] \<Rightarrow> Some c | _ \<Rightarrow> None);
          factor \<leftarrow> rate_factor unit;
          if window > UINT32_MAX div factor then None else Some (window * factor) }"

definition parse_rate_value :: "string \<Rightarrow> (u32 \<times> u32) option" where
  "parse_rate_value s =
     do { (rate, rest) \<leftarrow> digits_loop 0 s;
          rest \<leftarrow> (if rate = 0 then None else expect_char CHR ''r'' rest);
          rest \<leftarrow> expect_char CHR ''/'' rest;
          window_ms \<leftarrow> parse_rate_window rest;
          Some (rate, window_ms) }"

definition rn_numeric_parse_rate ::
  "string option \<Rightarrow> u32 option \<Rightarrow> u32 option \<Rightarrow> int \<times> u32 option \<times> u32 option" where
  "rn_numeric_parse_rate data out_rate out_window_ms =
     (case data of
        None \<Rightarrow> (-1, out_rate, out_window_ms)
      | Some s \<Rightarrow>
          (if length s = 0 \<or> out_rate = None \<or> out_window_ms = None
           then (-1, out_rate, out_window_ms)
           else case parse_rate_value s of
             None \<Rightarrow> (-1, out_rate, out_window_ms)
           | Some (rate, window_ms) \<Rightarrow> (0, Some rate, Some window_ms)))"

subsection \<open>The overflow test is exact\<close>

lemma unat_digit_u32: "is_digit c \<Longrightarrow> unat (digit_u32 c) = digit_nat c"
  using digit_nat_le [of c] by (simp add: digit_u32_def word_facts)

lemma push_digit_Some:
  assumes "is_digit c" and "unat x * 10 + digit_nat c < 4294967296"
  shows "\<exists>w. push_digit x c = Some w \<and> unat w = unat x * 10 + digit_nat c"
proof -
  have d: "unat (digit_u32 c) = digit_nat c" "digit_nat c \<le> 9"
    using assms(1) by (simp_all add: unat_digit_u32 digit_nat_le)
  have s: "unat (UINT32_MAX - digit_u32 c) = 4294967295 - digit_nat c"
    using d by (simp add: unat_sub_no_wrap)
  have q: "unat ((UINT32_MAX - digit_u32 c) div 10) = (4294967295 - digit_nat c) div 10"
    by (simp add: unat_div_distrib s)
  have le: "\<not> x > (UINT32_MAX - digit_u32 c) div 10"
    using assms(2) d(2) by (simp add: word_less_nat_alt q less_eq_div_iff_mult_less_eq not_less)
  have m: "unat (x * 10) = unat x * 10"
    using assms(2) by (simp add: unat_mult_no_wrap)
  have "unat (x * 10 + digit_u32 c) = unat x * 10 + digit_nat c"
    using assms(2) d(1) m by (simp add: unat_add_no_wrap)
  with le show ?thesis by (simp add: push_digit_def Let_def)
qed

lemma push_digit_None:
  assumes "is_digit c" and "\<not> unat x * 10 + digit_nat c < 4294967296"
  shows "push_digit x c = None"
proof -
  have d: "unat (digit_u32 c) = digit_nat c" "digit_nat c \<le> 9"
    using assms(1) by (simp_all add: unat_digit_u32 digit_nat_le)
  have s: "unat (UINT32_MAX - digit_u32 c) = 4294967295 - digit_nat c"
    using d by (simp add: unat_sub_no_wrap)
  have q: "unat ((UINT32_MAX - digit_u32 c) div 10) = (4294967295 - digit_nat c) div 10"
    by (simp add: unat_div_distrib s)
  have "x > (UINT32_MAX - digit_u32 c) div 10"
    using assms(2) d(2) by (simp add: word_less_nat_alt q div_less_iff_less_mult)
  then show ?thesis by (simp add: push_digit_def Let_def)
qed

lemma push_digit_iff:
  assumes "is_digit c"
  shows "push_digit x c = Some w \<longleftrightarrow>
    unat x * 10 + digit_nat c < 4294967296 \<and> unat w = unat x * 10 + digit_nat c"
proof (cases "unat x * 10 + digit_nat c < 4294967296")
  case True
  then obtain w' where w': "push_digit x c = Some w'" "unat w' = unat x * 10 + digit_nat c"
    using push_digit_Some [OF assms] by blast
  then show ?thesis using True by (auto simp: word_unat_eq_iff)
next
  case False
  then show ?thesis using push_digit_None [OF assms] by simp
qed

lemma parse_u32_loop_iff:
  "parse_u32_loop x s = Some w \<longleftrightarrow>
    (\<forall>c \<in> set s. is_digit c) \<and> dec_value (unat x) s < 4294967296
    \<and> unat w = dec_value (unat x) s"
proof (induction s arbitrary: x)
  case Nil
  then show ?case using unat_u32_less [of x] by (auto simp: word_unat_eq_iff)
next
  case (Cons c cs)
  show ?case
  proof (cases "is_digit c")
    case False
    then show ?thesis by simp
  next
    case True
    note le = dec_value_ge [of "unat x * 10 + digit_nat c" cs]
    show ?thesis
    proof (cases "push_digit x c")
      case None
      then have "\<not> unat x * 10 + digit_nat c < 4294967296"
        using push_digit_Some [OF True, of x] by force
      with None le show ?thesis by auto
    next
      case (Some v)
      then have "unat v = unat x * 10 + digit_nat c"
        using push_digit_iff [OF True] by blast
      with Some True Cons.IH [of v] show ?thesis by simp
    qed
  qed
qed

lemma digits_loop_iff:
  "digits_loop x s = Some (w, rest) \<longleftrightarrow>
    rest = dropWhile is_digit s
    \<and> dec_value (unat x) (takeWhile is_digit s) < 4294967296
    \<and> unat w = dec_value (unat x) (takeWhile is_digit s)"
proof (induction s arbitrary: x)
  case Nil
  then show ?case using unat_u32_less [of x] by (auto simp: word_unat_eq_iff)
next
  case (Cons c cs)
  show ?case
  proof (cases "is_digit c")
    case False
    then show ?thesis using unat_u32_less [of x] by (auto simp: word_unat_eq_iff)
  next
    case True
    note le = dec_value_ge [of "unat x * 10 + digit_nat c" "takeWhile is_digit cs"]
    show ?thesis
    proof (cases "push_digit x c")
      case None
      then have "\<not> unat x * 10 + digit_nat c < 4294967296"
        using push_digit_Some [OF True, of x] by force
      with None le True show ?thesis by auto
    next
      case (Some v)
      then have "unat v = unat x * 10 + digit_nat c"
        using push_digit_iff [OF True] by blast
      with Some True Cons.IH [of v] show ?thesis by simp
    qed
  qed
qed

lemma rn_numeric_parse_u32_Some:
  "rn_numeric_parse_u32 (Some s) (Some old) =
    (if s = [] then (-1, Some old)
     else case parse_u32_loop 0 s of None \<Rightarrow> (-1, Some old) | Some v \<Rightarrow> (0, Some v))"
  by (simp add: rn_numeric_parse_u32_def)

text \<open>
  \<open>rn_numeric_parse_u32\<close> accepts exactly the nonempty strings of decimal digits whose
  value is below \<open>2^32\<close>, stores that value, and on every other input returns \<open>-1\<close> with the
  output cell unchanged.
\<close>

lemma parse_u32_correct:
  "(rn_numeric_parse_u32 (Some s) (Some old) = (0, Some v) \<longleftrightarrow>
      s \<noteq> [] \<and> list_all is_digit s \<and> dec_value 0 s = unat v)
   \<and> (rn_numeric_parse_u32 (Some s) (Some old) = (-1, Some old) \<longleftrightarrow>
      \<not> (s \<noteq> [] \<and> list_all is_digit s \<and> dec_value 0 s < 4294967296))"
proof (cases "parse_u32_loop 0 s")
  case None
  then have "\<not> (list_all is_digit s \<and> dec_value 0 s < 4294967296)"
    using parse_u32_loop_iff [of 0 s "of_nat (dec_value 0 s)"] by (auto simp: word_facts list_all_iff)
  then show ?thesis
    using None unat_u32_less [of v] by (auto simp: rn_numeric_parse_u32_Some)
next
  case (Some w)
  then have "list_all is_digit s" "dec_value 0 s < 4294967296" "unat w = dec_value 0 s"
    using parse_u32_loop_iff [of 0 s w] by (simp_all add: list_all_iff)
  then show ?thesis
    using Some by (auto simp: rn_numeric_parse_u32_Some word_unat_eq_iff)
qed

subsection \<open>The rate grammar\<close>

text \<open>
  The grammar of \<open>spec/dsl.md\<close>: \<open><rate>r/<period><unit>\<close>, the period optional and an omitted
  or zero period one unit.
\<close>

definition rate_unit_ms :: "char \<Rightarrow> nat option" where
  "rate_unit_ms c =
     (if c = CHR ''s'' then Some 1000 else if c = CHR ''m'' then Some 60000
      else if c = CHR ''h'' then Some 3600000 else None)"

definition rate_denotes :: "string \<Rightarrow> nat \<Rightarrow> nat \<Rightarrow> bool" where
  "rate_denotes s rate window \<longleftrightarrow>
     (\<exists>ds ws u f. s = ds @ ''r/'' @ ws @ [u]
        \<and> (\<forall>c \<in> set ds. is_digit c) \<and> (\<forall>c \<in> set ws. is_digit c)
        \<and> rate_unit_ms u = Some f
        \<and> rate = dec_value 0 ds \<and> rate \<noteq> 0
        \<and> window = max 1 (dec_value 0 ws) * f)"

lemma rate_factor_unit_ms: "map_option unat (rate_factor c) = rate_unit_ms c"
  by (simp add: rate_factor_def rate_unit_ms_def)

lemma rate_factor_not_digit: "rate_factor c = Some f \<Longrightarrow> \<not> is_digit c \<and> 1000 \<le> unat f"
  by (auto simp: rate_factor_def is_digit_def byte_def split: if_splits)

lemma takeWhile_digits_end:
  assumes "\<forall>c \<in> set ds. is_digit c" and "\<not> is_digit u"
  shows "takeWhile is_digit (ds @ u # rest) = ds" and "dropWhile is_digit (ds @ u # rest) = u # rest"
  using assms by (simp_all add: takeWhile_append2 dropWhile_append2)

lemma digits_split:
  assumes "dropWhile is_digit s = u # rest"
  shows "s = takeWhile is_digit s @ u # rest" and "\<forall>c \<in> set (takeWhile is_digit s). is_digit c"
  using assms takeWhile_dropWhile_id [of is_digit s] by (auto dest: set_takeWhileD)

lemma mult_no_overflow_iff:
  fixes a f :: u32
  assumes "f \<noteq> 0"
  shows "a > UINT32_MAX div f \<longleftrightarrow> 4294967296 \<le> unat a * unat f"
proof -
  have "0 < unat f" using assms by (simp add: unat_gt_0)
  then have "4294967295 div unat f < unat a \<longleftrightarrow> 4294967295 < unat a * unat f"
    by (rule div_less_iff_less_mult)
  then show ?thesis by (auto simp: word_less_nat_alt unat_div_distrib)
qed

lemma window_default: "unat (if w = 0 then 1 else w :: u32) = max 1 (unat w)"
  by (cases "w = 0") (simp_all add: unat_gt_0 Suc_leI max_def)

lemma parse_rate_window_iff:
  "parse_rate_window s = Some w \<longleftrightarrow>
    (\<exists>ws u f. s = ws @ [u] \<and> (\<forall>c \<in> set ws. is_digit c) \<and> rate_unit_ms u = Some f
       \<and> unat w = max 1 (dec_value 0 ws) * f)"
proof
  assume "parse_rate_window s = Some w"
  then obtain w0 u f where loop: "digits_loop 0 s = Some (w0, [u])"
    and f: "rate_factor u = Some f"
    and fits: "\<not> (if w0 = 0 then 1 else w0) > UINT32_MAX div f"
    and w: "w = (if w0 = 0 then 1 else w0) * f"
    by (auto simp: parse_rate_window_def Let_def split: bind_splits list.splits if_splits)
  let ?ws = "takeWhile is_digit s"
  from loop have "dropWhile is_digit s = u # []" "unat w0 = dec_value 0 ?ws"
    by (simp_all add: digits_loop_iff)
  moreover from this(1) have "s = ?ws @ [u]" "\<forall>c \<in> set ?ws. is_digit c"
    by (rule digits_split)+
  moreover have "rate_unit_ms u = Some (unat f)" "f \<noteq> 0"
    using f rate_factor_unit_ms [of u] rate_factor_not_digit [OF f] by auto
  moreover from fits \<open>f \<noteq> 0\<close> have "unat w = max 1 (unat w0) * unat f"
    unfolding w window_default [symmetric] mult_no_overflow_iff [OF \<open>f \<noteq> 0\<close>]
    by (intro unat_mult_no_wrap) (simp only: not_le, simp)
  ultimately show "\<exists>ws u f. s = ws @ [u] \<and> (\<forall>c \<in> set ws. is_digit c) \<and> rate_unit_ms u = Some f
       \<and> unat w = max 1 (dec_value 0 ws) * f" by metis
next
  assume "\<exists>ws u f. s = ws @ [u] \<and> (\<forall>c \<in> set ws. is_digit c) \<and> rate_unit_ms u = Some f
       \<and> unat w = max 1 (dec_value 0 ws) * f"
  then obtain ws u f where s: "s = ws @ [u]" "\<forall>c \<in> set ws. is_digit c" "rate_unit_ms u = Some f"
    "unat w = max 1 (dec_value 0 ws) * f" by blast
  obtain fw where fw: "rate_factor u = Some fw" "unat fw = f"
    using s(3) rate_factor_unit_ms [of u] by (cases "rate_factor u") auto
  note big = rate_factor_not_digit [OF fw(1)]
  have bound: "max 1 (dec_value 0 ws) * f < 4294967296"
    using unat_u32_less [of w] s(4) by simp
  moreover have "max 1 (dec_value 0 ws) * 1 \<le> max 1 (dec_value 0 ws) * f"
    using big fw(2) by (intro mult_le_mono2) linarith
  ultimately have small: "dec_value 0 ws < 4294967296" by linarith
  then obtain w0 :: u32 where w0: "unat w0 = dec_value 0 ws"
    using unat_u32_of_nat by blast
  have loop: "digits_loop 0 s = Some (w0, [u])"
    using takeWhile_digits_end [OF s(2), of u "[]"] big small w0 s(1)
    by (simp add: digits_loop_iff)
  have fw0: "fw \<noteq> 0" using big by auto
  have "\<not> (if w0 = 0 then 1 else w0) > UINT32_MAX div fw"
    using bound fw(2) by (simp add: mult_no_overflow_iff [OF fw0] window_default w0)
  moreover have "(if w0 = 0 then 1 else w0) * fw = w"
    using bound fw(2) s(4)
    by (simp add: word_unat_eq_iff unat_mult_no_wrap window_default w0)
  ultimately show "parse_rate_window s = Some w"
    using loop fw(1) by (simp add: parse_rate_window_def Let_def)
qed

lemma expect_char_iff: "expect_char c s = Some r \<longleftrightarrow> s = c # r"
  by (cases s) auto

lemma parse_rate_value_iff:
  "parse_rate_value s = Some (r, w) \<longleftrightarrow> rate_denotes s (unat r) (unat w)"
proof
  assume "parse_rate_value s = Some (r, w)"
  then obtain tl where loop: "digits_loop 0 s = Some (r, CHR ''r'' # CHR ''/'' # tl)"
    and r: "r \<noteq> 0" and w: "parse_rate_window tl = Some w"
    by (auto simp: parse_rate_value_def expect_char_iff split: bind_splits if_splits)
  let ?ds = "takeWhile is_digit s"
  from loop have d: "dropWhile is_digit s = CHR ''r'' # CHR ''/'' # tl" "unat r = dec_value 0 ?ds"
    by (simp_all add: digits_loop_iff)
  note digits_split [OF d(1)]
  moreover obtain ws u f where "tl = ws @ [u]" "\<forall>c \<in> set ws. is_digit c" "rate_unit_ms u = Some f"
    "unat w = max 1 (dec_value 0 ws) * f"
    using w unfolding parse_rate_window_iff by blast
  ultimately show "rate_denotes s (unat r) (unat w)"
    using unat_gt_0 [of r] r d(2) unfolding rate_denotes_def
    by (rule_tac exI [of _ ?ds], rule_tac exI [of _ ws], rule_tac exI [of _ u], rule_tac exI [of _ f])
      (simp add: unat_eq_zero)
next
  assume "rate_denotes s (unat r) (unat w)"
  then obtain ds ws u f where s: "s = ds @ CHR ''r'' # CHR ''/'' # ws @ [u]"
    and ds: "\<forall>c \<in> set ds. is_digit c" "unat r = dec_value 0 ds" "unat r \<noteq> 0"
    and ws: "\<forall>c \<in> set ws. is_digit c" "rate_unit_ms u = Some f" "unat w = max 1 (dec_value 0 ws) * f"
    by (auto simp: rate_denotes_def)
  have "\<not> is_digit CHR ''r''" by (simp add: is_digit_def byte_def)
  from takeWhile_digits_end [OF ds(1) this] have "digits_loop 0 s = Some (r, CHR ''r'' # CHR ''/'' # ws @ [u])"
    using ds(2) unat_u32_less [of r] by (simp add: digits_loop_iff s)
  moreover have "parse_rate_window (ws @ [u]) = Some w"
    using ws by (auto simp: parse_rate_window_iff)
  ultimately show "parse_rate_value s = Some (r, w)"
    using ds(3) by (auto simp: parse_rate_value_def)
qed

lemma rn_numeric_parse_rate_Some:
  "rn_numeric_parse_rate (Some s) (Some a) (Some b) =
    (case parse_rate_value s of None \<Rightarrow> (-1, Some a, Some b) | Some (r, w) \<Rightarrow> (0, Some r, Some w))"
  by (cases s) (auto simp: rn_numeric_parse_rate_def parse_rate_value_def)

text \<open>
  C39. \<open>rn_numeric_parse_rate\<close> accepts exactly the rates of the configuration grammar
  \<open><rate>r/<period><unit>\<close> whose rate and window in milliseconds fit 32 bits, and returns the
  rate and the exact window; on every other input it returns \<open>-1\<close> and changes neither output.
\<close>

theorem parse_rate_correct:
  "(rn_numeric_parse_rate (Some s) (Some a) (Some b) = (0, Some r, Some w) \<longleftrightarrow>
      rate_denotes s (unat r) (unat w))
   \<and> (rn_numeric_parse_rate (Some s) (Some a) (Some b) = (-1, Some a, Some b) \<longleftrightarrow>
      (\<nexists>r w. rate_denotes s r w \<and> r < 4294967296 \<and> w < 4294967296))"
proof (intro conjI)
  show "rn_numeric_parse_rate (Some s) (Some a) (Some b) = (0, Some r, Some w) \<longleftrightarrow>
      rate_denotes s (unat r) (unat w)"
    using parse_rate_value_iff [of s r w]
    by (auto simp: rn_numeric_parse_rate_Some split: option.splits)
next
  have "parse_rate_value s = None \<longleftrightarrow> (\<nexists>r w. rate_denotes s (unat (r :: u32)) (unat (w :: u32)))"
    by (cases "parse_rate_value s") (auto simp flip: parse_rate_value_iff)
  also have "\<dots> \<longleftrightarrow> (\<nexists>r w. rate_denotes s r w \<and> r < 4294967296 \<and> w < 4294967296)"
    by (simp add: ex_u32_pair)
  finally show "rn_numeric_parse_rate (Some s) (Some a) (Some b) = (-1, Some a, Some b) \<longleftrightarrow>
      (\<nexists>r w. rate_denotes s r w \<and> r < 4294967296 \<and> w < 4294967296)"
    by (auto simp: rn_numeric_parse_rate_Some split: option.splits)
qed

subsection \<open>Time to live\<close>

lemma ttl_seconds_bound:
  fixes a b :: u64
  assumes "b < a"
  shows "unat (a - b) = unat a - unat b"
  using assms by (simp add: unat_sub_no_wrap word_less_nat_alt less_imp_le)

text \<open>
  C40. \<open>rn_numeric_ttl_ms_until\<close> is the remaining time in milliseconds, zero for an expiry that
  is not in the future, saturated at \<open>UINT32_MAX\<close> where the product does not fit; it never wraps.
\<close>

theorem ttl_ms_until_correct:
  "unat (rn_numeric_ttl_ms_until expires now) =
     (if (unat expires - unat now) * 1000 < 4294967296
      then (unat expires - unat now) * 1000 else 4294967295)"
proof (cases "expires \<le> now")
  case True
  then show ?thesis by (simp add: rn_numeric_ttl_ms_until_def word_le_nat_alt)
next
  case False
  then have d: "unat (expires - now) = unat expires - unat now"
    by (simp add: ttl_seconds_bound)
  have big: "expires - now > ucast (UINT32_MAX div 1000) \<longleftrightarrow> 4294967 < unat expires - unat now"
    by (simp add: word_less_nat_alt d unat_div_distrib)
  show ?thesis
  proof (cases "4294967 < unat expires - unat now")
    case True
    then show ?thesis using False big by (simp add: rn_numeric_ttl_ms_until_def Let_def)
  next
    case small: False
    then have "unat (ucast (expires - now) :: u32) = unat expires - unat now"
      by (simp add: unat_ucast_u32_u64 d)
    then have "unat (ucast (expires - now) * 1000 :: u32) = (unat expires - unat now) * 1000"
      using small by (simp add: unat_mult_no_wrap)
    then show ?thesis using False small big by (simp add: rn_numeric_ttl_ms_until_def Let_def)
  qed
qed

lemma rn_numeric_u32_from_u64_Some:
  "rn_numeric_u32_from_u64 x (Some old) =
    (if unat x < 4294967296 then (0, Some (ucast x)) else (-1, Some old))"
  by (auto simp: rn_numeric_u32_from_u64_def word_less_nat_alt)

subsection \<open>Printing numerals\<close>

text \<open>The canonical decimal numeral of a number, the inverse of the parsers.\<close>

fun show_dec :: "nat \<Rightarrow> string" where
  "show_dec n = (if n < 10 then [char_of (48 + n)] else show_dec (n div 10) @ [char_of (48 + n mod 10)])"

declare show_dec.simps [simp del]

lemma byte_char_of: "n < 256 \<Longrightarrow> byte (char_of n) = n"
  by (simp add: byte_def)

lemma dec_value_append: "dec_value v (a @ b) = dec_value (dec_value v a) b"
  by (induction a arbitrary: v) auto

lemma show_dec_digits: "list_all is_digit (show_dec n)"
proof (induction n rule: show_dec.induct)
  case (1 n)
  have "is_digit (char_of (48 + d))" if "d < 10" for d :: nat
    using that by (simp add: is_digit_def byte_char_of)
  with 1 show ?case by (subst show_dec.simps) auto
qed

lemma show_dec_value: "dec_value 0 (show_dec n) = n"
proof (induction n rule: show_dec.induct)
  case (1 n)
  have "digit_nat (char_of (48 + d)) = d" if "d < 10" for d :: nat
    using that by (simp add: digit_nat_def byte_char_of)
  with 1 show ?case by (subst show_dec.simps) (auto simp: dec_value_append)
qed

lemma show_dec_nonempty [simp]: "show_dec n \<noteq> []"
  by (subst show_dec.simps) simp

lemma parse_show_dec:
  "rn_numeric_parse_u32 (Some (show_dec (unat v))) (Some old) = (0, Some v)"
proof -
  have "parse_u32_loop 0 (show_dec (unat v)) = Some v"
    using show_dec_digits [of "unat v"] unat_u32_less [of v]
    by (simp add: parse_u32_loop_iff show_dec_value list_all_iff)
  then show ?thesis by (simp add: rn_numeric_parse_u32_Some)
qed

lemma show_dec_no_colon: "CHR '':'' \<notin> set (show_dec n)"
  using show_dec_digits [of n] by (auto simp: list_all_iff is_digit_def byte_def)

end
