(* ===== verification/Policy.thy ===== *)
theory Policy
  imports Numeric
begin

text \<open>
  The request policy of \<open>src/ngx_http_ratelimitly_module.c\<close>: durations, replay schedules, the
  schedule's value in each round, and the admission horizon that configuration loading checks.
  The types of the C client's header that the code builds (\<open>r_ha_schedule_t\<close>,
  \<open>r_request_policy_t\<close>) are records with the fields the module reads and writes.  Of the client
  the model takes \<open>R_CLIENT_HA_MAX_REPLAY_COUNT\<close> (the parameter \<open>max_replays\<close>) and
  \<open>r_client_default_request_policy\<close> (\<open>default_policy\<close>); of nginx, \<open>ngx_parse_time\<close>
  (\<open>parse_time\<close>), whose \<open>NGX_ERROR\<close> is the word \<open>-1\<close>.  The static functions here are called
  with the addresses of live locals only, so their tests of those pointers against \<open>NULL\<close>
  have no counterpart; a fallible result is an option.
\<close>

subsection \<open>Types\<close>

text \<open>
  \<open>R_HA_SCHEDULE_UNSET\<close> stands for every value that the \<open>switch\<close> of
  \<open>rn_policy_schedule_units\<close> sends to its \<open>default\<close>, and for the kind of a zeroed schedule,
  which no accepted policy keeps.
\<close>

datatype r_ha_schedule_kind =
    R_HA_SCHEDULE_UNSET
  | R_HA_SCHEDULE_FIXED
  | R_HA_SCHEDULE_LINEAR
  | R_HA_SCHEDULE_EXPONENTIAL

text \<open>\<open>growth\<close> is the union of \<open>linear_step_units\<close> and \<open>exponential_factor\<close>, one 32-bit word.\<close>

record r_ha_schedule_t =
  schedule_kind :: r_ha_schedule_kind
  initial_units :: u32
  max_units :: u32
  growth :: u32

record r_request_policy_t =
  unit_ms :: u64
  replay_count :: u32
  replay_gap :: r_ha_schedule_t
  final_receive_units :: u32
  completion_delivery :: bool

definition zero_schedule :: r_ha_schedule_t where
  "zero_schedule = \<lparr>schedule_kind = R_HA_SCHEDULE_UNSET, initial_units = 0, max_units = 0, growth = 0\<rparr>"

definition zero_policy :: r_request_policy_t where
  "zero_policy = \<lparr>unit_ms = 0, replay_count = 0, replay_gap = zero_schedule,
     final_receive_units = 0, completion_delivery = False\<rparr>"

datatype rn_policy_kind_t = RN_POLICY_STANDARD | RN_POLICY_SINGLE_ROUND | RN_POLICY_CUSTOM

fun rn_policy_kind_name :: "rn_policy_kind_t \<Rightarrow> string" where
  "rn_policy_kind_name RN_POLICY_STANDARD = ''standard''"
| "rn_policy_kind_name RN_POLICY_SINGLE_ROUND = ''single_round''"
| "rn_policy_kind_name RN_POLICY_CUSTOM = ''custom''"

subsection \<open>Durations and schedules\<close>

definition rn_parse_protocol_duration_ms :: "(string \<Rightarrow> u64) \<Rightarrow> string \<Rightarrow> u32 option" where
  "rn_parse_protocol_duration_ms parse_time s =
     (if length s = 0 then None
      else let ms = parse_time s in
        if ms = 0 \<or> ms = -1 then None
        else case rn_numeric_u32_from_u64 ms (Some 0) of
          (status, out) \<Rightarrow> if status \<noteq> 0 then None else out)"

text \<open>
  The cursor is the rest of the bytes up to \<open>end\<close>; the result is the number and the cursor
  after it.
\<close>

definition rn_parse_schedule_number :: "string \<Rightarrow> bool \<Rightarrow> (u32 \<times> string) option" where
  "rn_parse_schedule_number cursor require_separator =
     (if cursor = [] then None
      else let separator = ngx_strlchr cursor CHR '':'' in
        do { (number, rest) \<leftarrow>
               (if require_separator
                then (case separator of
                        None \<Rightarrow> None
                      | Some k \<Rightarrow> Some (take k cursor, drop (Suc k) cursor))
                else (case separator of
                        Some _ \<Rightarrow> None
                      | None \<Rightarrow> Some (cursor, [])));
             if length number = 0 then None
             else case rn_numeric_parse_u32 (Some number) (Some 0) of
               (status, out) \<Rightarrow>
                 if status \<noteq> 0 then None else map_option (\<lambda>v. (v, rest)) out })"

definition rn_parse_policy_schedule :: "string \<Rightarrow> r_ha_schedule_t option" where
  "rn_parse_policy_schedule s =
     (if length s = 0 then None
      else if length s > 6 \<and> has_prefix s ''fixed:'' then
        do { (initial, _) \<leftarrow> rn_parse_schedule_number (drop 6 s) False;
             Some (zero_schedule\<lparr>schedule_kind := R_HA_SCHEDULE_FIXED,
               initial_units := initial, max_units := initial\<rparr>) }
      else if length s > 7 \<and> has_prefix s ''linear:'' then
        do { (initial, cursor) \<leftarrow> rn_parse_schedule_number (drop 7 s) True;
             (grow, cursor) \<leftarrow> rn_parse_schedule_number cursor True;
             (maximum, _) \<leftarrow> rn_parse_schedule_number cursor False;
             if grow = 0 \<or> initial > maximum then None
             else Some (zero_schedule\<lparr>schedule_kind := R_HA_SCHEDULE_LINEAR,
               initial_units := initial, max_units := maximum, growth := grow\<rparr>) }
      else if length s > 12 \<and> has_prefix s ''exponential:'' then
        do { (initial, cursor) \<leftarrow> rn_parse_schedule_number (drop 12 s) True;
             (grow, cursor) \<leftarrow> rn_parse_schedule_number cursor True;
             (maximum, _) \<leftarrow> rn_parse_schedule_number cursor False;
             if grow < 2 \<or> initial > maximum then None
             else Some (zero_schedule\<lparr>schedule_kind := R_HA_SCHEDULE_EXPONENTIAL,
               initial_units := initial, max_units := maximum, growth := grow\<rparr>) }
      else None)"

subsection \<open>The schedule's value in a round\<close>

text \<open>The \<open>while (round-- > 0 && value < max_units)\<close> loop.\<close>

fun exponential_loop :: "nat \<Rightarrow> u32 \<Rightarrow> u32 \<Rightarrow> u32 \<Rightarrow> u32" where
  "exponential_loop 0 value maximum factor = value"
| "exponential_loop (Suc round) value maximum factor =
     (if value < maximum
      then exponential_loop round
        (if value > maximum div factor then maximum else value * factor) maximum factor
      else value)"

definition rn_policy_schedule_units :: "r_ha_schedule_t \<Rightarrow> u32 \<Rightarrow> u32 option" where
  "rn_policy_schedule_units s round =
     (if initial_units s > max_units s then None
      else let value = initial_units s in
        case schedule_kind s of
          R_HA_SCHEDULE_FIXED \<Rightarrow> Some value
        | R_HA_SCHEDULE_LINEAR \<Rightarrow>
            (if growth s = 0 then None
             else if round > (max_units s - value) div growth s then Some (max_units s)
             else Some (value + round * growth s))
        | R_HA_SCHEDULE_EXPONENTIAL \<Rightarrow>
            (if growth s < 2 then None
             else Some (exponential_loop (unat round) value (max_units s) (growth s)))
        | R_HA_SCHEDULE_UNSET \<Rightarrow> None)"

subsection \<open>The horizon\<close>

text \<open>
  The \<open>for\<close> loop over the rounds.  The round is counted as a natural number; the loop's own
  budget makes it fail before a 32-bit counter could wrap, see \<open>horizon_loop_rounds\<close>.
\<close>

function horizon_loop :: "r_ha_schedule_t \<Rightarrow> u64 \<Rightarrow> u32 \<Rightarrow> nat \<Rightarrow> u64 \<Rightarrow> u64 option" where
  "horizon_loop s budget replays round total_units =
     (if round \<le> unat replays
      then case rn_policy_schedule_units s (of_nat round) of
        None \<Rightarrow> None
      | Some gap_units \<Rightarrow>
          (if ucast gap_units > budget - total_units then None
           else horizon_loop s budget replays (Suc round) (total_units + ucast gap_units))
      else Some total_units)"
  by pat_completeness auto
termination
  by (relation "measure (\<lambda>(_, _, replays, round, _). Suc (unat replays) - round)") auto

declare horizon_loop.simps [simp del]

definition rn_policy_horizon_ms :: "u32 \<Rightarrow> r_request_policy_t \<Rightarrow> u32 \<Rightarrow> u32 option" where
  "rn_policy_horizon_ms max_replays p max_ttl_ms =
     (if unit_ms p = 0 \<or> unit_ms p > ucast max_ttl_ms \<or> replay_count p > max_replays
         \<or> initial_units (replay_gap p) = 0
      then None
      else let budget = ucast max_ttl_ms div unit_ms p in
        do { total_units \<leftarrow> horizon_loop (replay_gap p) budget (replay_count p) 0 0;
             if ucast (final_receive_units p) > budget - total_units then None
             else let total_units = total_units + ucast (final_receive_units p) in
               if total_units = 0 then None
               else Some (ucast (total_units * unit_ms p)) })"

subsection \<open>What a schedule means\<close>

text \<open>
  The schedule forms of \<open>spec/dsl.md\<close> over the natural numbers: constant, linear growth and
  exponential growth, both capped at the maximum.
\<close>

definition schedule_ok :: "r_ha_schedule_t \<Rightarrow> bool" where
  "schedule_ok s \<longleftrightarrow> initial_units s \<le> max_units s \<and>
     (case schedule_kind s of
        R_HA_SCHEDULE_UNSET \<Rightarrow> False
      | R_HA_SCHEDULE_FIXED \<Rightarrow> True
      | R_HA_SCHEDULE_LINEAR \<Rightarrow> growth s \<noteq> 0
      | R_HA_SCHEDULE_EXPONENTIAL \<Rightarrow> 2 \<le> growth s)"

definition round_units :: "r_ha_schedule_t \<Rightarrow> nat \<Rightarrow> nat" where
  "round_units s k =
     (case schedule_kind s of
        R_HA_SCHEDULE_LINEAR \<Rightarrow>
          min (unat (max_units s)) (unat (initial_units s) + k * unat (growth s))
      | R_HA_SCHEDULE_EXPONENTIAL \<Rightarrow>
          min (unat (max_units s)) (unat (initial_units s) * unat (growth s) ^ k)
      | _ \<Rightarrow> unat (initial_units s))"

lemma exponential_loop_value:
  assumes "0 < unat f" and "unat v \<le> unat m"
  shows "unat (exponential_loop r v m f) = min (unat m) (unat v * unat f ^ r)"
  using assms(2)
proof (induction r arbitrary: v)
  case 0
  then show ?case by (simp add: min_def)
next
  case (Suc r)
  have pow: "1 \<le> unat f ^ r" for r using assms(1) by simp
  show ?case
  proof (cases "v < m")
    case False
    with Suc.prems have "unat v = unat m" by (simp add: word_less_nat_alt)
    moreover have "unat m * 1 \<le> unat m * unat f ^ Suc r" using pow by (rule mult_le_mono2)
    ultimately show ?thesis using False by (simp add: min_def)
  next
    case lt: True
    have gt: "v > m div f \<longleftrightarrow> unat m < unat v * unat f"
      using assms(1) by (simp add: word_less_nat_alt unat_div_distrib div_less_iff_less_mult)
    show ?thesis
    proof (cases "v > m div f")
      case True
      have "unat m * 1 \<le> unat m * unat f ^ r" using pow by (rule mult_le_mono2)
      then have "unat (exponential_loop r m m f) = unat m"
        using Suc.IH [of m] by (simp add: min_def)
      moreover have "unat v * unat f * 1 \<le> unat v * unat f * unat f ^ r"
        using pow by (rule mult_le_mono2)
      moreover have "unat m < unat v * unat f" using gt True by simp
      ultimately have "unat (exponential_loop r m m f) = unat m" "unat m \<le> unat v * unat f ^ Suc r"
        unfolding power_Suc mult.assoc mult_1_right by linarith+
      then show ?thesis using lt True by (simp add: min_def)
    next
      case False
      with gt have "unat (v * f) = unat v * unat f"
        using unat_u32_less [of m] by (simp add: unat_mult_no_wrap)
      then show ?thesis using lt False gt Suc.IH [of "v * f"] by (simp add: mult.assoc)
    qed
  qed
qed

lemma linear_value:
  fixes v m g k :: u32
  assumes "g \<noteq> 0" and "v \<le> m"
  shows "unat (if k > (m - v) div g then m else v + k * g) = min (unat m) (unat v + unat k * unat g)"
proof -
  have g: "0 < unat g" using assms(1) by (simp add: unat_gt_0)
  have vm: "unat v \<le> unat m" using assms(2) by (simp add: word_le_nat_alt)
  have gt: "k > (m - v) div g \<longleftrightarrow> unat m - unat v < unat k * unat g"
    using g vm
    by (simp add: word_less_nat_alt unat_div_distrib unat_sub_no_wrap div_less_iff_less_mult)
  show ?thesis
  proof (cases "k > (m - v) div g")
    case True
    then show ?thesis using gt vm by simp
  next
    case False
    then have le: "unat v + unat k * unat g \<le> unat m" using gt vm by simp
    then have "unat (k * g) = unat k * unat g"
      using unat_u32_less [of m] by (simp add: unat_mult_no_wrap)
    then have "unat (v + k * g) = unat v + unat k * unat g"
      using le unat_u32_less [of m] by (simp add: unat_add_no_wrap)
    then show ?thesis using False le by simp
  qed
qed

lemma schedule_units_Some:
  assumes "schedule_ok s"
  shows "\<exists>v. rn_policy_schedule_units s k = Some v \<and> unat v = round_units s (unat k)"
proof (cases "schedule_kind s")
  case R_HA_SCHEDULE_UNSET
  with assms show ?thesis by (simp add: schedule_ok_def)
next
  case R_HA_SCHEDULE_FIXED
  with assms show ?thesis
    by (simp add: schedule_ok_def rn_policy_schedule_units_def round_units_def)
next
  case R_HA_SCHEDULE_LINEAR
  with assms have "growth s \<noteq> 0" "initial_units s \<le> max_units s"
    by (simp_all add: schedule_ok_def)
  from linear_value [OF this, of k] this R_HA_SCHEDULE_LINEAR show ?thesis
    by (auto simp: rn_policy_schedule_units_def round_units_def Let_def split: if_splits)
next
  case R_HA_SCHEDULE_EXPONENTIAL
  with assms have "2 \<le> growth s" and le: "initial_units s \<le> max_units s"
    by (simp_all add: schedule_ok_def)
  then have "0 < unat (growth s)" by (simp add: word_le_nat_alt)
  from exponential_loop_value [OF this] le \<open>2 \<le> growth s\<close> R_HA_SCHEDULE_EXPONENTIAL
  show ?thesis
    by (auto simp: rn_policy_schedule_units_def round_units_def Let_def word_le_nat_alt not_less
        dest: leD)
qed

lemma schedule_units_None: "\<not> schedule_ok s \<Longrightarrow> rn_policy_schedule_units s k = None"
  by (auto simp: schedule_ok_def rn_policy_schedule_units_def Let_def not_le not_less
      split: r_ha_schedule_kind.splits)

text \<open>
  C35. \<open>rn_policy_schedule_units\<close> computes the documented schedule without overflow: it fails
  exactly on ill-formed schedules, and on a well-formed one its value in round \<open>k\<close> is the capped
  constant, linear or exponential value of the specification.
\<close>

theorem schedule_units_correct:
  "map_option unat (rn_policy_schedule_units s k) =
     (if schedule_ok s then Some (round_units s (unat k)) else None)"
  using schedule_units_Some [of s k] schedule_units_None [of s k] by auto

subsection \<open>The horizon is the documented sum\<close>

lemma horizon_loop_value:
  assumes "schedule_ok s" and "unat sofar \<le> unat budget" and "round \<le> Suc (unat replays)"
  shows "map_option unat (horizon_loop s budget replays round sofar) =
    (let t = unat sofar + (\<Sum>k = round..<Suc (unat replays). round_units s k)
     in if t \<le> unat budget then Some t else None)"
  using assms
proof (induction s budget replays round sofar rule: horizon_loop.induct)
  case (1 s budget replays round sofar)
  show ?case
  proof (cases "round \<le> unat replays")
    case False
    with "1.prems" have "round = Suc (unat replays)" by simp
    then show ?thesis
      using "1.prems" by (subst horizon_loop.simps) (simp add: Let_def)
  next
    case True
    then have r: "unat (of_nat round :: u32) = round"
      using unat_u32_less [of replays] by (simp add: unat_u32_of_nat)
    then obtain v where v: "rn_policy_schedule_units s (of_nat round) = Some v"
      "unat v = round_units s round"
      using schedule_units_Some [OF "1.prems"(1), of "of_nat round"] by auto
    have sum: "(\<Sum>k = round..<Suc (unat replays). round_units s k) =
      round_units s round + (\<Sum>k = Suc round..<Suc (unat replays). round_units s k)"
      by (rule sum.atLeast_Suc_lessThan) (use True in simp)
    have gt: "ucast v > budget - sofar \<longleftrightarrow> unat budget < unat sofar + unat v"
      using "1.prems"(2) by (auto simp: word_less_nat_alt unat_sub_no_wrap)
    show ?thesis
    proof (cases "ucast v > budget - sofar")
      case over: True
      then show ?thesis
        using True gt v sum by (subst horizon_loop.simps) (simp add: Let_def)
    next
      case False
      then have "unat sofar + unat v \<le> unat budget" using gt by simp
      then have t: "unat (sofar + ucast v) = unat sofar + unat v"
        using unat_u64_less [of budget] by (simp add: unat_add_no_wrap)
      have "horizon_loop s budget replays round sofar =
          horizon_loop s budget replays (Suc round) (sofar + ucast v)"
        using True False v by (subst horizon_loop.simps) simp
      with "1.IH" [OF True v(1) False] "1.prems" True gt False sum t v(2) show ?thesis
        by (simp add: Let_def add.assoc)
    qed
  qed
qed

lemma horizon_loop_fails: "\<not> schedule_ok s \<Longrightarrow> horizon_loop s budget replays 0 sofar = None"
  by (subst horizon_loop.simps) (simp add: schedule_units_None)

text \<open>The units of the whole admission: the rounds \<open>0..replays\<close> and the final receive interval.\<close>

definition horizon_units :: "r_request_policy_t \<Rightarrow> nat" where
  "horizon_units p = (\<Sum>k = 0..unat (replay_count p). round_units (replay_gap p) k)
     + unat (final_receive_units p)"

definition policy_ok :: "u32 \<Rightarrow> r_request_policy_t \<Rightarrow> bool" where
  "policy_ok max_replays p \<longleftrightarrow> unit_ms p \<noteq> 0 \<and> replay_count p \<le> max_replays
     \<and> schedule_ok (replay_gap p) \<and> initial_units (replay_gap p) \<noteq> 0"

lemma round_units_pos:
  assumes "schedule_ok s" and "initial_units s \<noteq> 0"
  shows "0 < round_units s k"
proof -
  have "0 < unat (initial_units s)" using assms(2) by (simp add: unat_gt_0)
  moreover have "unat (initial_units s) \<le> unat (max_units s)"
    using assms(1) by (simp add: schedule_ok_def word_le_nat_alt)
  moreover have "schedule_kind s = R_HA_SCHEDULE_EXPONENTIAL \<longrightarrow> 0 < unat (growth s)"
    using assms(1) by (auto simp: schedule_ok_def word_le_nat_alt)
  ultimately show ?thesis
    by (auto simp: round_units_def split: r_ha_schedule_kind.splits)
qed

lemma horizon_units_pos:
  assumes "schedule_ok (replay_gap p)" and "initial_units (replay_gap p) \<noteq> 0"
  shows "unat (replay_count p) < horizon_units p"
proof -
  have "(\<Sum>k = 0..unat (replay_count p). 1) \<le> (\<Sum>k = 0..unat (replay_count p). round_units (replay_gap p) k)"
    by (rule sum_mono) (use round_units_pos [OF assms] in \<open>simp add: Suc_leI\<close>)
  then show ?thesis by (simp add: horizon_units_def)
qed

lemma horizon_ms_fails:
  "\<not> policy_ok max_replays p \<Longrightarrow> rn_policy_horizon_ms max_replays p max_ttl = None"
  by (auto simp: policy_ok_def rn_policy_horizon_ms_def Let_def not_le not_less
      horizon_loop_fails)

text \<open>
  The rest of the computation after the loop: the final receive interval, and the product, which
  is the value over the natural numbers when it fits and is refused otherwise.
\<close>

lemma horizon_tail:
  fixes ttl final :: u32 and u sofar :: u64
  assumes sofar: "unat sofar + unat final = h" "0 < h"
    and small: "unat sofar \<le> unat (ucast ttl div u)" and u: "u \<noteq> 0"
  shows "map_option unat
      (if ucast final > ucast ttl div u - sofar then None
       else let total = sofar + ucast final in
         if total = 0 then None else Some (ucast (total * u) :: u32)) =
    (if unat u * h \<le> unat ttl then Some (unat u * h) else None)"
    (is "map_option unat ?run = _")
proof -
  let ?budget = "ucast ttl div u :: u64"
  have pos: "0 < unat u" using u by (simp add: unat_gt_0)
  have "unat ?budget = unat ttl div unat u" by (simp add: unat_div_distrib)
  then have fits: "h \<le> unat ?budget \<longleftrightarrow> unat u * h \<le> unat ttl"
    using pos by (simp add: less_eq_div_iff_mult_less_eq mult.commute)
  have gt: "ucast final > ?budget - sofar \<longleftrightarrow> unat ?budget < h"
    using small sofar(1) by (auto simp: word_less_nat_alt unat_sub_no_wrap)
  show ?thesis
  proof (cases "unat ?budget < h")
    case True
    then show ?thesis using gt fits by simp
  next
    case False
    then have le: "unat u * h \<le> unat ttl" using fits by simp
    have t: "unat (sofar + ucast final) = h"
      using False unat_u64_less [of ?budget] sofar(1) by (simp add: unat_add_no_wrap)
    then have nz: "sofar + ucast final \<noteq> 0" using sofar(2) by auto
    have "unat ((sofar + ucast final) * u) = unat u * h"
      using le unat_u32_less [of ttl] t by (simp add: unat_mult_no_wrap mult.commute)
    then have "unat (ucast ((sofar + ucast final) * u) :: u32) = unat u * h"
      using le unat_u32_less [of ttl] by (simp add: unat_ucast_u32_u64)
    then show ?thesis using gt False nz le by (simp add: Let_def)
  qed
qed

lemma horizon_ms_value:
  assumes "policy_ok max_replays p"
  shows "map_option unat (rn_policy_horizon_ms max_replays p max_ttl) =
    (let h = unat (unit_ms p) * horizon_units p in if h \<le> unat max_ttl then Some h else None)"
proof -
  let ?s = "replay_gap p" and ?u = "unit_ms p"
  let ?budget = "ucast max_ttl div ?u :: u64"
  let ?sum = "\<Sum>k = 0..<Suc (unat (replay_count p)). round_units ?s k"
  have ok: "schedule_ok ?s" "initial_units ?s \<noteq> 0" "?u \<noteq> 0" "replay_count p \<le> max_replays"
    using assms by (simp_all add: policy_ok_def)
  have pos: "0 < horizon_units p" using horizon_units_pos [OF ok(1,2)] by simp
  have units: "horizon_units p = ?sum + unat (final_receive_units p)"
    by (simp add: horizon_units_def atLeastLessThanSuc_atLeastAtMost)
  have b: "unat ?budget = unat max_ttl div unat ?u" by (simp add: unat_div_distrib)
  have "0 < unat ?u" using ok(3) by (simp add: unat_gt_0)
  then have fits: "h \<le> unat ?budget \<longleftrightarrow> unat ?u * h \<le> unat max_ttl" for h
    by (simp add: b less_eq_div_iff_mult_less_eq mult.commute)
  note loop = horizon_loop_value [OF ok(1), of 0 ?budget 0 "replay_count p"]
  show ?thesis
  proof (cases "?u > ucast max_ttl")
    case True
    then have "unat max_ttl < unat ?u" by (simp add: word_less_nat_alt)
    moreover have "unat ?u * 1 \<le> unat ?u * horizon_units p" using pos by (intro mult_le_mono2) simp
    ultimately have "\<not> unat ?u * horizon_units p \<le> unat max_ttl" by linarith
    then show ?thesis using True by (simp add: rn_policy_horizon_ms_def Let_def)
  next
    case small: False
    show ?thesis
    proof (cases "?sum \<le> unat ?budget")
      case False
      then have "horizon_loop ?s ?budget (replay_count p) 0 0 = None"
        using loop by (simp add: Let_def)
      moreover have "\<not> unat ?u * horizon_units p \<le> unat max_ttl"
        using False fits [of "horizon_units p"] units by simp
      ultimately show ?thesis using small ok by (simp add: rn_policy_horizon_ms_def Let_def)
    next
      case True
      then obtain sofar where "horizon_loop ?s ?budget (replay_count p) 0 0 = Some sofar" "unat sofar = ?sum"
        using loop by (auto simp: Let_def)
      with True small ok units horizon_tail [of sofar "final_receive_units p" "horizon_units p" max_ttl ?u] pos
      show ?thesis by (simp add: rn_policy_horizon_ms_def Let_def flip: not_less)
    qed
  qed
qed

text \<open>
  C34. \<open>rn_policy_horizon_ms\<close> is the documented horizon \<open>H = U * (sum B(k) + F)\<close>: for a
  well-formed policy it returns exactly \<open>H\<close> when \<open>H\<close> does not exceed the given limit and fails
  otherwise, and it fails for every ill-formed policy.  No intermediate value wraps.
\<close>

theorem horizon_ms_correct:
  "map_option unat (rn_policy_horizon_ms max_replays p max_ttl) =
     (if policy_ok max_replays p \<and> unat (unit_ms p) * horizon_units p \<le> unat max_ttl
      then Some (unat (unit_ms p) * horizon_units p) else None)"
  by (cases "policy_ok max_replays p") (simp_all add: horizon_ms_fails horizon_ms_value Let_def)

lemma horizon_loop_rounds:
  assumes "horizon_loop s budget replays 0 0 = Some sofar"
    and "schedule_ok s" and "initial_units s \<noteq> 0" and "unat budget < 4294967296"
  shows "unat replays < 4294967295"
proof -
  have "(\<Sum>k = 0..<Suc (unat replays). 1) \<le> (\<Sum>k = 0..<Suc (unat replays). round_units s k)"
    by (rule sum_mono) (use round_units_pos [OF assms(2,3)] in \<open>simp add: Suc_leI\<close>)
  moreover have "(\<Sum>k = 0..<Suc (unat replays). round_units s k) \<le> unat budget"
    using horizon_loop_value [OF assms(2), of 0 budget 0 replays] assms(1)
    by (simp add: Let_def split: if_splits)
  ultimately show ?thesis using assms(4) by simp
qed

subsection \<open>Schedules parse and print\<close>

lemma parse_schedule_number_last [simp]:
  "rn_parse_schedule_number (show_dec (unat v)) False = Some (v, [])"
  using show_dec_no_colon [of "unat v"]
  by (simp add: rn_parse_schedule_number_def Let_def ngx_strlchr_None [symmetric] parse_show_dec)

lemma ngx_strlchr_append:
  "c \<notin> set a \<Longrightarrow> ngx_strlchr (a @ c # b) c = Some (length a)"
  by (induction a) auto

lemma parse_schedule_number_separated [simp]:
  "rn_parse_schedule_number (show_dec (unat v) @ CHR '':'' # rest) True = Some (v, rest)"
  using show_dec_no_colon [of "unat v"]
  by (simp add: rn_parse_schedule_number_def Let_def ngx_strlchr_append parse_show_dec)

text \<open>The configuration form of a schedule.\<close>

definition print_schedule :: "r_ha_schedule_t \<Rightarrow> string" where
  "print_schedule s =
     (case schedule_kind s of
        R_HA_SCHEDULE_UNSET \<Rightarrow> []
      | R_HA_SCHEDULE_FIXED \<Rightarrow> ''fixed:'' @ show_dec (unat (initial_units s))
      | R_HA_SCHEDULE_LINEAR \<Rightarrow> ''linear:'' @ show_dec (unat (initial_units s)) @ '':''
          @ show_dec (unat (growth s)) @ '':'' @ show_dec (unat (max_units s))
      | R_HA_SCHEDULE_EXPONENTIAL \<Rightarrow> ''exponential:'' @ show_dec (unat (initial_units s)) @ '':''
          @ show_dec (unat (growth s)) @ '':'' @ show_dec (unat (max_units s)))"

text \<open>A fixed schedule has one number: its maximum is its value and it has no growth.\<close>

definition schedule_canonical :: "r_ha_schedule_t \<Rightarrow> bool" where
  "schedule_canonical s \<longleftrightarrow> schedule_ok s \<and>
     (if schedule_kind s = R_HA_SCHEDULE_FIXED
      then max_units s = initial_units s \<and> growth s = 0 else True)"

lemma show_dec_length: "0 < length (show_dec n)"
  by simp

lemma parse_print_schedule:
  assumes "schedule_canonical s"
  shows "rn_parse_policy_schedule (print_schedule s) = Some s"
proof -
  note len = show_dec_length [of "unat (initial_units s)"]
  have P: "has_prefix (p @ x) p" if "nul \<notin> set p" for p x
    using that by (simp add: has_prefix_take)
  have N: "\<not> has_prefix (''linear:'' @ x) ''fixed:''"
    "\<not> has_prefix (''exponential:'' @ x) ''fixed:''"
    "\<not> has_prefix (''exponential:'' @ x) ''linear:''" for x
    by (simp_all add: has_prefix_take)
  show ?thesis
  proof (cases "schedule_kind s")
    case R_HA_SCHEDULE_UNSET
    with assms show ?thesis by (simp add: schedule_canonical_def schedule_ok_def)
  next
    case R_HA_SCHEDULE_FIXED
    then show ?thesis
      using assms P [of "''fixed:''"] len
      by (simp add: print_schedule_def rn_parse_policy_schedule_def schedule_canonical_def
          zero_schedule_def)
  next
    case R_HA_SCHEDULE_LINEAR
    then show ?thesis
      using assms P [of "''linear:''"] N(1) len
      by (auto simp: print_schedule_def rn_parse_policy_schedule_def schedule_canonical_def
          schedule_ok_def zero_schedule_def not_less dest: leD)
  next
    case R_HA_SCHEDULE_EXPONENTIAL
    then show ?thesis
      using assms P [of "''exponential:''"] N(2,3) len
      by (auto simp: print_schedule_def rn_parse_policy_schedule_def schedule_canonical_def
          schedule_ok_def zero_schedule_def not_less dest: leD)
  qed
qed

lemma parse_schedule_canonical:
  "rn_parse_policy_schedule str = Some s \<Longrightarrow> schedule_canonical s"
  by (auto simp: rn_parse_policy_schedule_def schedule_canonical_def schedule_ok_def
      zero_schedule_def not_less not_le split: if_splits bind_splits)

text \<open>
  C38. The schedules that \<open>rn_parse_policy_schedule\<close> can return are exactly the canonical
  well-formed ones, and parsing the configuration form of such a schedule gives it back.
\<close>

theorem schedule_roundtrip:
  "((\<exists>str. rn_parse_policy_schedule str = Some s) \<longleftrightarrow> schedule_canonical s)
   \<and> (rn_parse_policy_schedule (print_schedule s) = Some s \<longleftrightarrow> schedule_canonical s)"
  using parse_print_schedule [of s] parse_schedule_canonical [of _ s] by blast

subsection \<open>The policy directive's arguments\<close>

text \<open>
  The local variables of \<open>ngx_http_rn_set_policy\<close> that its loop updates, one argument of the
  loop, and the whole parse.  An error is the message the directive returns.
\<close>

record policy_args =
  policy :: r_request_policy_t
  unit_set :: bool
  replays_set :: bool
  replay_gap_set :: bool
  final_wait_set :: bool
  completion_delivery_set :: bool

text \<open>\<open>value[i].len >= sizeof(p) - 1 && ngx_strncmp(value[i].data, p, sizeof(p) - 1) == 0\<close>\<close>

definition named_arg :: "string \<Rightarrow> string \<Rightarrow> bool" where
  "named_arg arg p \<longleftrightarrow> length arg \<ge> length p \<and> has_prefix arg p"

definition policy_arg ::
  "(string \<Rightarrow> u64) \<Rightarrow> u32 \<Rightarrow> rn_policy_kind_t \<Rightarrow> policy_args \<Rightarrow> string \<Rightarrow> string + policy_args" where
  "policy_arg parse_time max_replays kind st arg =
     (if named_arg arg ''unit='' then
        (if unit_set st then Inl ''duplicate ratelimitly_policy unit=''
         else case rn_parse_protocol_duration_ms parse_time (drop 5 arg) of
           None \<Rightarrow> Inl ''invalid ratelimitly_policy unit''
         | Some number \<Rightarrow> Inr (st\<lparr>policy := (policy st)\<lparr>unit_ms := ucast number\<rparr>, unit_set := True\<rparr>))
      else if kind \<noteq> RN_POLICY_CUSTOM then
        Inl (if kind = RN_POLICY_STANDARD
          then ''ratelimitly_policy standard accepts only unit=''
          else ''ratelimitly_policy single_round accepts only unit='')
      else if named_arg arg ''replays='' then
        (if replays_set st then Inl ''duplicate ratelimitly_policy replays=''
         else case rn_numeric_parse_u32 (Some (drop 8 arg)) (Some 0) of
           (status, out) \<Rightarrow>
             (case out of
                Some number \<Rightarrow>
                  (if status \<noteq> 0 \<or> number > max_replays
                   then Inl ''invalid ratelimitly_policy replays''
                   else Inr (st\<lparr>policy := (policy st)\<lparr>replay_count := number\<rparr>, replays_set := True\<rparr>))
              | None \<Rightarrow> Inl ''invalid ratelimitly_policy replays''))
      else if named_arg arg ''replay_gap='' then
        (if replay_gap_set st then Inl ''duplicate ratelimitly_policy replay_gap=''
         else case rn_parse_policy_schedule (drop 11 arg) of
           None \<Rightarrow> Inl ''invalid ratelimitly_policy replay_gap''
         | Some s \<Rightarrow>
             (if initial_units s = 0 then Inl ''invalid ratelimitly_policy replay_gap''
              else Inr (st\<lparr>policy := (policy st)\<lparr>replay_gap := s\<rparr>, replay_gap_set := True\<rparr>)))
      else if named_arg arg ''final_wait_units='' then
        (if final_wait_set st then Inl ''duplicate ratelimitly_policy final_wait_units=''
         else case rn_numeric_parse_u32 (Some (drop 17 arg)) (Some 0) of
           (status, out) \<Rightarrow>
             (case out of
                Some number \<Rightarrow>
                  (if status \<noteq> 0 then Inl ''invalid ratelimitly_policy final_wait_units''
                   else Inr (st\<lparr>policy := (policy st)\<lparr>final_receive_units := number\<rparr>,
                     final_wait_set := True\<rparr>))
              | None \<Rightarrow> Inl ''invalid ratelimitly_policy final_wait_units''))
      else if named_arg arg ''completion_delivery='' then
        (if completion_delivery_set st then Inl ''duplicate ratelimitly_policy completion_delivery=''
         else if ngx_str_eq (drop 20 arg) ''on'' then
           Inr (st\<lparr>policy := (policy st)\<lparr>completion_delivery := True\<rparr>, completion_delivery_set := True\<rparr>)
         else if ngx_str_eq (drop 20 arg) ''off'' then
           Inr (st\<lparr>policy := (policy st)\<lparr>completion_delivery := False\<rparr>, completion_delivery_set := True\<rparr>)
         else Inl ''invalid ratelimitly_policy completion_delivery'')
      else Inl ''invalid ratelimitly_policy custom argument'')"

fun policy_arg_loop ::
  "(string \<Rightarrow> u64) \<Rightarrow> u32 \<Rightarrow> rn_policy_kind_t \<Rightarrow> policy_args \<Rightarrow> string list \<Rightarrow> string + policy_args" where
  "policy_arg_loop parse_time max_replays kind st [] = Inr st"
| "policy_arg_loop parse_time max_replays kind st (arg # args) =
     (case policy_arg parse_time max_replays kind st arg of
        Inl msg \<Rightarrow> Inl msg
      | Inr st' \<Rightarrow> policy_arg_loop parse_time max_replays kind st' args)"

definition policy_start :: "r_request_policy_t \<Rightarrow> string \<Rightarrow> (rn_policy_kind_t \<times> r_request_policy_t) option" where
  "policy_start default_policy name =
     (if ngx_str_eq name ''standard'' then Some (RN_POLICY_STANDARD, default_policy)
      else if ngx_str_eq name ''single_round'' then
        Some (RN_POLICY_SINGLE_ROUND, default_policy\<lparr>replay_count := 0, final_receive_units := 0,
          completion_delivery := False\<rparr>)
      else if ngx_str_eq name ''custom'' then Some (RN_POLICY_CUSTOM, zero_policy)
      else None)"

definition policy_parse ::
  "(string \<Rightarrow> u64) \<Rightarrow> u32 \<Rightarrow> r_request_policy_t \<Rightarrow> string \<Rightarrow> string list
     \<Rightarrow> string + r_request_policy_t \<times> rn_policy_kind_t" where
  "policy_parse parse_time max_replays default_policy name args =
     (case policy_start default_policy name of
        None \<Rightarrow> Inl ''invalid ratelimitly_policy name''
      | Some (kind, start) \<Rightarrow>
          (case policy_arg_loop parse_time max_replays kind
             \<lparr>policy = start, unit_set = False, replays_set = False, replay_gap_set = False,
               final_wait_set = False, completion_delivery_set = False\<rparr> args of
             Inl msg \<Rightarrow> Inl msg
           | Inr st \<Rightarrow>
               if kind = RN_POLICY_CUSTOM \<and> (\<not> unit_set st \<or> \<not> replays_set st
                 \<or> \<not> replay_gap_set st \<or> \<not> final_wait_set st \<or> \<not> completion_delivery_set st)
               then Inl ''ratelimitly_policy custom requires unit=, replays=, replay_gap=, final_wait_units=, and completion_delivery=''
               else case rn_policy_horizon_ms max_replays (policy st) UINT32_MAX of
                 None \<Rightarrow> Inl ''ratelimitly_policy horizon exceeds the wire limit''
               | Some _ \<Rightarrow> Inr (policy st, kind)))"

lemma policy_parse_horizon:
  assumes "policy_parse parse_time max_replays default_policy name args = Inr (p, kind)"
  shows "policy_ok max_replays p \<and> unat (unit_ms p) * horizon_units p \<le> 4294967295"
proof -
  from assms have "rn_policy_horizon_ms max_replays p UINT32_MAX \<noteq> None"
    by (auto simp: policy_parse_def split: option.splits sum.splits if_splits prod.splits)
  then show ?thesis
    using horizon_ms_correct [of max_replays p UINT32_MAX] by (auto split: if_splits)
qed

end
