(* ===== verification/Conf_Types.thy ===== *)
theory Conf_Types
  imports Policy
begin

text \<open>
  The configuration data of the module (\<open>rn_zone_t\<close> to \<open>rn_loc_conf_t\<close>), the four name
  lookups \<open>rn_find_*\<close>, and the interface \<open>registry\<close> they share: an append-only table searched
  by name, first match first.

  An nginx array is a list.  A null array and an empty one behave alike in the main
  configuration, where every use goes through \<open>rn_find_*\<close>; in a location the difference
  decides inheritance, so \<open>rules\<close> is an option.  A flag that may hold \<open>NGX_CONF_UNSET\<close> is an
  option.  \<open>ngx_http_complex_value_t\<close> is nginx's compiled template: the model keeps the
  template it was compiled from.
\<close>

subsection \<open>Structures\<close>

datatype complex_value = Uncompiled | Compiled string

record rn_zone_t =
  zone_name :: string
  bucket_template :: string
  bucket_cv :: complex_value
  rate_template :: string
  rate_cv :: complex_value

record rn_tracker_t =
  tracker_name :: string
  service_template :: string
  service_cv :: complex_value
  ttl_ms :: u32
  max_samples :: u32
  min_sample_threshold :: u32

record rn_guard_t =
  guard_name :: string
  guard_tracker :: string
  threshold_template :: string
  threshold_cv :: complex_value

record rn_group_t =
  group_name :: string
  group_zones :: "string list"

text \<open>Socket addresses, ports in network order as the code keeps them.\<close>

datatype family = AF_UNSPEC | AF_INET | AF_INET6 | AF_OTHER

record sockaddr =
  sa_family :: family
  sa_port :: u16
  sa_addr :: "u8 list"

datatype r_auth_type_t = R_AUTH_NONE | R_AUTH_COOKIE | R_AUTH_AES_GCM

text \<open>\<open>resolver\<close> names the nginx resolver object; the worker pointer lives in the process state.\<close>

record rn_main_conf_t =
  zones :: "rn_zone_t list"
  trackers :: "rn_tracker_t list"
  guards :: "rn_guard_t list"
  groups :: "rn_group_t list"
  tenant_dns :: "string option"
  key_id :: u64
  auth_type :: r_auth_type_t
  auth_key :: "string option"
  dedup_ttl_ms_max :: u32
  request_policy :: r_request_policy_t
  request_policy_kind :: rn_policy_kind_t
  request_policy_set :: bool
  fail_open :: bool
  main_enabled :: bool
  bind_addr :: "string option"
  bind_sockaddr :: sockaddr
  bind_socklen :: nat
  resolver :: "nat option"
  resolver_timeout :: u64
  init_retry_at :: u64
  init_retry_delay :: u64
  debug :: bool
  debug_set :: bool

datatype rn_rule_kind_t = RN_RULE_ZONE | RN_RULE_GROUP | RN_RULE_GUARD_ONLY

record rn_rule_ref_t =
  rule_kind :: rn_rule_kind_t
  rule_name :: string
  rule_guards :: "string list"

text \<open>\<open>rn_srv_conf_t\<close> has the fields of \<open>rn_loc_conf_t\<close>.\<close>

record rn_loc_conf_t =
  enabled :: "bool option"
  rules :: "rn_rule_ref_t list option"
  report_set :: bool
  report_enabled :: bool
  report_tracker_name :: string
  label_template :: string
  label_cv :: complex_value
  label_set :: bool

type_synonym rn_srv_conf_t = rn_loc_conf_t

text \<open>An \<open>ngx_str_t\<close> of the main configuration; an unset one has length zero.\<close>

definition str_of :: "string option \<Rightarrow> string" where
  "str_of s = (case s of None \<Rightarrow> [] | Some x \<Rightarrow> x)"

subsection \<open>Lookup by name\<close>

fun find_zone_in :: "rn_zone_t list \<Rightarrow> string \<Rightarrow> rn_zone_t option" where
  "find_zone_in [] name = None"
| "find_zone_in (z # zs) name = (if ngx_str_eq (zone_name z) name then Some z else find_zone_in zs name)"

definition rn_find_zone :: "rn_main_conf_t \<Rightarrow> string \<Rightarrow> rn_zone_t option" where
  "rn_find_zone mcf name = find_zone_in (zones mcf) name"

fun find_tracker_in :: "rn_tracker_t list \<Rightarrow> string \<Rightarrow> rn_tracker_t option" where
  "find_tracker_in [] name = None"
| "find_tracker_in (t # ts) name =
     (if ngx_str_eq (tracker_name t) name then Some t else find_tracker_in ts name)"

definition rn_find_tracker :: "rn_main_conf_t \<Rightarrow> string \<Rightarrow> rn_tracker_t option" where
  "rn_find_tracker mcf name = find_tracker_in (trackers mcf) name"

fun find_guard_in :: "rn_guard_t list \<Rightarrow> string \<Rightarrow> rn_guard_t option" where
  "find_guard_in [] name = None"
| "find_guard_in (g # gs) name =
     (if ngx_str_eq (guard_name g) name then Some g else find_guard_in gs name)"

definition rn_find_guard :: "rn_main_conf_t \<Rightarrow> string \<Rightarrow> rn_guard_t option" where
  "rn_find_guard mcf name = find_guard_in (guards mcf) name"

fun find_group_in :: "rn_group_t list \<Rightarrow> string \<Rightarrow> rn_group_t option" where
  "find_group_in [] name = None"
| "find_group_in (g # gs) name =
     (if ngx_str_eq (group_name g) name then Some g else find_group_in gs name)"

definition rn_find_group :: "rn_main_conf_t \<Rightarrow> string \<Rightarrow> rn_group_t option" where
  "rn_find_group mcf name = find_group_in (groups mcf) name"

subsection \<open>The interface of a name table\<close>

locale registry =
  fixes entry_name :: "'e \<Rightarrow> string"
    and lookup :: "'e list \<Rightarrow> string \<Rightarrow> 'e option"
  assumes lookup_empty: "lookup [] n = None"
    and lookup_step: "lookup (e # es) n = (if ngx_str_eq (entry_name e) n then Some e else lookup es n)"
begin

text \<open>The invariant of a table that only takes entries with a name it does not hold yet.\<close>

fun names_distinct :: "'e list \<Rightarrow> bool" where
  "names_distinct [] = True"
| "names_distinct (e # es) = (lookup es (entry_name e) = None \<and> names_distinct es)"

lemma lookup_append:
  "lookup (es @ fs) n = (case lookup es n of Some e \<Rightarrow> Some e | None \<Rightarrow> lookup fs n)"
  by (induction es) (auto simp: lookup_empty lookup_step)

lemma lookup_in: "lookup es n = Some e \<Longrightarrow> e \<in> set es \<and> ngx_str_eq (entry_name e) n"
  by (induction es) (auto simp: lookup_empty lookup_step split: if_splits)

lemma lookup_None: "lookup es n = None \<longleftrightarrow> (\<forall>e \<in> set es. \<not> ngx_str_eq (entry_name e) n)"
  by (induction es) (auto simp: lookup_empty lookup_step)

lemma lookup_kept: "lookup es n \<noteq> None \<Longrightarrow> lookup (es @ fs) n = lookup es n"
  by (auto simp: lookup_append)

lemma lookup_new: "lookup es (entry_name e) = None \<Longrightarrow> lookup (es @ [e]) (entry_name e) = Some e"
  by (simp add: lookup_append lookup_step lookup_empty)

lemma lookup_cong: "ngx_str_eq n m \<Longrightarrow> lookup es n = lookup es m"
  by (induction es) (auto simp: lookup_empty lookup_step dest: ngx_str_eq_trans ngx_str_eq_sym)

lemma names_distinct_snoc:
  assumes "names_distinct es" and "lookup es (entry_name e) = None"
  shows "names_distinct (es @ [e])"
  using assms
proof (induction es)
  case (Cons d es)
  then have "\<not> ngx_str_eq (entry_name d) (entry_name e)" by (simp add: lookup_step split: if_splits)
  then have "\<not> ngx_str_eq (entry_name e) (entry_name d)" by (blast dest: ngx_str_eq_sym)
  with Cons show ?case by (simp add: lookup_append lookup_step lookup_empty split: if_splits)
qed (simp add: lookup_empty)

lemma lookup_self:
  assumes "names_distinct es" and "e \<in> set es"
  shows "lookup es (entry_name e) = Some e"
  using assms
proof (induction es)
  case (Cons d es)
  show ?case
  proof (cases "e \<in> set es")
    case True
    with Cons have "lookup es (entry_name e) = Some e" by simp
    moreover have "\<not> ngx_str_eq (entry_name d) (entry_name e)"
      using Cons.prems(1) True by (auto simp: lookup_None dest: ngx_str_eq_sym)
    ultimately show ?thesis by (simp add: lookup_step)
  next
    case False
    with Cons.prems show ?thesis by (simp add: lookup_step)
  qed
qed simp

end

interpretation zone_table: registry zone_name find_zone_in
  by unfold_locales simp_all

interpretation tracker_table: registry tracker_name find_tracker_in
  by unfold_locales simp_all

interpretation guard_table: registry guard_name find_guard_in
  by unfold_locales simp_all

interpretation group_table: registry group_name find_group_in
  by unfold_locales simp_all

end
