(* ===== verification/Config.thy ===== *)
theory Config
  imports Conf_Types
begin

text \<open>
  The directive handlers of \<open>src/ngx_http_ratelimitly_module.c\<close>: what \<open>nginx -t\<close> accepts and
  the configuration it builds.  A handler takes the directive's arguments after its name
  (\<open>value[1]\<close>, \<open>value[2]\<close>, ...) and returns what the C function returns, \<open>NGX_CONF_OK\<close>,
  \<open>NGX_CONF_ERROR\<close> or a message, with the configuration after the call.  nginx checks the
  argument counts of the command table before it calls a handler.

  \<open>conf_env\<close> is what the handlers call outside the repository: the pool allocator (\<open>oom\<close>, by
  the position of the allocation in its handler), \<open>ngx_http_script_variables_count\<close>,
  \<open>ngx_http_compile_complex_value\<close>, \<open>ngx_parse_time\<close>, \<open>ngx_parse_addr\<close>,
  \<open>ngx_resolver_create\<close>, \<open>r_client_parse_auth_key\<close>, and the client's policy constants.
\<close>

datatype conf_result = NGX_CONF_OK | NGX_CONF_ERROR | CONF_MSG string

record r_auth_key_info_t =
  info_type :: r_auth_type_t
  info_key_id :: u64
  info_dedup_ttl_ms_max :: u32

record conf_env =
  oom :: "nat \<Rightarrow> bool"
  script_vars :: "string \<Rightarrow> nat"
  compile_ok :: "string \<Rightarrow> bool"
  parse_time :: "string \<Rightarrow> u64"
  parse_addr :: "string \<Rightarrow> (sockaddr \<times> nat) option"
  resolver_create :: "string list \<Rightarrow> nat option"
  parse_auth_key :: "string \<Rightarrow> r_auth_key_info_t option"
  default_policy :: r_request_policy_t
  max_replays :: u32

definition RN_MAX_BUCKET_LEN :: nat where "RN_MAX_BUCKET_LEN = 1024"
definition RN_MAX_SERVICE_LEN :: nat where "RN_MAX_SERVICE_LEN = 1024"
definition RN_MAX_LABEL_LEN :: nat where "RN_MAX_LABEL_LEN = 256"

subsection \<open>Main configuration directives\<close>

definition ngx_http_rn_create_main_conf :: "conf_env \<Rightarrow> rn_main_conf_t option" where
  "ngx_http_rn_create_main_conf env =
     (if oom env 0 then None
      else Some \<lparr>zones = [], trackers = [], guards = [], groups = [],
        tenant_dns = None, key_id = 0, auth_type = R_AUTH_NONE, auth_key = None,
        dedup_ttl_ms_max = 0, request_policy = default_policy env,
        request_policy_kind = RN_POLICY_STANDARD, request_policy_set = False,
        fail_open = True, main_enabled = False, bind_addr = None,
        bind_sockaddr = \<lparr>sa_family = AF_UNSPEC, sa_port = 0, sa_addr = []\<rparr>, bind_socklen = 0,
        resolver = None, resolver_timeout = 0, init_retry_at = 0, init_retry_delay = 0,
        debug = False, debug_set = False\<rparr>)"

definition ngx_http_rn_set_dns_srv :: "string \<Rightarrow> rn_main_conf_t \<Rightarrow> conf_result \<times> rn_main_conf_t" where
  "ngx_http_rn_set_dns_srv v mcf =
     (if tenant_dns mcf \<noteq> None then (CONF_MSG ''is duplicate'', mcf)
      else (NGX_CONF_OK, mcf\<lparr>tenant_dns := Some v\<rparr>))"

definition ngx_http_rn_set_dns_resolver ::
  "conf_env \<Rightarrow> string list \<Rightarrow> rn_main_conf_t \<Rightarrow> conf_result \<times> rn_main_conf_t" where
  "ngx_http_rn_set_dns_resolver env args mcf =
     (if resolver mcf \<noteq> None then (CONF_MSG ''is duplicate'', mcf)
      else case resolver_create env args of
        None \<Rightarrow> (NGX_CONF_ERROR, mcf\<lparr>resolver := None\<rparr>)
      | Some r \<Rightarrow> (NGX_CONF_OK, mcf\<lparr>resolver := Some r\<rparr>))"

definition ngx_http_rn_set_auth_key ::
  "conf_env \<Rightarrow> string \<Rightarrow> rn_main_conf_t \<Rightarrow> conf_result \<times> rn_main_conf_t" where
  "ngx_http_rn_set_auth_key env v mcf =
     (if auth_key mcf \<noteq> None then (CONF_MSG ''is duplicate'', mcf)
      else if length v = 0 then (CONF_MSG ''ratelimitly_auth_key requires a bech32 key'', mcf)
      else if oom env 0 then (NGX_CONF_ERROR, mcf)
      else case parse_auth_key env v of
        None \<Rightarrow> (CONF_MSG ''invalid ratelimitly_auth_key bech32 value'', mcf)
      | Some info \<Rightarrow>
          (NGX_CONF_OK, mcf\<lparr>auth_key := Some v, auth_type := info_type info,
             key_id := info_key_id info, dedup_ttl_ms_max := info_dedup_ttl_ms_max info\<rparr>))"

definition ngx_http_rn_set_policy ::
  "conf_env \<Rightarrow> string \<Rightarrow> string list \<Rightarrow> rn_main_conf_t \<Rightarrow> conf_result \<times> rn_main_conf_t" where
  "ngx_http_rn_set_policy env name args mcf =
     (if request_policy_set mcf then (CONF_MSG ''is duplicate'', mcf)
      else case policy_parse (parse_time env) (max_replays env) (default_policy env) name args of
        Inl msg \<Rightarrow> (CONF_MSG msg, mcf)
      | Inr (p, kind) \<Rightarrow>
          (NGX_CONF_OK, mcf\<lparr>request_policy := p, request_policy_kind := kind,
             request_policy_set := True\<rparr>))"

definition ngx_http_rn_set_fail :: "string \<Rightarrow> rn_main_conf_t \<Rightarrow> conf_result \<times> rn_main_conf_t" where
  "ngx_http_rn_set_fail v mcf =
     (if ngx_str_eq v ''open'' then (NGX_CONF_OK, mcf\<lparr>fail_open := True\<rparr>)
      else if ngx_str_eq v ''close'' then (NGX_CONF_OK, mcf\<lparr>fail_open := False\<rparr>)
      else (CONF_MSG ''invalid ratelimitly_fail value'', mcf))"

text \<open>The size of \<open>struct sockaddr_storage\<close> on the supported platforms.\<close>

definition sockaddr_storage_size :: nat where "sockaddr_storage_size = 128"

definition ngx_http_rn_set_bind ::
  "conf_env \<Rightarrow> string \<Rightarrow> rn_main_conf_t \<Rightarrow> conf_result \<times> rn_main_conf_t" where
  "ngx_http_rn_set_bind env v mcf =
     (if bind_addr mcf \<noteq> None then (CONF_MSG ''is duplicate'', mcf)
      else case parse_addr env v of
        None \<Rightarrow> (CONF_MSG ''invalid ratelimitly_bind address'', mcf)
      | Some (addr, socklen) \<Rightarrow>
          (if (sa_family addr \<noteq> AF_INET \<and> sa_family addr \<noteq> AF_INET6)
             \<or> socklen > sockaddr_storage_size
           then (CONF_MSG ''invalid ratelimitly_bind address'', mcf)
           else (NGX_CONF_OK, mcf\<lparr>bind_addr := Some v, bind_sockaddr := addr, bind_socklen := socklen\<rparr>)))"

definition ngx_http_rn_set_debug :: "string \<Rightarrow> rn_main_conf_t \<Rightarrow> conf_result \<times> rn_main_conf_t" where
  "ngx_http_rn_set_debug v mcf =
     (if debug_set mcf then (CONF_MSG ''is duplicate'', mcf)
      else if ngx_str_eq v ''on'' then (NGX_CONF_OK, mcf\<lparr>debug := True, debug_set := True\<rparr>)
      else if ngx_str_eq v ''off'' then (NGX_CONF_OK, mcf\<lparr>debug := False, debug_set := True\<rparr>)
      else (CONF_MSG ''invalid ratelimitly_debug value'', mcf))"

subsection \<open>Names and quoting\<close>

definition bad_name :: "string \<Rightarrow> bool" where
  "bad_name name \<longleftrightarrow> length name = 0 \<or> ngx_strlchr name CHR ''='' \<noteq> None"

definition rn_has_literal_value_quotes :: "string \<Rightarrow> bool" where
  "rn_has_literal_value_quotes s =
     (if length s < 2 then False
      else (hd s = CHR 0x22 \<or> hd s = CHR 0x27) \<and> last s = hd s)"

subsection \<open>Zones\<close>

fun zone_args :: "string list \<Rightarrow> string \<times> string \<Rightarrow> string + string \<times> string" where
  "zone_args [] acc = Inr acc"
| "zone_args (v # vs) (bucket, rate) =
     (if has_prefix v ''bucket='' then zone_args vs (drop 7 v, rate)
      else if has_prefix v ''rate='' then zone_args vs (bucket, drop 5 v)
      else Inl ''invalid ratelimitly_zone argument'')"

definition ngx_http_rn_zone ::
  "conf_env \<Rightarrow> string \<Rightarrow> string list \<Rightarrow> rn_main_conf_t \<Rightarrow> conf_result \<times> rn_main_conf_t" where
  "ngx_http_rn_zone env name args mcf =
     (if bad_name name
      then (CONF_MSG ''ratelimitly_zone requires positional <name> as first argument'', mcf)
      else case zone_args args ([], []) of
        Inl msg \<Rightarrow> (CONF_MSG msg, mcf)
      | Inr (bucket, rate) \<Rightarrow>
          if length bucket = 0 \<or> length rate = 0
          then (CONF_MSG ''ratelimitly_zone requires <name>, bucket=, rate='', mcf)
          else if rn_has_literal_value_quotes bucket
          then (CONF_MSG ''quote the complete bucket= argument, not only its value'', mcf)
          else if script_vars env bucket = 0 \<and> length bucket > RN_MAX_BUCKET_LEN
          then (NGX_CONF_ERROR, mcf)
          else if script_vars env rate = 0
            \<and> fst (rn_numeric_parse_rate (Some rate) (Some 0) (Some 0)) \<noteq> 0
          then (CONF_MSG ''invalid ratelimitly_zone rate'', mcf)
          else if zones mcf = [] \<and> oom env 0 then (NGX_CONF_ERROR, mcf)
          else if rn_find_zone mcf name \<noteq> None
          then (CONF_MSG ''duplicate ratelimitly_zone name'', mcf)
          else if oom env 1 then (NGX_CONF_ERROR, mcf)
          else let
            zone = \<lparr>zone_name = name, bucket_template = bucket, bucket_cv = Uncompiled,
              rate_template = rate, rate_cv = Uncompiled\<rparr>;
            push = (\<lambda>z. mcf\<lparr>zones := zones mcf @ [z]\<rparr>) in
            if \<not> compile_ok env bucket then (NGX_CONF_ERROR, push zone)
            else if \<not> compile_ok env rate
            then (NGX_CONF_ERROR, push (zone\<lparr>bucket_cv := Compiled bucket\<rparr>))
            else (NGX_CONF_OK, push (zone\<lparr>bucket_cv := Compiled bucket, rate_cv := Compiled rate\<rparr>)))"

subsection \<open>Groups\<close>

text \<open>The loop over the \<open>zone=\<close> arguments: the result and the references pushed before it.\<close>

fun group_args ::
  "conf_env \<Rightarrow> rn_main_conf_t \<Rightarrow> string list \<Rightarrow> string list \<Rightarrow> conf_result \<times> string list" where
  "group_args env mcf [] acc = (NGX_CONF_OK, acc)"
| "group_args env mcf (v # vs) acc =
     (if \<not> has_prefix v ''zone='' then (CONF_MSG ''ratelimitly_group expects zone=... entries'', acc)
      else let zname = drop 5 v in
        if length zname = 0
        then (CONF_MSG ''ratelimitly_group requires nonempty zone= references'', acc)
        else if rn_find_zone mcf zname = None
        then (CONF_MSG ''ratelimitly_group references unknown zone'', acc)
        else if oom env (3 + length acc) then (NGX_CONF_ERROR, acc)
        else group_args env mcf vs (acc @ [zname]))"

definition ngx_http_rn_group ::
  "conf_env \<Rightarrow> string \<Rightarrow> string list \<Rightarrow> rn_main_conf_t \<Rightarrow> conf_result \<times> rn_main_conf_t" where
  "ngx_http_rn_group env name args mcf =
     (if args = [] then (CONF_MSG ''ratelimitly_group requires name and at least one zone='', mcf)
      else if bad_name name
      then (CONF_MSG ''ratelimitly_group requires positional <name> as first argument'', mcf)
      else if groups mcf = [] \<and> oom env 0 then (NGX_CONF_ERROR, mcf)
      else if rn_find_group mcf name \<noteq> None
      then (CONF_MSG ''duplicate ratelimitly_group name'', mcf)
      else if oom env 1 then (NGX_CONF_ERROR, mcf)
      else let push = (\<lambda>zs. mcf\<lparr>groups := groups mcf @ [\<lparr>group_name = name, group_zones = zs\<rparr>]\<rparr>) in
        if oom env 2 then (NGX_CONF_ERROR, push [])
        else case group_args env mcf args [] of (result, zs) \<Rightarrow> (result, push zs))"

subsection \<open>Trackers\<close>

text \<open>The local variables of \<open>ngx_http_rn_tracker\<close> that its argument loop updates.\<close>

record tracker_args =
  ta_service :: string
  ta_ttl_ms :: u32
  ta_max_samples :: u32
  ta_min_sample_threshold :: u32
  ta_service_set :: bool
  ta_ttl_set :: bool
  ta_max_samples_set :: bool
  ta_min_sample_threshold_set :: bool

definition tracker_defaults :: tracker_args where
  "tracker_defaults = \<lparr>ta_service = [], ta_ttl_ms = 30000, ta_max_samples = 128,
     ta_min_sample_threshold = 8, ta_service_set = False, ta_ttl_set = False,
     ta_max_samples_set = False, ta_min_sample_threshold_set = False\<rparr>"

definition tracker_arg :: "conf_env \<Rightarrow> tracker_args \<Rightarrow> string \<Rightarrow> string + tracker_args" where
  "tracker_arg env st v =
     (if has_prefix v ''service='' then
        (if ta_service_set st then Inl ''duplicate ratelimitly_tracker service=''
         else Inr (st\<lparr>ta_service_set := True, ta_service := drop 8 v\<rparr>))
      else if has_prefix v ''ttl='' then
        (if ta_ttl_set st then Inl ''duplicate ratelimitly_tracker ttl=''
         else case rn_parse_protocol_duration_ms (parse_time env) (drop 4 v) of
           None \<Rightarrow> Inl ''invalid ratelimitly_tracker ttl''
         | Some ms \<Rightarrow> Inr (st\<lparr>ta_ttl_set := True, ta_ttl_ms := ms\<rparr>))
      else if has_prefix v ''max_samples='' then
        (if ta_max_samples_set st then Inl ''duplicate ratelimitly_tracker max_samples=''
         else case rn_numeric_parse_u32 (Some (drop 12 v)) (Some (ta_max_samples st)) of
           (status, out) \<Rightarrow>
             (case out of
                Some n \<Rightarrow>
                  (if status \<noteq> 0 \<or> n = 0 then Inl ''invalid ratelimitly_tracker max_samples''
                   else Inr (st\<lparr>ta_max_samples_set := True, ta_max_samples := n\<rparr>))
              | None \<Rightarrow> Inl ''invalid ratelimitly_tracker max_samples''))
      else if has_prefix v ''buffer_size='' then
        Inl ''ratelimitly_tracker buffer_size is no longer supported''
      else if has_prefix v ''min_sample_threshold='' then
        (if ta_min_sample_threshold_set st
         then Inl ''duplicate ratelimitly_tracker min_sample_threshold=''
         else case rn_numeric_parse_u32 (Some (drop 21 v)) (Some (ta_min_sample_threshold st)) of
           (status, out) \<Rightarrow>
             (case out of
                Some n \<Rightarrow>
                  (if status \<noteq> 0 then Inl ''invalid ratelimitly_tracker min_sample_threshold''
                   else Inr (st\<lparr>ta_min_sample_threshold_set := True, ta_min_sample_threshold := n\<rparr>))
              | None \<Rightarrow> Inl ''invalid ratelimitly_tracker min_sample_threshold''))
      else Inl ''invalid ratelimitly_tracker argument'')"

fun tracker_arg_loop :: "conf_env \<Rightarrow> tracker_args \<Rightarrow> string list \<Rightarrow> string + tracker_args" where
  "tracker_arg_loop env st [] = Inr st"
| "tracker_arg_loop env st (v # vs) =
     (case tracker_arg env st v of
        Inl msg \<Rightarrow> Inl msg
      | Inr st' \<Rightarrow> tracker_arg_loop env st' vs)"

definition ngx_http_rn_tracker ::
  "conf_env \<Rightarrow> string \<Rightarrow> string list \<Rightarrow> rn_main_conf_t \<Rightarrow> conf_result \<times> rn_main_conf_t" where
  "ngx_http_rn_tracker env name args mcf =
     (if args = [] then (CONF_MSG ''ratelimitly_tracker requires <name> and service='', mcf)
      else if bad_name name
      then (CONF_MSG ''ratelimitly_tracker requires positional <name> as first argument'', mcf)
      else if ngx_str_eq name ''off''
      then (CONF_MSG ''ratelimitly_tracker name \"off\" is reserved'', mcf)
      else case tracker_arg_loop env tracker_defaults args of
        Inl msg \<Rightarrow> (CONF_MSG msg, mcf)
      | Inr st \<Rightarrow>
          let service = ta_service st in
          if length service = 0
          then (CONF_MSG ''ratelimitly_tracker requires <name> and service='', mcf)
          else if rn_has_literal_value_quotes service
          then (CONF_MSG ''quote the complete service= argument, not only its value'', mcf)
          else if script_vars env service = 0 \<and> length service > RN_MAX_SERVICE_LEN
          then (NGX_CONF_ERROR, mcf)
          else if trackers mcf = [] \<and> oom env 0 then (NGX_CONF_ERROR, mcf)
          else if rn_find_tracker mcf name \<noteq> None
          then (CONF_MSG ''duplicate ratelimitly_tracker name'', mcf)
          else if oom env 1 then (NGX_CONF_ERROR, mcf)
          else let
            tracker = \<lparr>tracker_name = name, service_template = service, service_cv = Uncompiled,
              ttl_ms = ta_ttl_ms st, max_samples = ta_max_samples st,
              min_sample_threshold = ta_min_sample_threshold st\<rparr>;
            push = (\<lambda>t. mcf\<lparr>trackers := trackers mcf @ [t]\<rparr>) in
            if \<not> compile_ok env service then (NGX_CONF_ERROR, push tracker)
            else (NGX_CONF_OK, push (tracker\<lparr>service_cv := Compiled service\<rparr>)))"

subsection \<open>Guards\<close>

record guard_args =
  ga_tracker :: string
  ga_threshold :: string
  ga_tracker_set :: bool
  ga_threshold_set :: bool

fun guard_arg_loop :: "guard_args \<Rightarrow> string list \<Rightarrow> string + guard_args" where
  "guard_arg_loop st [] = Inr st"
| "guard_arg_loop st (v # vs) =
     (if has_prefix v ''tracker='' then
        (if ga_tracker_set st then Inl ''duplicate ratelimitly_guard tracker=''
         else guard_arg_loop (st\<lparr>ga_tracker_set := True, ga_tracker := drop 8 v\<rparr>) vs)
      else if has_prefix v ''threshold='' then
        (if ga_threshold_set st then Inl ''duplicate ratelimitly_guard threshold=''
         else guard_arg_loop (st\<lparr>ga_threshold_set := True, ga_threshold := drop 10 v\<rparr>) vs)
      else Inl ''ratelimitly_guard expects tracker= and threshold='')"

definition ngx_http_rn_guard ::
  "conf_env \<Rightarrow> string \<Rightarrow> string list \<Rightarrow> rn_main_conf_t \<Rightarrow> conf_result \<times> rn_main_conf_t" where
  "ngx_http_rn_guard env name args mcf =
     (if bad_name name
      then (CONF_MSG ''ratelimitly_guard requires positional <name> as first argument'', mcf)
      else case guard_arg_loop \<lparr>ga_tracker = [], ga_threshold = [], ga_tracker_set = False,
        ga_threshold_set = False\<rparr> args of
        Inl msg \<Rightarrow> (CONF_MSG msg, mcf)
      | Inr st \<Rightarrow>
          let tracker = ga_tracker st; threshold = ga_threshold st in
          if length tracker = 0 \<or> length threshold = 0
          then (CONF_MSG ''ratelimitly_guard requires <name>, tracker=, threshold='', mcf)
          else if rn_find_tracker mcf tracker = None
          then (CONF_MSG ''ratelimitly_guard references unknown tracker'', mcf)
          else if script_vars env threshold = 0
            \<and> rn_parse_protocol_duration_ms (parse_time env) threshold = None
          then (CONF_MSG ''invalid ratelimitly_guard threshold'', mcf)
          else if guards mcf = [] \<and> oom env 0 then (NGX_CONF_ERROR, mcf)
          else if rn_find_guard mcf name \<noteq> None
          then (CONF_MSG ''duplicate ratelimitly_guard name'', mcf)
          else if oom env 1 then (NGX_CONF_ERROR, mcf)
          else let
            guard = \<lparr>guard_name = name, guard_tracker = tracker, threshold_template = threshold,
              threshold_cv = Uncompiled\<rparr>;
            push = (\<lambda>g. mcf\<lparr>guards := guards mcf @ [g]\<rparr>) in
            if \<not> compile_ok env threshold then (NGX_CONF_ERROR, push guard)
            else (NGX_CONF_OK, push (guard\<lparr>threshold_cv := Compiled threshold\<rparr>)))"

subsection \<open>Rules\<close>

record rule_args =
  ra_zone :: string
  ra_group :: string
  ra_zone_seen :: bool
  ra_group_seen :: bool
  ra_guards :: "string list"

fun rule_arg_loop ::
  "conf_env \<Rightarrow> rn_main_conf_t \<Rightarrow> rule_args \<Rightarrow> string list \<Rightarrow> conf_result \<times> rule_args" where
  "rule_arg_loop env mcf st [] = (NGX_CONF_OK, st)"
| "rule_arg_loop env mcf st (v # vs) =
     (if has_prefix v ''zone='' then
        (if ra_group_seen st \<or> ra_zone_seen st
         then (CONF_MSG ''ratelimitly expects exactly one of zone= or group='', st)
         else rule_arg_loop env mcf (st\<lparr>ra_zone_seen := True, ra_zone := drop 5 v\<rparr>) vs)
      else if has_prefix v ''group='' then
        (if ra_zone_seen st \<or> ra_group_seen st
         then (CONF_MSG ''ratelimitly expects exactly one of zone= or group='', st)
         else rule_arg_loop env mcf (st\<lparr>ra_group_seen := True, ra_group := drop 6 v\<rparr>) vs)
      else if has_prefix v ''guard='' then
        (let gname = drop 6 v in
         if length gname = 0 then (CONF_MSG ''ratelimitly requires nonempty guard= references'', st)
         else if rn_find_guard mcf gname = None
         then (CONF_MSG ''ratelimitly references unknown guard'', st)
         else if oom env (4 + length (ra_guards st)) then (NGX_CONF_ERROR, st)
         else rule_arg_loop env mcf (st\<lparr>ra_guards := ra_guards st @ [gname]\<rparr>) vs)
      else (CONF_MSG ''ratelimitly expects zone=, group=, and optional guard='', st))"

text \<open>
  The checks after the loop and the rule they select.  The pushed rule gets its guards copied
  into an array of its own, created with room for all of them, so that only its creation can
  fail.
\<close>

definition ngx_http_rn_rule ::
  "conf_env \<Rightarrow> string list \<Rightarrow> rn_loc_conf_t \<Rightarrow> rn_main_conf_t
     \<Rightarrow> conf_result \<times> rn_loc_conf_t \<times> rn_main_conf_t" where
  "ngx_http_rn_rule env args lcf0 mcf =
     (if rules lcf0 = None \<and> oom env 0 then (NGX_CONF_ERROR, lcf0, mcf)
      else let
        rules0 = (case rules lcf0 of None \<Rightarrow> [] | Some rs \<Rightarrow> rs);
        lcf = lcf0\<lparr>rules := Some rules0\<rparr> in
        if oom env 1 then (NGX_CONF_ERROR, lcf, mcf)
        else case rule_arg_loop env mcf \<lparr>ra_zone = [], ra_group = [], ra_zone_seen = False,
          ra_group_seen = False, ra_guards = []\<rparr> args of
          (result, st) \<Rightarrow>
            if result \<noteq> NGX_CONF_OK then (result, lcf, mcf)
            else if \<not> ra_zone_seen st \<and> \<not> ra_group_seen st \<and> length (ra_guards st) = 0
            then (CONF_MSG ''ratelimitly requires zone=<name>, group=<name>, or guard=<name>'', lcf, mcf)
            else if (ra_zone_seen st \<and> length (ra_zone st) = 0)
              \<or> (ra_group_seen st \<and> length (ra_group st) = 0)
            then (CONF_MSG ''ratelimitly requires a nonempty zone= or group= reference'', lcf, mcf)
            else if ra_zone_seen st \<and> rn_find_zone mcf (ra_zone st) = None
            then (CONF_MSG ''ratelimitly references unknown zone'', lcf, mcf)
            else if \<not> ra_zone_seen st \<and> ra_group_seen st \<and> rn_find_group mcf (ra_group st) = None
            then (CONF_MSG ''ratelimitly references unknown group'', lcf, mcf)
            else if oom env 2 then (NGX_CONF_ERROR, lcf, mcf)
            else let
              rule = (if ra_zone_seen st
                then \<lparr>rule_kind = RN_RULE_ZONE, rule_name = ra_zone st, rule_guards = []\<rparr>
                else if ra_group_seen st
                then \<lparr>rule_kind = RN_RULE_GROUP, rule_name = ra_group st, rule_guards = []\<rparr>
                else \<lparr>rule_kind = RN_RULE_GUARD_ONLY, rule_name = [], rule_guards = []\<rparr>);
              push = (\<lambda>r. lcf\<lparr>rules := Some (rules0 @ [r])\<rparr>) in
              if oom env 3 then (NGX_CONF_ERROR, push rule, mcf)
              else (NGX_CONF_OK,
                (push (rule\<lparr>rule_guards := ra_guards st\<rparr>))\<lparr>enabled := Some True\<rparr>,
                mcf\<lparr>main_enabled := True\<rparr>))"

subsection \<open>Labels and reports\<close>

definition ngx_http_rn_label ::
  "conf_env \<Rightarrow> string \<Rightarrow> rn_loc_conf_t \<Rightarrow> conf_result \<times> rn_loc_conf_t" where
  "ngx_http_rn_label env v lcf =
     (if script_vars env v = 0 \<and> length v > RN_MAX_LABEL_LEN then (NGX_CONF_ERROR, lcf)
      else if \<not> compile_ok env v then (NGX_CONF_ERROR, lcf\<lparr>label_template := v\<rparr>)
      else (NGX_CONF_OK, lcf\<lparr>label_template := v, label_cv := Compiled v, label_set := True\<rparr>))"

definition ngx_http_rn_report ::
  "string \<Rightarrow> rn_loc_conf_t \<Rightarrow> rn_main_conf_t \<Rightarrow> conf_result \<times> rn_loc_conf_t \<times> rn_main_conf_t" where
  "ngx_http_rn_report v lcf0 mcf =
     (if report_set lcf0 then (CONF_MSG ''is duplicate'', lcf0, mcf)
      else let lcf = lcf0\<lparr>report_set := True\<rparr> in
        if ngx_str_eq v ''off''
        then (NGX_CONF_OK, lcf\<lparr>report_enabled := False, report_tracker_name := []\<rparr>, mcf)
        else if rn_find_tracker mcf v = None
        then (CONF_MSG ''ratelimitly_report references unknown tracker'', lcf, mcf)
        else (NGX_CONF_OK, lcf\<lparr>report_enabled := True, report_tracker_name := v\<rparr>,
          mcf\<lparr>main_enabled := True\<rparr>))"

subsection \<open>Location configurations and inheritance\<close>

definition ngx_http_rn_create_loc_conf :: "conf_env \<Rightarrow> rn_loc_conf_t option" where
  "ngx_http_rn_create_loc_conf env =
     (if oom env 0 then None
      else Some \<lparr>enabled = None, rules = None, report_set = False, report_enabled = False,
        report_tracker_name = [], label_template = [], label_cv = Uncompiled, label_set = False\<rparr>)"

definition ngx_http_rn_create_srv_conf :: "conf_env \<Rightarrow> rn_srv_conf_t option" where
  "ngx_http_rn_create_srv_conf env =
     (if oom env 0 then None
      else Some \<lparr>enabled = None, rules = None, report_set = False, report_enabled = False,
        report_tracker_name = [], label_template = [], label_cv = Uncompiled, label_set = False\<rparr>)"

text \<open>
  \<open>merge_value\<close> is nginx's macro \<open>ngx_conf_merge_value (conf, prev, default)\<close>, as the function
  from the three values to the child's new value.
\<close>

definition ngx_http_rn_merge_loc_conf ::
  "(bool option \<Rightarrow> bool option \<Rightarrow> bool \<Rightarrow> bool option) \<Rightarrow> rn_loc_conf_t \<Rightarrow> rn_loc_conf_t \<Rightarrow> rn_loc_conf_t" where
  "ngx_http_rn_merge_loc_conf merge_value prev conf0 =
     (let
        conf = conf0\<lparr>enabled := merge_value (enabled conf0) (enabled prev) False\<rparr>;
        conf = (if rules conf = None then conf\<lparr>rules := rules prev\<rparr> else conf);
        conf = (if \<not> report_set conf \<and> report_set prev
          then conf\<lparr>report_set := True, report_enabled := report_enabled prev,
            report_tracker_name := report_tracker_name prev\<rparr>
          else conf)
      in if \<not> label_set conf \<and> label_set prev
         then conf\<lparr>label_template := label_template prev, label_cv := label_cv prev,
           label_set := label_set prev\<rparr>
         else conf)"

definition ngx_http_rn_merge_srv_conf ::
  "(bool option \<Rightarrow> bool option \<Rightarrow> bool \<Rightarrow> bool option) \<Rightarrow> rn_srv_conf_t \<Rightarrow> rn_srv_conf_t \<Rightarrow> rn_srv_conf_t" where
  "ngx_http_rn_merge_srv_conf merge_value prev conf0 =
     (let
        conf = conf0\<lparr>enabled := merge_value (enabled conf0) (enabled prev) False\<rparr>;
        conf = (if rules conf = None then conf\<lparr>rules := rules prev\<rparr> else conf);
        conf = (if \<not> report_set conf \<and> report_set prev
          then conf\<lparr>report_set := True, report_enabled := report_enabled prev,
            report_tracker_name := report_tracker_name prev\<rparr>
          else conf)
      in if \<not> label_set conf \<and> label_set prev
         then conf\<lparr>label_template := label_template prev, label_cv := label_cv prev,
           label_set := label_set prev\<rparr>
         else conf)"

end
