(* ===== verification/Policy_Args.thy ===== *)
theory Policy_Args
  imports Policy "HOL-Library.Multiset"
begin

text \<open>
  What \<open>ngx_http_rn_set_policy\<close> accepts.  Each accepted argument sets one field of the policy;
  the argument loop is characterised as the application of these field updates, from which
  follow the shape of every accepted policy and the independence of the argument order.
\<close>

subsection \<open>One argument sets one field\<close>

datatype policy_field =
    Unit u32
  | Replays u32
  | Replay_gap r_ha_schedule_t
  | Final_wait u32
  | Completion bool

definition arg_field ::
  "(string \<Rightarrow> u64) \<Rightarrow> u32 \<Rightarrow> rn_policy_kind_t \<Rightarrow> string \<Rightarrow> policy_field option" where
  "arg_field parse_time max_replays kind arg =
     (if named_arg arg ''unit='' then
        map_option Unit (rn_parse_protocol_duration_ms parse_time (drop 5 arg))
      else if kind \<noteq> RN_POLICY_CUSTOM then None
      else if named_arg arg ''replays='' then
        (case parse_u32_loop 0 (drop 8 arg) of
           None \<Rightarrow> None
         | Some n \<Rightarrow> if drop 8 arg = [] \<or> n > max_replays then None else Some (Replays n))
      else if named_arg arg ''replay_gap='' then
        (case rn_parse_policy_schedule (drop 11 arg) of
           None \<Rightarrow> None
         | Some s \<Rightarrow> if initial_units s = 0 then None else Some (Replay_gap s))
      else if named_arg arg ''final_wait_units='' then
        (case parse_u32_loop 0 (drop 17 arg) of
           None \<Rightarrow> None
         | Some n \<Rightarrow> if drop 17 arg = [] then None else Some (Final_wait n))
      else if named_arg arg ''completion_delivery='' then
        (if ngx_str_eq (drop 20 arg) ''on'' then Some (Completion True)
         else if ngx_str_eq (drop 20 arg) ''off'' then Some (Completion False)
         else None)
      else None)"

fun slot :: "policy_field \<Rightarrow> nat" where
  "slot (Unit _) = 0"
| "slot (Replays _) = 1"
| "slot (Replay_gap _) = 2"
| "slot (Final_wait _) = 3"
| "slot (Completion _) = 4"

fun field_set :: "policy_args \<Rightarrow> nat \<Rightarrow> bool" where
  "field_set st n =
     (if n = 0 then unit_set st else if n = 1 then replays_set st
      else if n = 2 then replay_gap_set st else if n = 3 then final_wait_set st
      else completion_delivery_set st)"

fun set_field :: "policy_field \<Rightarrow> policy_args \<Rightarrow> policy_args" where
  "set_field (Unit n) st = st\<lparr>policy := (policy st)\<lparr>unit_ms := ucast n\<rparr>, unit_set := True\<rparr>"
| "set_field (Replays n) st = st\<lparr>policy := (policy st)\<lparr>replay_count := n\<rparr>, replays_set := True\<rparr>"
| "set_field (Replay_gap s) st = st\<lparr>policy := (policy st)\<lparr>replay_gap := s\<rparr>, replay_gap_set := True\<rparr>"
| "set_field (Final_wait n) st =
     st\<lparr>policy := (policy st)\<lparr>final_receive_units := n\<rparr>, final_wait_set := True\<rparr>"
| "set_field (Completion b) st =
     st\<lparr>policy := (policy st)\<lparr>completion_delivery := b\<rparr>, completion_delivery_set := True\<rparr>"

lemma policy_arg_Inr:
  "policy_arg parse_time max_replays kind st arg = Inr st' \<longleftrightarrow>
    (\<exists>f. arg_field parse_time max_replays kind arg = Some f
       \<and> \<not> field_set st (slot f) \<and> st' = set_field f st)"
proof (cases "named_arg arg ''unit=''")
  case True
  then show ?thesis
    by (auto simp: policy_arg_def arg_field_def split: option.splits)
next
  case no_unit: False
  show ?thesis
  proof (cases "kind = RN_POLICY_CUSTOM")
    case False
    with no_unit show ?thesis by (simp add: policy_arg_def arg_field_def)
  next
    case True
    consider "named_arg arg ''replays=''"
      | "\<not> named_arg arg ''replays=''" "named_arg arg ''replay_gap=''"
      | "\<not> named_arg arg ''replays=''" "\<not> named_arg arg ''replay_gap=''"
        "named_arg arg ''final_wait_units=''"
      | "\<not> named_arg arg ''replays=''" "\<not> named_arg arg ''replay_gap=''"
        "\<not> named_arg arg ''final_wait_units=''" by blast
    then show ?thesis
    proof cases
      case 1
      with no_unit True show ?thesis
        by (auto simp: policy_arg_def arg_field_def rn_numeric_parse_u32_Some split: option.splits)
    next
      case 2
      with no_unit True show ?thesis
        by (auto simp: policy_arg_def arg_field_def split: option.splits)
    next
      case 3
      with no_unit True show ?thesis
        by (auto simp: policy_arg_def arg_field_def rn_numeric_parse_u32_Some split: option.splits)
    next
      case 4
      with no_unit True show ?thesis
        by (auto simp: policy_arg_def arg_field_def)
    qed
  qed
qed

lemma field_set_set_field:
  "field_set (set_field f st) (slot g) \<longleftrightarrow> slot g = slot f \<or> field_set st (slot g)"
  by (cases f; cases g) auto

lemma set_field_commute:
  "slot f \<noteq> slot g \<Longrightarrow> set_field f (set_field g st) = set_field g (set_field f st)"
  by (cases f; cases g) auto

subsection \<open>The argument loop\<close>

lemma policy_arg_loop_Inr:
  "policy_arg_loop parse_time max_replays kind st args = Inr st' \<longleftrightarrow>
    (\<exists>fs. map (arg_field parse_time max_replays kind) args = map Some fs
       \<and> distinct (map slot fs) \<and> (\<forall>f \<in> set fs. \<not> field_set st (slot f))
       \<and> st' = fold set_field fs st)"
proof (induction args arbitrary: st)
  case Nil
  then show ?case by auto
next
  case (Cons arg args)
  show ?case
  proof
    assume "policy_arg_loop parse_time max_replays kind st (arg # args) = Inr st'"
    then obtain s1 where s1: "policy_arg parse_time max_replays kind st arg = Inr s1"
      and "policy_arg_loop parse_time max_replays kind s1 args = Inr st'"
      by (auto split: sum.splits)
    then obtain f fs where f: "arg_field parse_time max_replays kind arg = Some f"
      "\<not> field_set st (slot f)" "s1 = set_field f st"
      and fs: "map (arg_field parse_time max_replays kind) args = map Some fs"
      "distinct (map slot fs)" "\<forall>g \<in> set fs. \<not> field_set s1 (slot g)" "st' = fold set_field fs s1"
      unfolding policy_arg_Inr Cons.IH by blast
    then show "\<exists>fs. map (arg_field parse_time max_replays kind) (arg # args) = map Some fs
       \<and> distinct (map slot fs) \<and> (\<forall>f \<in> set fs. \<not> field_set st (slot f))
       \<and> st' = fold set_field fs st"
      by (intro exI [of _ "f # fs"]) (auto simp: field_set_set_field simp del: field_set.simps)
  next
    assume "\<exists>fs. map (arg_field parse_time max_replays kind) (arg # args) = map Some fs
       \<and> distinct (map slot fs) \<and> (\<forall>f \<in> set fs. \<not> field_set st (slot f))
       \<and> st' = fold set_field fs st"
    then obtain f fs where f: "arg_field parse_time max_replays kind arg = Some f"
      "\<not> field_set st (slot f)" and fs: "map (arg_field parse_time max_replays kind) args = map Some fs"
      "slot f \<notin> slot ` set fs" "distinct (map slot fs)" "\<forall>g \<in> set fs. \<not> field_set st (slot g)"
      "st' = fold set_field fs (set_field f st)"
      by (auto simp: Cons_eq_map_conv simp del: field_set.simps)
    then have "policy_arg parse_time max_replays kind st arg = Inr (set_field f st)"
      unfolding policy_arg_Inr by blast
    moreover have "policy_arg_loop parse_time max_replays kind (set_field f st) args = Inr st'"
      unfolding Cons.IH using fs
      by (intro exI [of _ fs]) (simp add: field_set_set_field image_iff del: field_set.simps, metis)
    ultimately show "policy_arg_loop parse_time max_replays kind st (arg # args) = Inr st'"
      by simp
  qed
qed

lemma fold_set_field_permute:
  assumes "distinct (map slot fs)" and "mset fs = mset gs"
  shows "fold set_field fs st = fold set_field gs st"
proof -
  have "set_field x \<circ> set_field y = set_field y \<circ> set_field x" if "x \<in> set fs" "y \<in> set fs" for x y
  proof (cases "x = y")
    case False
    with assms(1) that have "slot x \<noteq> slot y"
      by (auto simp: distinct_map dest: inj_onD)
    then show ?thesis by (auto simp: set_field_commute)
  qed simp
  then have "fold set_field fs = fold set_field gs"
    using assms(2) by (intro fold_multiset_equiv) auto
  then show ?thesis by simp
qed

lemma policy_arg_loop_permute:
  assumes "mset args = mset args'"
    and "policy_arg_loop parse_time max_replays kind st args = Inr st'"
  shows "policy_arg_loop parse_time max_replays kind st args' = Inr st'"
proof -
  let ?F = "arg_field parse_time max_replays kind"
  obtain fs where fs: "map ?F args = map Some fs" "distinct (map slot fs)"
    "\<forall>f \<in> set fs. \<not> field_set st (slot f)" "st' = fold set_field fs st"
    using assms(2) unfolding policy_arg_loop_Inr by blast
  let ?gs = "map (the \<circ> ?F) args'"
  have some: "?F a \<noteq> None" if "a \<in> set args" for a
    using that fs(1) by (metis (no_types, lifting) ex_map_conv image_eqI image_iff list.set_map option.distinct(1))
  have fs_eq: "fs = map (the \<circ> ?F) args"
    using arg_cong [OF fs(1), of "map the"] by (simp add: comp_def)
  have "set args' = set args" using assms(1) mset_eq_setD by metis
  then have "map ?F args' = map Some ?gs" using some by auto
  moreover have perm: "mset fs = mset ?gs" using assms(1) by (simp add: fs_eq)
  moreover from perm have "mset (map slot fs) = mset (map slot ?gs)" by (metis mset_map)
  then have "distinct (map slot ?gs)" using fs(2) by (metis mset_eq_imp_distinct_iff)
  moreover have "\<forall>f \<in> set ?gs. \<not> field_set st (slot f)"
    using fs(3) perm by (metis mset_eq_setD)
  moreover have "st' = fold set_field ?gs st"
    using fold_set_field_permute [OF fs(2) perm] fs(4) by simp
  ultimately show ?thesis unfolding policy_arg_loop_Inr by blast
qed

lemma policy_parse_permute:
  assumes "mset args = mset args'"
    and "policy_parse parse_time max_replays default_policy name args = Inr r"
  shows "policy_parse parse_time max_replays default_policy name args' = Inr r"
  using assms(2)
  by (auto simp: policy_parse_def dest: policy_arg_loop_permute [OF assms(1)]
      split: option.splits sum.splits prod.splits if_splits)

text \<open>
  C37. The arguments of \<open>ratelimitly_policy\<close> may appear in any order: a permutation of an
  accepted argument list is accepted with the same policy.
\<close>

theorem policy_args_any_order:
  assumes "mset args = mset args'"
  shows "policy_parse parse_time max_replays default_policy name args = Inr r \<longleftrightarrow>
    policy_parse parse_time max_replays default_policy name args' = Inr r"
  using policy_parse_permute [OF assms] policy_parse_permute [OF assms [symmetric]] by blast

subsection \<open>The accepted policies\<close>

lemma field_set_fold:
  "field_set (fold set_field fs st) (slot g) \<longleftrightarrow> slot g \<in> slot ` set fs \<or> field_set st (slot g)"
  by (induction fs arbitrary: st) (auto simp: field_set_set_field simp del: field_set.simps)

lemma named_policy_fields:
  assumes "kind \<noteq> RN_POLICY_CUSTOM"
    and "map (arg_field parse_time max_replays kind) args = map Some fs" and "distinct (map slot fs)"
  shows "fs = [] \<or> (\<exists>u. fs = [Unit u])"
proof -
  have unit: "\<exists>u. f = Unit u" if "f \<in> set fs" for f
  proof -
    from that have "Some f \<in> set (map Some fs)" by simp
    then obtain a where "arg_field parse_time max_replays kind a = Some f"
      unfolding assms(2) [symmetric] by auto
    then show ?thesis using assms(1) by (auto simp: arg_field_def split: if_splits)
  qed
  show ?thesis
  proof (cases fs)
    case (Cons f rest)
    moreover have "rest = []"
    proof (cases rest)
      case (Cons g rest')
      then obtain u v where "f = Unit u" "g = Unit v"
        using unit [of f] unit [of g] \<open>fs = f # rest\<close> by auto
      then show ?thesis using assms(3) Cons \<open>fs = f # rest\<close> by simp
    qed simp
    ultimately show ?thesis using unit [of f] by auto
  qed simp
qed

lemma custom_policy_fields:
  assumes "distinct (map slot fs)" and "\<And>g. slot g \<in> slot ` set fs"
  shows "\<exists>u n s w b. mset fs = {#Unit u, Replays n, Replay_gap s, Final_wait w, Completion b#}"
proof -
  have "\<exists>f \<in> set fs. slot f = slot g" for g using assms(2) [of g] by (metis imageE)
  note ex = this [of "Unit 0"] this [of "Replays 0"] this [of "Replay_gap zero_schedule"]
    this [of "Final_wait 0"] this [of "Completion True"]
  obtain u where u: "Unit u \<in> set fs" using ex(1) by (elim bexE) (rename_tac f, case_tac f, auto)
  obtain n where n: "Replays n \<in> set fs" using ex(2) by (elim bexE) (rename_tac f, case_tac f, auto)
  obtain s where s: "Replay_gap s \<in> set fs" using ex(3) by (elim bexE) (rename_tac f, case_tac f, auto)
  obtain w where w: "Final_wait w \<in> set fs" using ex(4) by (elim bexE) (rename_tac f, case_tac f, auto)
  obtain b where b: "Completion b \<in> set fs" using ex(5) by (elim bexE) (rename_tac f, case_tac f, auto)
  let ?l = "[Unit u, Replays n, Replay_gap s, Final_wait w, Completion b]"
  have inj: "inj_on slot (set fs)" and dist: "distinct fs"
    using assms(1) by (simp_all add: distinct_map)
  have "f \<in> set ?l" if f: "f \<in> set fs" for f
    using u n s w b inj_onD [OF inj _ f] by (cases f) (force+)
  then have "set fs = set ?l" using u n s w b by auto
  then have "mset fs = mset ?l" using dist by (subst set_eq_iff_mset_eq_distinct [symmetric]) auto
  then have "mset fs = {#Unit u, Replays n, Replay_gap s, Final_wait w, Completion b#}" by simp
  then show ?thesis by blast
qed

text \<open>The flags and the policy the loop starts from.\<close>

abbreviation start_args :: "r_request_policy_t \<Rightarrow> policy_args" where
  "start_args p \<equiv> \<lparr>policy = p, unit_set = False, replays_set = False, replay_gap_set = False,
     final_wait_set = False, completion_delivery_set = False\<rparr>"

lemma start_args_clear: "\<not> field_set (start_args p) n"
  by simp

lemma policy_parse_Inr:
  assumes "policy_parse parse_time max_replays default_policy name args = Inr (p, kind)"
  obtains start fs where "policy_start default_policy name = Some (kind, start)"
    and "map (arg_field parse_time max_replays kind) args = map Some fs"
    and "distinct (map slot fs)" and "p = policy (fold set_field fs (start_args start))"
    and "kind = RN_POLICY_CUSTOM \<longrightarrow> (\<forall>g. slot g \<in> slot ` set fs)"
proof -
  obtain start st where start: "policy_start default_policy name = Some (kind, start)"
    and loop: "policy_arg_loop parse_time max_replays kind (start_args start) args = Inr st"
    and p: "p = policy st"
    and all: "kind = RN_POLICY_CUSTOM \<Longrightarrow> unit_set st \<and> replays_set st \<and> replay_gap_set st
      \<and> final_wait_set st \<and> completion_delivery_set st"
    using assms
    by (auto simp: policy_parse_def split: option.splits sum.splits if_splits)
  from loop obtain fs where fs: "map (arg_field parse_time max_replays kind) args = map Some fs"
    "distinct (map slot fs)" "st = fold set_field fs (start_args start)"
    unfolding policy_arg_loop_Inr by blast
  have "slot g \<in> slot ` set fs" if "kind = RN_POLICY_CUSTOM" for g
  proof -
    have "field_set st (slot g)" using all [OF that] by (cases g) auto
    then show ?thesis
      using field_set_fold [of fs "start_args start" g] start_args_clear by (simp add: fs(3))
  qed
  with start fs p show ?thesis by (intro that) auto
qed

lemma policy_start_name:
  "policy_start default_policy name = Some (RN_POLICY_STANDARD, start) \<Longrightarrow>
     name = ''standard'' \<and> start = default_policy"
  "policy_start default_policy name = Some (RN_POLICY_SINGLE_ROUND, start) \<Longrightarrow>
     name = ''single_round'' \<and> start = default_policy\<lparr>replay_count := 0,
       final_receive_units := 0, completion_delivery := False\<rparr>"
  "policy_start default_policy name = Some (RN_POLICY_CUSTOM, start) \<Longrightarrow>
     name = ''custom'' \<and> start = zero_policy"
  by (auto simp: policy_start_def ngx_str_eq_nul_free split: if_splits)

lemma custom_policy_value:
  assumes "mset fs = {#Unit u, Replays n, Replay_gap s, Final_wait w, Completion b#}"
    and "distinct (map slot fs)"
  shows "policy (fold set_field fs (start_args q)) =
    \<lparr>unit_ms = ucast u, replay_count = n, replay_gap = s, final_receive_units = w,
      completion_delivery = b\<rparr>"
proof -
  have "mset fs = mset [Unit u, Replays n, Replay_gap s, Final_wait w, Completion b]"
    using assms(1) by simp
  from fold_set_field_permute [OF assms(2) this] show ?thesis by simp
qed

text \<open>
  C36. Every policy that \<open>ratelimitly_policy\<close> accepts is well-formed and its horizon fits the
  32-bit wire field; \<open>standard\<close> is the client's default with at most its unit changed,
  \<open>single_round\<close> additionally has no replay, no final interval and no completion delivery,
  and \<open>custom\<close> takes exactly its five arguments, each of which sets its field.
\<close>

theorem policy_accepted:
  assumes "policy_parse parse_time max_replays default_policy name args = Inr (p, kind)"
  shows "policy_ok max_replays p \<and> unat (unit_ms p) * horizon_units p \<le> 4294967295
    \<and> (case kind of
         RN_POLICY_STANDARD \<Rightarrow> name = ''standard'' \<and> p = default_policy\<lparr>unit_ms := unit_ms p\<rparr>
       | RN_POLICY_SINGLE_ROUND \<Rightarrow> name = ''single_round'' \<and>
           p = default_policy\<lparr>unit_ms := unit_ms p, replay_count := 0, final_receive_units := 0,
             completion_delivery := False\<rparr>
       | RN_POLICY_CUSTOM \<Rightarrow> name = ''custom'' \<and>
           (\<exists>u n s w b. mset (map (arg_field parse_time max_replays kind) args) =
                {#Some (Unit u), Some (Replays n), Some (Replay_gap s), Some (Final_wait w),
                  Some (Completion b)#}
              \<and> p = \<lparr>unit_ms = ucast u, replay_count = n, replay_gap = s,
                  final_receive_units = w, completion_delivery = b\<rparr>))"
proof -
  obtain start fs where start: "policy_start default_policy name = Some (kind, start)"
    and fs: "map (arg_field parse_time max_replays kind) args = map Some fs"
    "distinct (map slot fs)" and p: "p = policy (fold set_field fs (start_args start))"
    and all: "kind = RN_POLICY_CUSTOM \<longrightarrow> (\<forall>g. slot g \<in> slot ` set fs)"
    using assms by (rule policy_parse_Inr)
  note horizon = policy_parse_horizon [OF assms]
  show ?thesis
  proof (cases kind)
    case RN_POLICY_STANDARD
    then have "fs = [] \<or> (\<exists>u. fs = [Unit u])" using fs by (intro named_policy_fields) auto
    then show ?thesis
      using horizon RN_POLICY_STANDARD policy_start_name(1) [OF start [unfolded RN_POLICY_STANDARD]] p
      by auto
  next
    case RN_POLICY_SINGLE_ROUND
    then have "fs = [] \<or> (\<exists>u. fs = [Unit u])" using fs by (intro named_policy_fields) auto
    then show ?thesis
      using horizon RN_POLICY_SINGLE_ROUND
        policy_start_name(2) [OF start [unfolded RN_POLICY_SINGLE_ROUND]] p
      by auto
  next
    case RN_POLICY_CUSTOM
    obtain u n s w b where m: "mset fs = {#Unit u, Replays n, Replay_gap s, Final_wait w, Completion b#}"
      using custom_policy_fields [OF fs(2)] all RN_POLICY_CUSTOM by blast
    have "mset (map (arg_field parse_time max_replays kind) args) = image_mset Some (mset fs)"
      by (simp only: fs(1) mset_map)
    then have "mset (map (arg_field parse_time max_replays kind) args) =
        {#Some (Unit u), Some (Replays n), Some (Replay_gap s), Some (Final_wait w), Some (Completion b)#}"
      by (simp add: m)
    moreover have "p = \<lparr>unit_ms = ucast u, replay_count = n, replay_gap = s,
        final_receive_units = w, completion_delivery = b\<rparr>"
      using custom_policy_value [OF m fs(2)] p by simp
    moreover have "name = ''custom''"
      using policy_start_name(3) [OF start [unfolded RN_POLICY_CUSTOM]] by simp
    ultimately show ?thesis using horizon RN_POLICY_CUSTOM by auto
  qed
qed

subsection \<open>A sample\<close>

text \<open>The client's documented default policy and an accepted custom one.\<close>

definition sample_policy :: r_request_policy_t where
  "sample_policy = \<lparr>unit_ms = 20, replay_count = 1,
     replay_gap = \<lparr>schedule_kind = R_HA_SCHEDULE_FIXED, initial_units = 1, max_units = 1, growth = 0\<rparr>,
     final_receive_units = 1, completion_delivery = True\<rparr>"

definition sample_args :: "string list" where
  "sample_args = [''unit=20ms'', ''replays=2'', ''replay_gap=fixed:1'', ''final_wait_units=0'',
     ''completion_delivery=on'']"

definition sample_accepted :: r_request_policy_t where
  "sample_accepted = \<lparr>unit_ms = 20, replay_count = 2,
     replay_gap = \<lparr>schedule_kind = R_HA_SCHEDULE_FIXED, initial_units = 1, max_units = 1, growth = 0\<rparr>,
     final_receive_units = 0, completion_delivery = True\<rparr>"

lemma sample_parses: "policy_parse (\<lambda>_. 20) 65535 sample_policy ''custom'' sample_args =
  Inr (sample_accepted, RN_POLICY_CUSTOM)"
  by code_simp

lemma policy_args_any_order_witness:
  "policy_parse (\<lambda>_. 20) 65535 sample_policy ''custom'' (rev sample_args) =
     Inr (sample_accepted, RN_POLICY_CUSTOM)"
  using policy_args_any_order [of "rev sample_args" sample_args] sample_parses by simp

lemma policy_accepted_witness:
  "unat (unit_ms sample_accepted) * horizon_units sample_accepted \<le> 4294967295"
  using policy_accepted [OF sample_parses] by blast

end
