(* ===== verification/Config_Load.thy ===== *)
theory Config_Load
  imports Config Policy_Args
begin

text \<open>
  The directive table of the module as one step function over the configuration being loaded,
  the invariant of a configuration that loaded without an error (names are unique, every
  reference resolves, limits hold), and inheritance between server and location.
\<close>

subsection \<open>The command table\<close>

text \<open>
  One constructor per entry of \<open>ngx_http_rn_commands\<close>, with the arguments nginx's count check
  admits; \<open>nat\<close> names the server or location block of the directive.  \<open>ratelimitly_resolver\<close>
  is an alias of \<open>ratelimitly_dns_resolver\<close>.
\<close>

datatype directive =
    Ratelimitly_dns_srv string
  | Ratelimitly_dns_resolver string "string list"
  | Ratelimitly_auth_key string
  | Ratelimitly_policy string "string list"
  | Ratelimitly_fail string
  | Ratelimitly_bind string
  | Ratelimitly_debug string
  | Ratelimitly_zone string string string
  | Ratelimitly_tracker string string "string list"
  | Ratelimitly_guard string string string
  | Ratelimitly_group string string "string list"
  | Ratelimitly_label nat string
  | Ratelimitly_report nat string
  | Ratelimitly nat string "string list"

record conf_state =
  main :: rn_main_conf_t
  locs :: "nat \<Rightarrow> rn_loc_conf_t"

definition on_main :: "conf_result \<times> rn_main_conf_t \<Rightarrow> conf_state \<Rightarrow> conf_result \<times> conf_state" where
  "on_main r st = (fst r, st\<lparr>main := snd r\<rparr>)"

definition on_loc :: "nat \<Rightarrow> conf_result \<times> rn_loc_conf_t \<times> rn_main_conf_t \<Rightarrow> conf_state
    \<Rightarrow> conf_result \<times> conf_state" where
  "on_loc l r st = (fst r, st\<lparr>main := snd (snd r), locs := (locs st)(l := fst (snd r))\<rparr>)"

fun run_directive :: "conf_env \<Rightarrow> directive \<Rightarrow> conf_state \<Rightarrow> conf_result \<times> conf_state" where
  "run_directive env (Ratelimitly_dns_srv v) st = on_main (ngx_http_rn_set_dns_srv v (main st)) st"
| "run_directive env (Ratelimitly_dns_resolver v vs) st =
     on_main (ngx_http_rn_set_dns_resolver env (v # vs) (main st)) st"
| "run_directive env (Ratelimitly_auth_key v) st =
     on_main (ngx_http_rn_set_auth_key env v (main st)) st"
| "run_directive env (Ratelimitly_policy v vs) st =
     on_main (ngx_http_rn_set_policy env v vs (main st)) st"
| "run_directive env (Ratelimitly_fail v) st = on_main (ngx_http_rn_set_fail v (main st)) st"
| "run_directive env (Ratelimitly_bind v) st = on_main (ngx_http_rn_set_bind env v (main st)) st"
| "run_directive env (Ratelimitly_debug v) st = on_main (ngx_http_rn_set_debug v (main st)) st"
| "run_directive env (Ratelimitly_zone n v w) st =
     on_main (ngx_http_rn_zone env n [v, w] (main st)) st"
| "run_directive env (Ratelimitly_tracker n v vs) st =
     on_main (ngx_http_rn_tracker env n (v # vs) (main st)) st"
| "run_directive env (Ratelimitly_guard n v w) st =
     on_main (ngx_http_rn_guard env n [v, w] (main st)) st"
| "run_directive env (Ratelimitly_group n v vs) st =
     on_main (ngx_http_rn_group env n (v # vs) (main st)) st"
| "run_directive env (Ratelimitly_label l v) st =
     (case ngx_http_rn_label env v (locs st l) of
        (result, lcf) \<Rightarrow> (result, st\<lparr>locs := (locs st)(l := lcf)\<rparr>))"
| "run_directive env (Ratelimitly_report l v) st =
     on_loc l (ngx_http_rn_report v (locs st l) (main st)) st"
| "run_directive env (Ratelimitly l v vs) st =
     on_loc l (ngx_http_rn_rule env (v # vs) (locs st l) (main st)) st"

text \<open>nginx abandons the configuration at the first directive that does not return \<open>NGX_CONF_OK\<close>.\<close>

definition conf_step :: "(nat \<Rightarrow> conf_env) \<Rightarrow> nat \<times> directive \<Rightarrow> conf_state \<Rightarrow> conf_state option" where
  "conf_step env d st =
     (case run_directive (env (fst d)) (snd d) st of
        (result, st') \<Rightarrow> if result = NGX_CONF_OK then Some st' else None)"

subsection \<open>The invariant\<close>

definition rule_resolves :: "rn_main_conf_t \<Rightarrow> rn_rule_ref_t \<Rightarrow> bool" where
  "rule_resolves mcf r \<longleftrightarrow>
     (case rule_kind r of
        RN_RULE_ZONE \<Rightarrow> rn_find_zone mcf (rule_name r) \<noteq> None
      | RN_RULE_GROUP \<Rightarrow> rn_find_group mcf (rule_name r) \<noteq> None
      | RN_RULE_GUARD_ONLY \<Rightarrow> rule_guards r \<noteq> [])
     \<and> (\<forall>g \<in> set (rule_guards r). rn_find_guard mcf g \<noteq> None)"

definition zone_wf :: "rn_zone_t \<Rightarrow> bool" where
  "zone_wf z \<longleftrightarrow> \<not> bad_name (zone_name z) \<and> bucket_template z \<noteq> [] \<and> rate_template z \<noteq> []
     \<and> bucket_cv z = Compiled (bucket_template z) \<and> rate_cv z = Compiled (rate_template z)"

definition tracker_wf :: "rn_tracker_t \<Rightarrow> bool" where
  "tracker_wf t \<longleftrightarrow> \<not> bad_name (tracker_name t) \<and> tracker_name t \<noteq> ''off''
     \<and> service_template t \<noteq> [] \<and> service_cv t = Compiled (service_template t)
     \<and> ttl_ms t \<noteq> 0 \<and> max_samples t \<noteq> 0"

definition guard_wf :: "rn_main_conf_t \<Rightarrow> rn_guard_t \<Rightarrow> bool" where
  "guard_wf mcf g \<longleftrightarrow> \<not> bad_name (guard_name g)
     \<and> threshold_cv g = Compiled (threshold_template g) \<and> threshold_template g \<noteq> []
     \<and> rn_find_tracker mcf (guard_tracker g) \<noteq> None"

definition group_wf :: "rn_main_conf_t \<Rightarrow> rn_group_t \<Rightarrow> bool" where
  "group_wf mcf g \<longleftrightarrow> \<not> bad_name (group_name g) \<and> group_zones g \<noteq> []
     \<and> (\<forall>z \<in> set (group_zones g). rn_find_zone mcf z \<noteq> None)"

definition main_wf :: "rn_main_conf_t \<Rightarrow> bool" where
  "main_wf mcf \<longleftrightarrow>
     zone_table.names_distinct (zones mcf) \<and> tracker_table.names_distinct (trackers mcf)
     \<and> guard_table.names_distinct (guards mcf) \<and> group_table.names_distinct (groups mcf)
     \<and> (\<forall>z \<in> set (zones mcf). zone_wf z) \<and> (\<forall>t \<in> set (trackers mcf). tracker_wf t)
     \<and> (\<forall>g \<in> set (guards mcf). guard_wf mcf g) \<and> (\<forall>g \<in> set (groups mcf). group_wf mcf g)"

definition loc_ready :: "rn_main_conf_t \<Rightarrow> rn_loc_conf_t \<Rightarrow> bool" where
  "loc_ready mcf lcf \<longleftrightarrow>
     (case rules lcf of
        None \<Rightarrow> enabled lcf \<noteq> Some True
      | Some rs \<Rightarrow> rs \<noteq> [] \<and> (\<forall>r \<in> set rs. rule_resolves mcf r)
          \<and> enabled lcf = Some True \<and> main_enabled mcf)
     \<and> (report_enabled lcf \<longrightarrow> report_set lcf \<and> main_enabled mcf
          \<and> rn_find_tracker mcf (report_tracker_name lcf) \<noteq> None)
     \<and> (label_set lcf \<longrightarrow> label_cv lcf = Compiled (label_template lcf))"

text \<open>Before inheritance, only a rule sets the \<open>enabled\<close> flag.\<close>

definition loc_wf :: "rn_main_conf_t \<Rightarrow> rn_loc_conf_t \<Rightarrow> bool" where
  "loc_wf mcf lcf \<longleftrightarrow> loc_ready mcf lcf \<and> (rules lcf = None \<longrightarrow> enabled lcf = None)"

definition conf_wf :: "conf_state \<Rightarrow> bool" where
  "conf_wf st \<longleftrightarrow> main_wf (main st) \<and> (\<forall>l. loc_wf (main st) (locs st l))"

text \<open>Later directives only append to the tables, so what resolved keeps resolving.\<close>

definition extends :: "rn_main_conf_t \<Rightarrow> rn_main_conf_t \<Rightarrow> bool" where
  "extends mcf mcf' \<longleftrightarrow>
     (\<exists>zs ts gs hs. zones mcf' = zones mcf @ zs \<and> trackers mcf' = trackers mcf @ ts
        \<and> guards mcf' = guards mcf @ gs \<and> groups mcf' = groups mcf @ hs)
     \<and> (main_enabled mcf \<longrightarrow> main_enabled mcf')"

lemma extends_zone: "extends m m' \<Longrightarrow> rn_find_zone m n \<noteq> None \<Longrightarrow> rn_find_zone m' n = rn_find_zone m n"
  by (auto simp: extends_def rn_find_zone_def zone_table.lookup_kept)

lemma extends_tracker:
  "extends m m' \<Longrightarrow> rn_find_tracker m n \<noteq> None \<Longrightarrow> rn_find_tracker m' n = rn_find_tracker m n"
  by (auto simp: extends_def rn_find_tracker_def tracker_table.lookup_kept)

lemma extends_guard: "extends m m' \<Longrightarrow> rn_find_guard m n \<noteq> None \<Longrightarrow> rn_find_guard m' n = rn_find_guard m n"
  by (auto simp: extends_def rn_find_guard_def guard_table.lookup_kept)

lemma extends_group: "extends m m' \<Longrightarrow> rn_find_group m n \<noteq> None \<Longrightarrow> rn_find_group m' n = rn_find_group m n"
  by (auto simp: extends_def rn_find_group_def group_table.lookup_kept)

lemma extends_rule: "extends m m' \<Longrightarrow> rule_resolves m r \<Longrightarrow> rule_resolves m' r"
  by (auto simp: rule_resolves_def extends_zone extends_group extends_guard
      split: rn_rule_kind_t.splits)

lemma extends_guard_wf: "extends m m' \<Longrightarrow> guard_wf m g \<Longrightarrow> guard_wf m' g"
  by (auto simp: guard_wf_def extends_tracker)

lemma extends_group_wf: "extends m m' \<Longrightarrow> group_wf m g \<Longrightarrow> group_wf m' g"
  by (auto simp: group_wf_def extends_zone)

lemma extends_enabled: "extends m m' \<Longrightarrow> main_enabled m \<Longrightarrow> main_enabled m'"
  by (simp add: extends_def)

lemma extends_loc: "extends m m' \<Longrightarrow> loc_wf m lcf \<Longrightarrow> loc_wf m' lcf"
  by (simp add: loc_wf_def loc_ready_def extends_tracker extends_rule extends_enabled split: option.splits)

subsection \<open>What each directive adds\<close>

lemma zone_adds:
  assumes "ngx_http_rn_zone env n args mcf = (NGX_CONF_OK, mcf')"
  obtains z where "mcf' = mcf\<lparr>zones := zones mcf @ [z]\<rparr>" and "zone_wf z" and "zone_name z = n"
    and "rn_find_zone mcf n = None"
  using assms
  by (auto simp: ngx_http_rn_zone_def Let_def zone_wf_def split: if_splits sum.splits prod.splits)

lemma tracker_arg_loop_wf:
  assumes "tracker_arg_loop env st args = Inr st'" and "ta_ttl_ms st \<noteq> 0 \<and> ta_max_samples st \<noteq> 0"
  shows "ta_ttl_ms st' \<noteq> 0 \<and> ta_max_samples st' \<noteq> 0"
proof -
  have duration: "ms \<noteq> 0" if "rn_parse_protocol_duration_ms pt s = Some ms" for pt s ms
    using that
    by (auto simp: rn_parse_protocol_duration_ms_def Let_def rn_numeric_u32_from_u64_Some
        word_unat_eq_iff unat_ucast_u32_u64 split: if_splits)
  have step: "ta_ttl_ms t \<noteq> 0 \<and> ta_max_samples t \<noteq> 0"
    if "tracker_arg env s v = Inr t" "ta_ttl_ms s \<noteq> 0 \<and> ta_max_samples s \<noteq> 0" for s v t
    using that by (auto simp: tracker_arg_def duration split: if_splits option.splits prod.splits)
  from assms show ?thesis
    by (induction args arbitrary: st) (auto split: sum.splits dest: step)
qed

lemma tracker_adds:
  assumes "ngx_http_rn_tracker env n args mcf = (NGX_CONF_OK, mcf')"
  obtains t where "mcf' = mcf\<lparr>trackers := trackers mcf @ [t]\<rparr>" and "tracker_wf t"
    and "tracker_name t = n" and "rn_find_tracker mcf n = None"
proof -
  obtain st where loop: "tracker_arg_loop env tracker_defaults args = Inr st"
    and rest: "\<not> bad_name n" "\<not> ngx_str_eq n ''off''" "ta_service st \<noteq> []"
      "rn_find_tracker mcf n = None"
    and mcf': "mcf' = mcf\<lparr>trackers := trackers mcf @ [\<lparr>tracker_name = n,
      service_template = ta_service st, service_cv = Compiled (ta_service st),
      ttl_ms = ta_ttl_ms st, max_samples = ta_max_samples st,
      min_sample_threshold = ta_min_sample_threshold st\<rparr>]\<rparr>"
    using assms by (auto simp: ngx_http_rn_tracker_def Let_def split: if_splits sum.splits)
  have "ta_ttl_ms st \<noteq> 0 \<and> ta_max_samples st \<noteq> 0"
    by (rule tracker_arg_loop_wf [OF loop]) (simp add: tracker_defaults_def)
  with rest mcf' show ?thesis
    by (intro that) (auto simp: tracker_wf_def ngx_str_eq_nul_free)
qed

lemma guard_adds:
  assumes "ngx_http_rn_guard env n args mcf = (NGX_CONF_OK, mcf')"
  obtains g where "mcf' = mcf\<lparr>guards := guards mcf @ [g]\<rparr>" and "guard_wf mcf g"
    and "guard_name g = n" and "rn_find_guard mcf n = None"
proof -
  obtain st where loop: "guard_arg_loop \<lparr>ga_tracker = [], ga_threshold = [], ga_tracker_set = False,
      ga_threshold_set = False\<rparr> args = Inr st"
    and rest: "\<not> bad_name n" "ga_threshold st \<noteq> []" "rn_find_tracker mcf (ga_tracker st) \<noteq> None"
      "rn_find_guard mcf n = None"
    and mcf': "mcf' = mcf\<lparr>guards := guards mcf @ [\<lparr>guard_name = n,
      guard_tracker = ga_tracker st, threshold_template = ga_threshold st,
      threshold_cv = Compiled (ga_threshold st)\<rparr>]\<rparr>"
    using assms by (auto simp: ngx_http_rn_guard_def Let_def split: if_splits sum.splits)
  from rest show ?thesis by (intro that [OF mcf']) (simp_all add: guard_wf_def)
qed

lemma group_args_ok:
  assumes "group_args env mcf vs acc = (NGX_CONF_OK, zs)"
    and "\<forall>z \<in> set acc. rn_find_zone mcf z \<noteq> None"
  shows "zs = acc @ map (drop 5) vs \<and> (\<forall>z \<in> set zs. rn_find_zone mcf z \<noteq> None)"
  using assms
proof (induction vs arbitrary: acc)
  case (Cons v vs)
  have found: "rn_find_zone mcf (drop 5 v) \<noteq> None"
    and rest: "group_args env mcf vs (acc @ [drop 5 v]) = (NGX_CONF_OK, zs)"
    using Cons.prems(1) by (simp_all add: Let_def split: if_split_asm)
  from Cons.prems(2) found have "\<forall>z \<in> set (acc @ [drop 5 v]). rn_find_zone mcf z \<noteq> None" by simp
  from Cons.IH [OF rest this] show ?case by simp
qed simp

lemma group_adds:
  assumes "ngx_http_rn_group env n args mcf = (NGX_CONF_OK, mcf')"
  obtains g where "mcf' = mcf\<lparr>groups := groups mcf @ [g]\<rparr>" and "group_wf mcf g"
    and "group_name g = n" and "rn_find_group mcf n = None"
proof -
  obtain zs where zs: "group_args env mcf args [] = (NGX_CONF_OK, zs)" "args \<noteq> []" "\<not> bad_name n"
    "rn_find_group mcf n = None"
    "mcf' = mcf\<lparr>groups := groups mcf @ [\<lparr>group_name = n, group_zones = zs\<rparr>]\<rparr>"
    using assms by (auto simp: ngx_http_rn_group_def Let_def split: if_splits prod.splits)
  with group_args_ok [OF zs(1)] show ?thesis
    by (intro that [OF zs(5)]) (auto simp: group_wf_def)
qed


lemma rule_arg_loop_guards:
  assumes "rule_arg_loop env mcf st vs = (NGX_CONF_OK, st')"
    and "\<forall>g \<in> set (ra_guards st). rn_find_guard mcf g \<noteq> None"
  shows "\<forall>g \<in> set (ra_guards st'). rn_find_guard mcf g \<noteq> None"
  using assms
proof (induction vs arbitrary: st)
  case (Cons v vs)
  consider st1 where "rule_arg_loop env mcf st1 vs = (NGX_CONF_OK, st')" "ra_guards st1 = ra_guards st"
    | st1 where "rule_arg_loop env mcf st1 vs = (NGX_CONF_OK, st')"
        "ra_guards st1 = ra_guards st @ [drop 6 v]" "rn_find_guard mcf (drop 6 v) \<noteq> None"
    using Cons.prems(1) by (force simp: Let_def split: if_split_asm)
  then show ?case
  proof cases
    case 1
    from Cons.IH [OF 1(1)] Cons.prems(2) 1(2) show ?thesis by simp
  next
    case 2
    from 2 Cons.prems(2) have "\<forall>g \<in> set (ra_guards st1). rn_find_guard mcf g \<noteq> None" by simp
    from Cons.IH [OF 2(1) this] show ?thesis .
  qed
qed simp

definition rules_of :: "rn_loc_conf_t \<Rightarrow> rn_rule_ref_t list" where
  "rules_of lcf = (case rules lcf of None \<Rightarrow> [] | Some rs \<Rightarrow> rs)"

lemma rule_adds:
  assumes "ngx_http_rn_rule env args lcf mcf = (NGX_CONF_OK, lcf', mcf')"
  obtains r where "lcf' = lcf\<lparr>rules := Some (rules_of lcf @ [r]), enabled := Some True\<rparr>"
    and "mcf' = mcf\<lparr>main_enabled := True\<rparr>" and "rule_resolves mcf r"
proof -
  define start where "start = \<lparr>ra_zone = [], ra_group = [], ra_zone_seen = False,
    ra_group_seen = False, ra_guards = []\<rparr>"
  obtain st where loop: "rule_arg_loop env mcf start args = (NGX_CONF_OK, st)"
    and some: "ra_zone_seen st \<or> ra_group_seen st \<or> ra_guards st \<noteq> []"
    and zone: "\<not> (ra_zone_seen st \<and> rn_find_zone mcf (ra_zone st) = None)"
    and group: "\<not> (\<not> ra_zone_seen st \<and> ra_group_seen st \<and> rn_find_group mcf (ra_group st) = None)"
    and lcf': "lcf' = lcf\<lparr>rules := Some (rules_of lcf @
      [(if ra_zone_seen st
        then \<lparr>rule_kind = RN_RULE_ZONE, rule_name = ra_zone st, rule_guards = []\<rparr>
        else if ra_group_seen st
        then \<lparr>rule_kind = RN_RULE_GROUP, rule_name = ra_group st, rule_guards = []\<rparr>
        else \<lparr>rule_kind = RN_RULE_GUARD_ONLY, rule_name = [], rule_guards = []\<rparr>)
          \<lparr>rule_guards := ra_guards st\<rparr>]), enabled := Some True\<rparr>"
    and mcf': "mcf' = mcf\<lparr>main_enabled := True\<rparr>"
    using assms
    unfolding ngx_http_rn_rule_def Let_def start_def rules_of_def
    by (simp split: if_split_asm prod.splits)
  have "\<forall>g \<in> set (ra_guards st). rn_find_guard mcf g \<noteq> None"
    by (rule rule_arg_loop_guards [OF loop]) (simp add: start_def)
  with some zone group show ?thesis
    by (intro that [OF lcf' mcf']) (auto simp: rule_resolves_def)
qed

lemma extends_refl_enabled: "extends mcf (mcf\<lparr>main_enabled := True\<rparr>)"
  by (simp add: extends_def)

lemma rule_loc_wf:
  assumes "ngx_http_rn_rule env args lcf mcf = (NGX_CONF_OK, lcf', mcf')" and "loc_wf mcf lcf"
  shows "loc_wf mcf' lcf'"
proof -
  obtain r where lcf': "lcf' = lcf\<lparr>rules := Some (rules_of lcf @ [r]), enabled := Some True\<rparr>"
    and mcf': "mcf' = mcf\<lparr>main_enabled := True\<rparr>" and r: "rule_resolves mcf r"
    using rule_adds [OF assms(1)] .
  have "extends mcf mcf'" by (simp add: mcf' extends_refl_enabled)
  from extends_loc [OF this assms(2)] extends_rule [OF this r] show ?thesis
    by (auto simp: loc_wf_def loc_ready_def lcf' mcf' rules_of_def split: option.splits)
qed

lemma report_adds:
  assumes "ngx_http_rn_report v lcf mcf = (NGX_CONF_OK, lcf', mcf')" and "loc_wf mcf lcf"
  shows "loc_wf mcf' lcf' \<and> extends mcf mcf' \<and> (mcf' = mcf \<or> mcf' = mcf\<lparr>main_enabled := True\<rparr>)"
proof -
  consider "lcf' = lcf\<lparr>report_set := True, report_enabled := False, report_tracker_name := []\<rparr>"
      "mcf' = mcf"
    | "lcf' = lcf\<lparr>report_set := True, report_enabled := True, report_tracker_name := v\<rparr>"
      "mcf' = mcf\<lparr>main_enabled := True\<rparr>" "rn_find_tracker mcf v \<noteq> None"
    using assms(1) by (auto simp: ngx_http_rn_report_def Let_def split: if_split_asm)
  then show ?thesis
  proof cases
    case 1
    with assms(2) show ?thesis by (simp add: loc_wf_def loc_ready_def extends_def split: option.splits)
  next
    case 2
    then have ext: "extends mcf mcf'" by (simp add: extends_refl_enabled)
    from extends_loc [OF ext assms(2)] extends_tracker [OF ext 2(3)] ext 2 show ?thesis
      by (simp add: loc_wf_def loc_ready_def split: option.splits)
  qed
qed

lemma label_adds:
  assumes "ngx_http_rn_label env v lcf = (NGX_CONF_OK, lcf')" and "loc_wf mcf lcf"
  shows "loc_wf mcf lcf'"
  using assms by (auto simp: ngx_http_rn_label_def loc_wf_def loc_ready_def split: if_split_asm option.splits)


subsection \<open>Every directive keeps the invariant\<close>

lemma main_wf_extends_tables:
  assumes "extends m m'" and "main_wf m"
  shows "(\<forall>g \<in> set (guards m). guard_wf m' g) \<and> (\<forall>g \<in> set (groups m). group_wf m' g)"
  using assms by (auto simp: main_wf_def intro: extends_guard_wf extends_group_wf)

lemma main_wf_same_tables:
  assumes "main_wf m" and "zones m' = zones m" "trackers m' = trackers m" "guards m' = guards m"
    "groups m' = groups m"
  shows "main_wf m'"
  using assms
  by (simp add: main_wf_def guard_wf_def group_wf_def rn_find_tracker_def rn_find_zone_def)

lemma main_wf_zone:
  assumes "ngx_http_rn_zone env n args m = (NGX_CONF_OK, m')" and wf: "main_wf m"
  shows "main_wf m' \<and> extends m m'"
proof -
  obtain z where m': "m' = m\<lparr>zones := zones m @ [z]\<rparr>" and z: "zone_wf z"
    "rn_find_zone m (zone_name z) = None"
    using zone_adds [OF assms(1)] by metis
  have ext: "extends m m'" by (simp add: extends_def m')
  from z wf have "zone_table.names_distinct (zones m @ [z])"
    by (intro zone_table.names_distinct_snoc) (simp_all add: rn_find_zone_def main_wf_def)
  with main_wf_extends_tables [OF ext wf] wf z ext show ?thesis by (auto simp: main_wf_def m')
qed

lemma main_wf_tracker:
  assumes "ngx_http_rn_tracker env n args m = (NGX_CONF_OK, m')" and wf: "main_wf m"
  shows "main_wf m' \<and> extends m m'"
proof -
  obtain t where m': "m' = m\<lparr>trackers := trackers m @ [t]\<rparr>" and t: "tracker_wf t"
    "rn_find_tracker m (tracker_name t) = None"
    using tracker_adds [OF assms(1)] by metis
  have ext: "extends m m'" by (simp add: extends_def m')
  from t wf have "tracker_table.names_distinct (trackers m @ [t])"
    by (intro tracker_table.names_distinct_snoc) (simp_all add: rn_find_tracker_def main_wf_def)
  with main_wf_extends_tables [OF ext wf] wf t ext show ?thesis by (auto simp: main_wf_def m')
qed

lemma main_wf_guard:
  assumes "ngx_http_rn_guard env n args m = (NGX_CONF_OK, m')" and wf: "main_wf m"
  shows "main_wf m' \<and> extends m m'"
proof -
  obtain g where m': "m' = m\<lparr>guards := guards m @ [g]\<rparr>" and g: "guard_wf m g"
    "rn_find_guard m (guard_name g) = None"
    using guard_adds [OF assms(1)] by metis
  have ext: "extends m m'" by (simp add: extends_def m')
  from g wf have "guard_table.names_distinct (guards m @ [g])"
    by (intro guard_table.names_distinct_snoc) (simp_all add: rn_find_guard_def main_wf_def)
  with main_wf_extends_tables [OF ext wf] wf extends_guard_wf [OF ext g(1)] ext show ?thesis
    by (auto simp: main_wf_def m')
qed

lemma main_wf_group:
  assumes "ngx_http_rn_group env n args m = (NGX_CONF_OK, m')" and wf: "main_wf m"
  shows "main_wf m' \<and> extends m m'"
proof -
  obtain g where m': "m' = m\<lparr>groups := groups m @ [g]\<rparr>" and g: "group_wf m g"
    "rn_find_group m (group_name g) = None"
    using group_adds [OF assms(1)] by metis
  have ext: "extends m m'" by (simp add: extends_def m')
  from g wf have "group_table.names_distinct (groups m @ [g])"
    by (intro group_table.names_distinct_snoc) (simp_all add: rn_find_group_def main_wf_def)
  with main_wf_extends_tables [OF ext wf] wf extends_group_wf [OF ext g(1)] ext show ?thesis
    by (auto simp: main_wf_def m')
qed

lemmas table_directives = main_wf_zone main_wf_tracker main_wf_guard main_wf_group

text \<open>The other main directives leave the four tables and the \<open>enabled\<close> flag alone.\<close>

definition same_tables :: "rn_main_conf_t \<Rightarrow> rn_main_conf_t \<Rightarrow> bool" where
  "same_tables m m' \<longleftrightarrow> zones m' = zones m \<and> trackers m' = trackers m \<and> guards m' = guards m
     \<and> groups m' = groups m \<and> main_enabled m' = main_enabled m"

lemma settings_same_tables:
  "same_tables m (snd (ngx_http_rn_set_dns_srv v m))"
  "same_tables m (snd (ngx_http_rn_set_dns_resolver env vs m))"
  "same_tables m (snd (ngx_http_rn_set_auth_key env v m))"
  "same_tables m (snd (ngx_http_rn_set_policy env v vs m))"
  "same_tables m (snd (ngx_http_rn_set_fail v m))"
  "same_tables m (snd (ngx_http_rn_set_bind env v m))"
  "same_tables m (snd (ngx_http_rn_set_debug v m))"
  by (auto simp: same_tables_def ngx_http_rn_set_dns_srv_def ngx_http_rn_set_dns_resolver_def
      ngx_http_rn_set_auth_key_def ngx_http_rn_set_policy_def ngx_http_rn_set_fail_def
      ngx_http_rn_set_bind_def ngx_http_rn_set_debug_def split: option.split sum.split prod.split)

lemma same_tables_wf: "same_tables m m' \<Longrightarrow> main_wf m \<Longrightarrow> main_wf m' \<and> extends m m'"
  by (auto simp: same_tables_def extends_def intro: main_wf_same_tables)

lemma conf_wf_main:
  assumes "conf_wf st" and "main_wf m' \<and> extends (main st) m'"
  shows "conf_wf (st\<lparr>main := m'\<rparr>)"
  using assms by (auto simp: conf_wf_def intro: extends_loc)

lemma conf_wf_loc:
  assumes "conf_wf st" and "extends (main st) m'" and "loc_wf m' lcf"
    and "m' = main st \<or> m' = (main st)\<lparr>main_enabled := True\<rparr>"
  shows "conf_wf (st\<lparr>main := m', locs := (locs st)(l := lcf)\<rparr>)"
proof -
  from assms(1,4) have "main_wf m'" by (auto simp: conf_wf_def intro: main_wf_same_tables)
  with assms show ?thesis by (auto simp: conf_wf_def intro: extends_loc)
qed

lemma table_directive_keeps:
  assumes "on_main r st = (NGX_CONF_OK, st')" and "conf_wf st"
    and "\<And>m'. r = (NGX_CONF_OK, m') \<Longrightarrow> main_wf m' \<and> extends (main st) m'"
  shows "conf_wf st'"
  using assms by (cases r) (auto simp: on_main_def intro: conf_wf_main)

lemma setting_directive_keeps:
  assumes "on_main r st = (NGX_CONF_OK, st')" and "conf_wf st" and "same_tables (main st) (snd r)"
  shows "conf_wf st'"
  using assms same_tables_wf [OF assms(3)] by (auto simp: on_main_def conf_wf_def intro: extends_loc)

lemma loc_directive_keeps:
  assumes "on_loc l r st = (NGX_CONF_OK, st')" and "conf_wf st"
    and "\<And>lcf m'. r = (NGX_CONF_OK, lcf, m') \<Longrightarrow> extends (main st) m' \<and> loc_wf m' lcf
      \<and> (m' = main st \<or> m' = (main st)\<lparr>main_enabled := True\<rparr>)"
  shows "conf_wf st'"
  using assms by (cases r) (auto simp: on_loc_def intro: conf_wf_loc)

lemma run_directive_keeps:
  assumes wf: "conf_wf st" and run: "run_directive env d st = (NGX_CONF_OK, st')"
  shows "conf_wf st'"
proof -
  have mw: "main_wf (main st)" and lw: "loc_wf (main st) (locs st l)" for l
    using wf by (simp_all add: conf_wf_def)
  note setting = setting_directive_keeps [OF _ wf] settings_same_tables
  note table = table_directive_keeps [OF _ wf]
  show ?thesis
  proof (cases d)
    case (Ratelimitly_zone n v w)
    with run show ?thesis by simp (erule table, erule main_wf_zone [OF _ mw])
  next
    case (Ratelimitly_tracker n v vs)
    with run show ?thesis by simp (erule table, erule main_wf_tracker [OF _ mw])
  next
    case (Ratelimitly_guard n v w)
    with run show ?thesis by simp (erule table, erule main_wf_guard [OF _ mw])
  next
    case (Ratelimitly_group n v vs)
    with run show ?thesis by simp (erule table, erule main_wf_group [OF _ mw])
  next
    case (Ratelimitly_label l v)
    then obtain lcf where label: "ngx_http_rn_label env v (locs st l) = (NGX_CONF_OK, lcf)"
      and st': "st' = st\<lparr>main := main st, locs := (locs st)(l := lcf)\<rparr>"
      using run by (auto split: prod.splits)
    show ?thesis unfolding st'
      by (intro conf_wf_loc [OF wf] label_adds [OF label lw]) (simp_all add: extends_def)
  next
    case (Ratelimitly_report l v)
    then have "on_loc l (ngx_http_rn_report v (locs st l) (main st)) st = (NGX_CONF_OK, st')"
      using run by simp
    from loc_directive_keeps [OF this wf] report_adds [OF _ lw] show ?thesis by blast
  next
    case (Ratelimitly l v vs)
    then have "on_loc l (ngx_http_rn_rule env (v # vs) (locs st l) (main st)) st = (NGX_CONF_OK, st')"
      using run by simp
    from loc_directive_keeps [OF this wf] show ?thesis
      using rule_loc_wf [OF _ lw] extends_refl_enabled by (blast elim: rule_adds)
  qed (use run setting in auto)
qed

lemma conf_step_keeps: "conf_wf st \<Longrightarrow> conf_step env d st = Some st' \<Longrightarrow> conf_wf st'"
  by (auto simp: conf_step_def split: prod.splits if_split_asm intro: run_directive_keeps)

interpretation conf_load: step_invariant "conf_step env" conf_wf
  by unfold_locales (rule conf_step_keeps)


subsection \<open>Loaded configurations\<close>

text \<open>
  The state in which nginx starts to read directives: the structures of the two create hooks.
\<close>

definition conf_start :: "conf_env \<Rightarrow> conf_state option" where
  "conf_start env =
     (case (ngx_http_rn_create_main_conf env, ngx_http_rn_create_loc_conf env) of
        (Some m, Some l) \<Rightarrow> Some \<lparr>main = m, locs = (\<lambda>_. l)\<rparr>
      | _ \<Rightarrow> None)"

definition load_conf :: "(nat \<Rightarrow> conf_env) \<Rightarrow> (nat \<times> directive) list \<Rightarrow> conf_state option" where
  "load_conf env ds =
     (case conf_start (env 0) of None \<Rightarrow> None | Some st \<Rightarrow> run_steps (conf_step env) ds st)"

lemma conf_start_wf: "conf_start env = Some st \<Longrightarrow> conf_wf st"
  by (auto simp: conf_start_def ngx_http_rn_create_main_conf_def ngx_http_rn_create_loc_conf_def
      conf_wf_def main_wf_def loc_wf_def loc_ready_def split: option.splits if_split_asm)

lemma load_conf_wf: "load_conf env ds = Some st \<Longrightarrow> conf_wf st"
  by (auto simp: load_conf_def split: option.splits
      intro: conf_load.run_keeps [OF conf_start_wf])

text \<open>
  The configuration a block uses: the one of the outermost block merged into each block on the
  way in.
\<close>

definition effective_conf ::
  "(bool option \<Rightarrow> bool option \<Rightarrow> bool \<Rightarrow> bool option) \<Rightarrow> rn_loc_conf_t \<Rightarrow> rn_loc_conf_t list \<Rightarrow> rn_loc_conf_t" where
  "effective_conf mv outer inner = foldl (ngx_http_rn_merge_loc_conf mv) outer inner"

text \<open>The contract of \<open>ngx_conf_merge_value\<close>: a set value wins over the parent's, then the default.\<close>

definition merge_contract :: "(bool option \<Rightarrow> bool option \<Rightarrow> bool \<Rightarrow> bool option) \<Rightarrow> bool" where
  "merge_contract mv \<longleftrightarrow>
     (\<forall>c p d. mv c p d = (if c \<noteq> None then c else if p \<noteq> None then p else Some d))"

lemma merge_fields:
  "rules (ngx_http_rn_merge_loc_conf mv prev conf) = (if rules conf = None then rules prev else rules conf)"
  "enabled (ngx_http_rn_merge_loc_conf mv prev conf) = mv (enabled conf) (enabled prev) False"
  "report_set (ngx_http_rn_merge_loc_conf mv prev conf) = (report_set conf \<or> report_set prev)"
  "report_enabled (ngx_http_rn_merge_loc_conf mv prev conf) =
     (if \<not> report_set conf \<and> report_set prev then report_enabled prev else report_enabled conf)"
  "report_tracker_name (ngx_http_rn_merge_loc_conf mv prev conf) =
     (if \<not> report_set conf \<and> report_set prev then report_tracker_name prev else report_tracker_name conf)"
  "label_set (ngx_http_rn_merge_loc_conf mv prev conf) = (label_set conf \<or> label_set prev)"
  "label_template (ngx_http_rn_merge_loc_conf mv prev conf) =
     (if \<not> label_set conf \<and> label_set prev then label_template prev else label_template conf)"
  "label_cv (ngx_http_rn_merge_loc_conf mv prev conf) =
     (if \<not> label_set conf \<and> label_set prev then label_cv prev else label_cv conf)"
  by (auto simp: ngx_http_rn_merge_loc_conf_def Let_def)

lemma merge_enabled:
  assumes "merge_contract mv"
  shows "enabled (ngx_http_rn_merge_loc_conf mv prev conf) =
    (case enabled conf of Some b \<Rightarrow> Some b
     | None \<Rightarrow> (case enabled prev of Some b \<Rightarrow> Some b | None \<Rightarrow> Some False))"
proof -
  have "mv (enabled conf) (enabled prev) False =
    (if enabled conf \<noteq> None then enabled conf else if enabled prev \<noteq> None then enabled prev else Some False)"
    using assms unfolding merge_contract_def by blast
  then show ?thesis by (simp add: merge_fields split: option.splits)
qed

lemma merge_loc_ready:
  assumes "merge_contract mv" and "loc_ready m prev" and "loc_wf m conf"
  shows "loc_ready m (ngx_http_rn_merge_loc_conf mv prev conf)"
  using assms(2,3)
  by (cases "rules conf"; cases "rules prev"; cases "enabled conf"; cases "enabled prev";
      cases "report_set conf"; cases "label_set conf")
    (simp_all add: loc_wf_def loc_ready_def merge_fields(1,3-) merge_enabled [OF assms(1)]
      del: not_None_eq)

lemma effective_loc_ready:
  assumes "merge_contract mv" and "loc_ready m outer" and "list_all (loc_wf m) inner"
  shows "loc_ready m (effective_conf mv outer inner)"
  using assms(2,3)
  by (induction inner arbitrary: outer) (auto simp: effective_conf_def merge_loc_ready [OF assms(1)])

lemma effective_enabled:
  assumes "merge_contract mv" and "inner \<noteq> []"
  shows "enabled (effective_conf mv outer inner) \<noteq> None"
  using assms(2)
proof (induction inner arbitrary: outer rule: rev_induct)
  case (snoc c inner)
  show ?case by (simp add: effective_conf_def merge_enabled [OF assms(1)] del: not_None_eq split: option.splits)
qed simp

text \<open>
  C32. In every configuration that loads, the effective configuration of each server and location
  block, merged along its path from the \<open>http\<close> block, is usable: the
  \<open>enabled\<close> flag is set, an enabled block has at least one rule, every zone, group and guard its
  rules name is defined, and a report names a defined tracker.  The tables have unique names and no
  dangling reference.  The module as a whole is enabled if the block has rules or an enabled
  report, so a block that uses it is never ignored because the module is off.
\<close>

theorem loaded_conf_resolves:
  assumes "load_conf env ds = Some st" and "merge_contract mv" and "bs \<noteq> []"
  shows "main_wf (main st) \<and> loc_ready (main st) (effective_conf mv (locs st b) (map (locs st) bs))
    \<and> enabled (effective_conf mv (locs st b) (map (locs st) bs)) \<noteq> None"
proof -
  have "conf_wf st" by (rule load_conf_wf [OF assms(1)])
  with assms(2,3) show ?thesis
    by (auto simp: conf_wf_def loc_wf_def list_all_iff intro!: effective_loc_ready
        dest: effective_enabled [where inner = "map (locs st) bs" and outer = "locs st b"])
qed

text \<open>
  C33. Inheritance replaces, it does not add: a block's rules are all those of the innermost
  block on its path that declares any, and likewise for the report target and for the label.
\<close>

theorem innermost_wins:
  "rules (effective_conf mv outer inner) =
     (case find (\<lambda>c. rules c \<noteq> None) (rev (outer # inner)) of Some c \<Rightarrow> rules c | None \<Rightarrow> None)
   \<and> report_set (effective_conf mv outer inner) = list_ex report_set (outer # inner)
   \<and> (case find report_set (rev (outer # inner)) of
        Some c \<Rightarrow> report_enabled (effective_conf mv outer inner) = report_enabled c
          \<and> report_tracker_name (effective_conf mv outer inner) = report_tracker_name c
      | None \<Rightarrow> True)
   \<and> (case find label_set (rev (outer # inner)) of
        Some c \<Rightarrow> label_template (effective_conf mv outer inner) = label_template c
          \<and> label_cv (effective_conf mv outer inner) = label_cv c
      | None \<Rightarrow> True)"
proof (induction inner rule: rev_induct)
  case Nil
  then show ?case by (simp add: effective_conf_def)
next
  case (snoc c inner)
  let ?e = "effective_conf mv outer inner"
  have step: "effective_conf mv outer (inner @ [c]) = ngx_http_rn_merge_loc_conf mv ?e c"
    by (simp add: effective_conf_def)
  have none: "find label_set (rev (outer # inner)) = None \<longleftrightarrow> \<not> label_set ?e"
    and none_r: "find report_set (rev (outer # inner)) = None \<longleftrightarrow> \<not> report_set ?e"
    by (induction inner rule: rev_induct)
      (auto simp: effective_conf_def merge_fields find_None_iff)
  from snoc none none_r show ?case
    by (auto simp: step merge_fields split: option.splits)
qed

subsection \<open>A sample\<close>

definition sample_env :: conf_env where
  "sample_env = \<lparr>oom = (\<lambda>_. False), script_vars = (\<lambda>_. 0), compile_ok = (\<lambda>_. True),
     parse_time = (\<lambda>_. 50), parse_addr = (\<lambda>_. None), resolver_create = (\<lambda>_. Some 1),
     parse_auth_key = (\<lambda>_. None), default_policy = sample_policy, max_replays = 65535\<rparr>"

definition sample_conf :: "(nat \<times> directive) list" where
  "sample_conf = [(1, Ratelimitly_zone ''z'' ''bucket=b'' ''rate=1r/s''),
     (1, Ratelimitly_tracker ''t'' ''service=s'' []),
     (1, Ratelimitly_guard ''g'' ''tracker=t'' ''threshold=50ms''),
     (1, Ratelimitly_group ''all'' ''zone=z'' []),
     (1, Ratelimitly 1 ''zone=z'' [''guard=g'']),
     (1, Ratelimitly 1 ''group=all'' []),
     (1, Ratelimitly_report 2 ''t'')]"

lemma sample_loads: "(case load_conf (\<lambda>_. sample_env) sample_conf of None \<Rightarrow> False | Some st \<Rightarrow> 
   map (map_option (map rule_kind) \<circ> rules \<circ> locs st) [0, 1, 2] = [None, Some [RN_RULE_ZONE, RN_RULE_GROUP], None])"
  by code_simp

definition nginx_merge_value :: "bool option \<Rightarrow> bool option \<Rightarrow> bool \<Rightarrow> bool option" where
  "nginx_merge_value c p d = (if c \<noteq> None then c else if p \<noteq> None then p else Some d)"

lemma loaded_conf_resolves_witness:
  "\<exists>st. load_conf (\<lambda>_. sample_env) sample_conf = Some st
     \<and> rules (locs st 1) \<noteq> None
     \<and> loc_ready (main st) (effective_conf nginx_merge_value (locs st 0) (map (locs st) [1, 2]))"
proof -
  obtain st where st: "load_conf (\<lambda>_. sample_env) sample_conf = Some st" "rules (locs st 1) \<noteq> None"
    using sample_loads by (auto split: option.splits)
  have "merge_contract nginx_merge_value" by (simp add: merge_contract_def nginx_merge_value_def)
  from loaded_conf_resolves [OF st(1) this, of "[1, 2]" 0] st show ?thesis by auto
qed
end
