(* ===== verification/Heap.thy ===== *)
theory Heap
  imports Prelude
begin

text \<open>
  The C heap that \<open>ngx_alloc\<close> and \<open>ngx_free\<close> manage, at the level the module uses it: blocks
  named by fresh pointers, each holding one value.  \<open>freed\<close> logs what every block held when it
  was freed, newest first, so that a lemma can speak of the last contents of a buffer;
  \<open>misused\<close> records a free or a write through a pointer that is not live.
\<close>

type_synonym ptr = nat

record 'v heap =
  next_ptr :: ptr
  blocks :: "ptr \<Rightarrow> 'v option"
  freed :: "(ptr \<times> 'v) list"
  misused :: bool

definition empty_heap :: "'v heap" where
  "empty_heap = \<lparr>next_ptr = 1, blocks = (\<lambda>_. None), freed = [], misused = False\<rparr>"

text \<open>\<open>ok\<close> is what the allocator answers; a null pointer is \<open>None\<close>.\<close>

definition ngx_alloc :: "bool \<Rightarrow> 'v \<Rightarrow> 'v heap \<Rightarrow> ptr option \<times> 'v heap" where
  "ngx_alloc ok v h =
     (if ok
      then (Some (next_ptr h), h\<lparr>next_ptr := next_ptr h + 1, blocks := (blocks h)(next_ptr h \<mapsto> v)\<rparr>)
      else (None, h))"

definition ngx_free :: "ptr \<Rightarrow> 'v heap \<Rightarrow> 'v heap" where
  "ngx_free p h =
     (case blocks h p of
        None \<Rightarrow> h\<lparr>misused := True\<rparr>
      | Some v \<Rightarrow> h\<lparr>blocks := (blocks h)(p := None), freed := (p, v) # freed h\<rparr>)"

text \<open>A write of the whole block, and \<open>if (p != NULL) ngx_free (p)\<close>.\<close>

definition store :: "ptr \<Rightarrow> 'v \<Rightarrow> 'v heap \<Rightarrow> 'v heap" where
  "store p v h =
     (case blocks h p of
        None \<Rightarrow> h\<lparr>misused := True\<rparr>
      | Some _ \<Rightarrow> h\<lparr>blocks := (blocks h)(p \<mapsto> v)\<rparr>)"

fun free_if :: "ptr option \<Rightarrow> 'v heap \<Rightarrow> 'v heap" where
  "free_if None h = h"
| "free_if (Some p) h = ngx_free p h"

text \<open>No pointer beyond \<open>next_ptr\<close> is live, so a fresh one is new.\<close>

definition heap_ok :: "'v heap \<Rightarrow> bool" where
  "heap_ok h \<longleftrightarrow> \<not> misused h \<and> (\<forall>p \<ge> next_ptr h. blocks h p = None)"

abbreviation live :: "'v heap \<Rightarrow> ptr set" where
  "live h \<equiv> dom (blocks h)"

lemma heap_ok_empty: "heap_ok empty_heap" and live_empty: "live empty_heap = {}"
  by (simp_all add: heap_ok_def empty_heap_def)

lemma alloc_None [simp]: "ngx_alloc ok v h = (None, h') \<longleftrightarrow> \<not> ok \<and> h' = h"
  by (auto simp: ngx_alloc_def)

lemma alloc_False [simp]: "ngx_alloc False v h = (None, h)"
  by simp

lemma alloc_Some:
  assumes "heap_ok h" and "ngx_alloc ok v h = (Some p, h')"
  shows "heap_ok h'" and "p \<notin> live h" and "live h' = insert p (live h)"
    and "blocks h' = (blocks h)(p \<mapsto> v)" and "freed h' = freed h"
  using assms by (auto simp: ngx_alloc_def heap_ok_def split: if_splits)

lemma free_live:
  assumes "heap_ok h" and "blocks h p = Some v"
  shows "heap_ok (ngx_free p h)" and "live (ngx_free p h) = live h - {p}"
    and "blocks (ngx_free p h) = (blocks h)(p := None)" and "freed (ngx_free p h) = (p, v) # freed h"
  using assms by (auto simp: ngx_free_def heap_ok_def)

lemma store_live:
  assumes "heap_ok h" and "blocks h p = Some w"
  shows "heap_ok (store p v h)" and "live (store p v h) = live h"
    and "blocks (store p v h) = (blocks h)(p \<mapsto> v)" and "freed (store p v h) = freed h"
proof -
  from assms have "p < next_ptr h" by (auto simp: heap_ok_def not_le [symmetric])
  with assms show "heap_ok (store p v h)" by (auto simp: store_def heap_ok_def)
qed (use assms in \<open>auto simp: store_def\<close>)

subsection \<open>The interface of an allocator\<close>

text \<open>
  What code that is handed \<open>alloc\<close> and \<open>free\<close> callbacks may rely on: a failed allocation changes
  no block, a successful one returns a block that was not live and changes no other, and
  freeing a live block retires exactly that block.
\<close>

locale allocator =
  fixes alloc :: "nat \<Rightarrow> 'v \<Rightarrow> 'v heap \<Rightarrow> ptr option \<times> 'v heap"
    and free :: "ptr \<Rightarrow> 'v heap \<Rightarrow> 'v heap"
  assumes alloc_null: "heap_ok h \<Longrightarrow> alloc n v h = (None, h') \<Longrightarrow> heap_ok h' \<and> blocks h' = blocks h"
    and alloc_new: "heap_ok h \<Longrightarrow> alloc n v h = (Some p, h') \<Longrightarrow>
      heap_ok h' \<and> p \<notin> live h \<and> blocks h' = (blocks h)(p \<mapsto> v)"
    and free_owned: "heap_ok h \<Longrightarrow> p \<in> live h \<Longrightarrow>
      heap_ok (free p h) \<and> blocks (free p h) = (blocks h)(p := None)"
begin

text \<open>Freeing every block of a list of distinct live blocks retires exactly those.\<close>

lemma free_all:
  assumes "heap_ok h" and "distinct ps" and "set ps \<subseteq> live h"
  shows "heap_ok (fold free ps h) \<and> blocks (fold free ps h) = (\<lambda>p. if p \<in> set ps then None else blocks h p)"
  using assms
proof (induction ps arbitrary: h)
  case (Cons p ps)
  from Cons.prems have step: "heap_ok (free p h)" "blocks (free p h) = (blocks h)(p := None)"
    using free_owned [of h p] by auto
  from Cons.prems have "set ps \<subseteq> live (free p h)" by (auto simp: step)
  with Cons.IH [OF step(1)] Cons.prems(2)
  have "heap_ok (fold free ps (free p h)) \<and> blocks (fold free ps (free p h)) =
      (\<lambda>q. if q \<in> set ps then None else blocks (free p h) q)" by simp
  then show ?case by (simp add: step(2) fun_eq_iff)
qed simp

end

text \<open>
  \<open>answers\<close> decides which requests for memory succeed, by their size and the heap at the time of
  the request, so any sequence of answers is possible.
\<close>

interpretation ngx_heap: allocator "\<lambda>n v h. ngx_alloc (answers n h) v h" ngx_free
proof unfold_locales
  fix h h' :: "'a heap" and n v p
  show "heap_ok h \<Longrightarrow> ngx_alloc (answers n h) v h = (None, h') \<Longrightarrow> heap_ok h' \<and> blocks h' = blocks h"
    by simp
  show "heap_ok h \<Longrightarrow> ngx_alloc (answers n h) v h = (Some p, h') \<Longrightarrow>
    heap_ok h' \<and> p \<notin> live h \<and> blocks h' = (blocks h)(p \<mapsto> v)"
    by (auto simp: ngx_alloc_def heap_ok_def split: if_splits)
  show "heap_ok h \<Longrightarrow> p \<in> live h \<Longrightarrow> heap_ok (ngx_free p h) \<and> blocks (ngx_free p h) = (blocks h)(p := None)"
    by (auto simp: ngx_free_def heap_ok_def)
qed

end
