(* ===== verification/Worker.thy ===== *)
theory Worker
  imports Conf_Types Heap
begin

text \<open>
  The worker context \<open>rn_worker_ctx_t\<close>: its lazy creation with backoff, the UDP endpoint and
  its replacement after steering feedback, and its destruction.

  One heap holds every object the worker can leak or release twice: its own structure, the
  temporary tenant and credential buffers, sockets, nginx connections and the C client.
  \<open>ngx_close_socket\<close> and \<open>r_client_destroy\<close> release one object, \<open>ngx_close_connection\<close> a
  connection with its socket.  \<open>sock_env\<close> and \<open>worker_env\<close> are the answers of the operating
  system, of nginx and of \<open>r_client_create\<close>; by the client's lifecycle contract it copies its
  configuration and leaves the output pointer alone when it fails.

  Log calls, the event's log pointers, and the test-only fault injection, which is compiled
  out of the module, are not modelled.  A socket option whose result the code discards is the
  operating system's.
\<close>

subsection \<open>Objects and environment\<close>

text \<open>
  A client holds its copy of the configuration it was created with (\<open>r_client_config_t\<close>): the
  tenant's name, its key and the request policy.
\<close>

record client_config =
  given_dns :: string
  given_key_id :: u64
  given_auth_type :: r_auth_type_t
  given_secret :: "string option"
  given_policy :: r_request_policy_t

datatype obj =
    Worker_struct
  | Bytes string
  | Socket family
  | Connection ptr
  | Client client_config

type_synonym os_heap = "obj heap"

record sock_env =
  socket_ok :: "family \<Rightarrow> bool"
  nonblocking_ok :: bool
  bind_ok :: "sockaddr \<Rightarrow> nat \<Rightarrow> bool"
  get_connection_ok :: bool
  add_event_ok :: bool

record worker_env =
  alloc_ok :: "nat \<Rightarrow> bool"
  sock :: sock_env
  create_ok :: bool

record rn_worker_ctx_t =
  self :: ptr
  client :: "ptr option"
  cfg_dns_name :: "ptr option"
  cfg_key_id :: u64
  cfg_auth_type :: r_auth_type_t
  cfg_secret :: "ptr option"
  cfg_secret_len :: nat
  worker_policy :: r_request_policy_t
  worker_resolver :: "nat option"
  worker_resolver_timeout :: u64
  udp_fd :: "ptr option"
  udp_family :: family
  udp_conn :: "ptr option"
  inflight :: nat
  rebind_pending :: bool
  rebind_scheduled :: bool
  rebind_event :: "u64 option"
  udp_read_active :: bool
  worker_bind_sockaddr :: sockaddr
  worker_bind_socklen :: nat
  worker_debug :: bool

text \<open>
  \<open>inflight\<close> counts objects that are in memory at the same time, so its 64 bits cannot wrap.
  \<open>rebind_event\<close> is the delay its timer was armed with, \<open>None\<close> when the timer is not set.
\<close>

definition RN_REBIND_RETRY_MS :: u64 where "RN_REBIND_RETRY_MS = 1000"
definition RN_INIT_RETRY_INITIAL_MS :: u64 where "RN_INIT_RETRY_INITIAL_MS = 1000"
definition RN_INIT_RETRY_MAX_MS :: u64 where "RN_INIT_RETRY_MAX_MS = 5000"
definition RN_UDP_READ_BATCH_MAX :: nat where "RN_UDP_READ_BATCH_MAX = 64"

subsection \<open>The UDP endpoint\<close>

definition ngx_close_connection :: "ptr \<Rightarrow> os_heap \<Rightarrow> os_heap" where
  "ngx_close_connection c h =
     (case blocks h c of
        Some (Connection fd) \<Rightarrow> ngx_free c (ngx_free fd h)
      | _ \<Rightarrow> h\<lparr>misused := True\<rparr>)"

definition rn_close_udp_endpoint :: "ptr option \<Rightarrow> ptr option \<Rightarrow> os_heap \<Rightarrow> os_heap" where
  "rn_close_udp_endpoint conn fd h =
     (case conn of
        Some c \<Rightarrow> ngx_close_connection c h
      | None \<Rightarrow> (case fd of Some s \<Rightarrow> ngx_free s h | None \<Rightarrow> h))"

text \<open>
  The result of \<open>rn_open_socket_candidate\<close> with its three output parameters, and its error
  return, which leaves them at their initial values.
\<close>

type_synonym candidate = "ngx_rc \<times> ptr option \<times> family \<times> ptr option"

definition no_candidate :: candidate where
  "no_candidate = (NGX_ERROR, None, AF_UNSPEC, None)"

definition candidate_socket ::
  "sock_env \<Rightarrow> rn_worker_ctx_t \<Rightarrow> os_heap \<Rightarrow> ptr option \<times> family \<times> os_heap" where
  "candidate_socket env w h =
     (let
        slen = worker_bind_socklen w;
        family0 = (if slen \<noteq> 0 then sa_family (worker_bind_sockaddr w) else AF_INET6)
      in case ngx_alloc (socket_ok env family0) (Socket family0) h of
        (s, h1) \<Rightarrow>
          if s = None \<and> slen = 0 \<and> family0 = AF_INET6
          then (case ngx_alloc (socket_ok env AF_INET) (Socket AF_INET) h1 of
                  (s', h2) \<Rightarrow> (s', AF_INET, h2))
          else (s, family0, h1))"

text \<open>The local address to bind: the configured one or the wildcard, always with port zero.\<close>

definition candidate_address :: "rn_worker_ctx_t \<Rightarrow> family \<Rightarrow> sockaddr \<times> nat" where
  "candidate_address w family0 =
     (if worker_bind_socklen w = 0
      then (if family0 = AF_INET
            then (\<lparr>sa_family = AF_INET, sa_port = 0, sa_addr = replicate 4 0\<rparr>, 16)
            else (\<lparr>sa_family = AF_INET6, sa_port = 0, sa_addr = replicate 16 0\<rparr>, 28))
      else ((worker_bind_sockaddr w)\<lparr>sa_port := 0\<rparr>, worker_bind_socklen w))"

definition rn_open_socket_candidate ::
  "sock_env \<Rightarrow> rn_worker_ctx_t \<Rightarrow> os_heap \<Rightarrow> candidate \<times> os_heap" where
  "rn_open_socket_candidate env w h =
     (case candidate_socket env w h of
        (None, family0, h1) \<Rightarrow> (no_candidate, h1)
      | (Some s, family0, h1) \<Rightarrow>
          if \<not> nonblocking_ok env then (no_candidate, ngx_free s h1)
          else case candidate_address w family0 of
            (ss, slen) \<Rightarrow>
              if \<not> bind_ok env ss slen then (no_candidate, ngx_free s h1)
              else case ngx_alloc (get_connection_ok env) (Connection s) h1 of
                (None, h2) \<Rightarrow> (no_candidate, ngx_free s h2)
              | (Some conn, h2) \<Rightarrow>
                  if \<not> add_event_ok env then (no_candidate, ngx_close_connection conn h2)
                  else ((NGX_OK, Some s, family0, Some conn), h2))"

definition rn_rebind_socket ::
  "sock_env \<Rightarrow> rn_worker_ctx_t \<Rightarrow> os_heap \<Rightarrow> ngx_rc \<times> rn_worker_ctx_t \<times> os_heap" where
  "rn_rebind_socket env w h =
     (case rn_open_socket_candidate env w h of
        ((rc, new_fd, new_family, new_conn), h1) \<Rightarrow>
          if rc \<noteq> NGX_OK then (NGX_ERROR, w, h1)
          else
            (NGX_OK,
             w\<lparr>udp_fd := new_fd, udp_family := new_family, udp_conn := new_conn, rebind_pending := False\<rparr>,
             rn_close_udp_endpoint (udp_conn w) (udp_fd w) h1))"

subsection \<open>Steering feedback\<close>

definition rn_schedule_rebind_after :: "rn_worker_ctx_t \<Rightarrow> u64 \<Rightarrow> rn_worker_ctx_t" where
  "rn_schedule_rebind_after w delay =
     (if \<not> rebind_pending w \<or> inflight w \<noteq> 0 \<or> rebind_scheduled w then w
      else w\<lparr>rebind_scheduled := True, rebind_event := Some delay\<rparr>)"

definition rn_schedule_rebind :: "rn_worker_ctx_t \<Rightarrow> rn_worker_ctx_t" where
  "rn_schedule_rebind w = rn_schedule_rebind_after w 0"

definition rn_on_steering_feedback :: "bool \<Rightarrow> rn_worker_ctx_t \<Rightarrow> rn_worker_ctx_t" where
  "rn_on_steering_feedback keep_port w =
     (if keep_port then w else rn_schedule_rebind (w\<lparr>rebind_pending := True\<rparr>))"

definition rn_rebind_handler ::
  "sock_env \<Rightarrow> rn_worker_ctx_t \<Rightarrow> os_heap \<Rightarrow> rn_worker_ctx_t \<times> os_heap" where
  "rn_rebind_handler env w0 h =
     (let w = w0\<lparr>rebind_scheduled := False\<rparr> in
      if \<not> rebind_pending w \<or> inflight w \<noteq> 0 then (w, h)
      else if udp_read_active w then (rn_schedule_rebind_after w 1, h)
      else case rn_rebind_socket env w h of
        (rc, w', h') \<Rightarrow>
          if rc \<noteq> NGX_OK then (rn_schedule_rebind_after w' RN_REBIND_RETRY_MS, h') else (w', h'))"

subsection \<open>Creation and destruction\<close>

text \<open>\<open>ngx_explicit_memzero (p, n)\<close>, and \<open>r_client_destroy\<close>.\<close>

definition explicit_memzero :: "ptr \<Rightarrow> nat \<Rightarrow> os_heap \<Rightarrow> os_heap" where
  "explicit_memzero p n h =
     (case blocks h p of
        Some (Bytes s) \<Rightarrow>
          (if n \<le> length s then store p (Bytes (replicate n nul @ drop n s)) h else h\<lparr>misused := True\<rparr>)
      | _ \<Rightarrow> h\<lparr>misused := True\<rparr>)"

text \<open>
  What \<open>r_client_create\<close> reads through the pointers of \<open>worker->client_cfg\<close>, and copies: the
  tenant's name up to its NUL, \<open>secret_len\<close> bytes of the secret unless its pointer is null, and the
  policy of the worker.  A read of a dead or too short buffer is a misuse.
\<close>

definition read_name :: "ptr option \<Rightarrow> os_heap \<Rightarrow> string option" where
  "read_name p h =
     (case Option.bind p (blocks h) of
        Some (Bytes s) \<Rightarrow> if nul \<in> set s then Some (c_string s) else None
      | _ \<Rightarrow> None)"

definition read_secret :: "ptr option \<Rightarrow> nat \<Rightarrow> os_heap \<Rightarrow> string option option" where
  "read_secret p n h =
     (case p of
        None \<Rightarrow> Some None
      | Some q \<Rightarrow>
          (case blocks h q of
             Some (Bytes s) \<Rightarrow> if n \<le> length s then Some (Some (take n s)) else None
           | _ \<Rightarrow> None))"

definition create_client :: "bool \<Rightarrow> rn_worker_ctx_t \<Rightarrow> os_heap \<Rightarrow> ptr option \<times> os_heap" where
  "create_client ok w h =
     (case (read_name (cfg_dns_name w) h, read_secret (cfg_secret w) (cfg_secret_len w) h) of
        (Some dns, Some secret) \<Rightarrow>
          ngx_alloc ok (Client \<lparr>given_dns = dns, given_key_id = cfg_key_id w, given_auth_type = cfg_auth_type w,
            given_secret = secret, given_policy = worker_policy w\<rparr>) h
      | _ \<Rightarrow> (None, h\<lparr>misused := True\<rparr>))"

definition r_client_destroy :: "ptr \<Rightarrow> os_heap \<Rightarrow> os_heap" where
  "r_client_destroy c h = ngx_free c h"

definition rn_worker_cleanup :: "rn_worker_ctx_t \<Rightarrow> os_heap \<Rightarrow> rn_worker_ctx_t \<times> os_heap" where
  "rn_worker_cleanup w0 h =
     (let
        w1 = (if rebind_event w0 \<noteq> None then w0\<lparr>rebind_event := None\<rparr> else w0);
        w2 = w1\<lparr>rebind_scheduled := False, rebind_pending := False\<rparr>;
        h1 = (case client w2 of Some c \<Rightarrow> r_client_destroy c h | None \<Rightarrow> h);
        w3 = w2\<lparr>client := None\<rparr>;
        h2 = rn_close_udp_endpoint (udp_conn w3) (udp_fd w3) h1
      in (w3\<lparr>udp_conn := None, udp_fd := None, udp_family := AF_UNSPEC, inflight := 0\<rparr>, h2))"

definition rn_worker_release_config_buffers ::
  "rn_worker_ctx_t \<Rightarrow> ptr option \<Rightarrow> ptr option \<Rightarrow> nat \<Rightarrow> os_heap \<Rightarrow> rn_worker_ctx_t \<times> os_heap" where
  "rn_worker_release_config_buffers w dns secret secret_len h =
     (let
        w1 = w\<lparr>cfg_dns_name := None, cfg_secret := None, cfg_secret_len := 0\<rparr>;
        h1 = (case secret of None \<Rightarrow> h | Some p \<Rightarrow> ngx_free p (explicit_memzero p secret_len h));
        h2 = (case dns of None \<Rightarrow> h1 | Some p \<Rightarrow> ngx_free p h1)
      in (w1, h2))"

text \<open>
  \<open>ngx_free (worker)\<close>.  The rebind event is part of the structure, so the structure may only be
  released when its timer is not set; otherwise nginx's timer tree would keep a dead event.
\<close>

definition free_worker :: "rn_worker_ctx_t \<Rightarrow> os_heap \<Rightarrow> os_heap" where
  "free_worker w h = (if rebind_event w = None then ngx_free (self w) h else h\<lparr>misused := True\<rparr>)"

definition worker_failed ::
  "rn_main_conf_t \<Rightarrow> rn_worker_ctx_t \<Rightarrow> ptr option \<Rightarrow> ptr option \<Rightarrow> os_heap
     \<Rightarrow> ngx_rc \<times> rn_worker_ctx_t option \<times> os_heap" where
  "worker_failed mcf w dns secret h =
     (case rn_worker_release_config_buffers w dns secret
        (length (str_of (auth_key mcf)) + (if secret \<noteq> None then 1 else 0)) h of
        (w1, h1) \<Rightarrow>
          case rn_worker_cleanup w1 h1 of
            (w2, h2) \<Rightarrow> (NGX_ERROR, None, free_worker w2 h2))"

definition new_worker :: "rn_main_conf_t \<Rightarrow> ptr \<Rightarrow> rn_worker_ctx_t" where
  "new_worker mcf p =
     \<lparr>self = p, client = None, cfg_dns_name = None, cfg_key_id = 0, cfg_auth_type = R_AUTH_NONE,
       cfg_secret = None, cfg_secret_len = 0, worker_policy = zero_policy,
       worker_resolver = resolver mcf, worker_resolver_timeout = resolver_timeout mcf,
       udp_fd = None, udp_family = AF_UNSPEC, udp_conn = None, inflight = 0,
       rebind_pending = False, rebind_scheduled = False, rebind_event = None,
       udp_read_active = False,
       worker_bind_sockaddr = (if bind_socklen mcf \<noteq> 0 then bind_sockaddr mcf
         else \<lparr>sa_family = AF_UNSPEC, sa_port = 0, sa_addr = []\<rparr>),
       worker_bind_socklen = bind_socklen mcf, worker_debug = debug mcf\<rparr>"

text \<open>
  The last part of \<open>rn_worker_init\<close>, from the policy on, the copy of the credential before it,
  and the whole function.
  \<open>worker0\<close> is \<open>mcf->worker\<close> at the call; the second result is its value afterwards.
\<close>

definition worker_connect ::
  "worker_env \<Rightarrow> rn_main_conf_t \<Rightarrow> rn_worker_ctx_t \<Rightarrow> ptr option \<Rightarrow> ptr option \<Rightarrow> os_heap
     \<Rightarrow> ngx_rc \<times> rn_worker_ctx_t option \<times> os_heap" where
  "worker_connect env mcf w0 dns secret h =
     (let w = w0\<lparr>worker_policy := request_policy mcf\<rparr> in
      case rn_open_socket_candidate (sock env) w h of
        ((rc, fd, family0, conn), h1) \<Rightarrow>
          if rc \<noteq> NGX_OK then worker_failed mcf w dns secret h1
          else
            let w1 = w\<lparr>udp_fd := fd, udp_family := family0, udp_conn := conn\<rparr> in
            case create_client (create_ok env) w1 h1 of
              (None, h2) \<Rightarrow> worker_failed mcf w1 dns secret h2
            | (Some c, h2) \<Rightarrow>
                (case rn_worker_release_config_buffers (w1\<lparr>client := Some c\<rparr>) dns secret
                   (length (str_of (auth_key mcf)) + (if secret \<noteq> None then 1 else 0)) h2 of
                   (w2, h3) \<Rightarrow> (NGX_OK, Some w2, h3)))"

definition worker_credential ::
  "worker_env \<Rightarrow> rn_main_conf_t \<Rightarrow> rn_worker_ctx_t \<Rightarrow> ptr \<Rightarrow> os_heap
     \<Rightarrow> ngx_rc \<times> rn_worker_ctx_t option \<times> os_heap" where
  "worker_credential env mcf w dns h =
     (if length (str_of (auth_key mcf)) > 0
      then (case ngx_alloc (alloc_ok env 2) (Bytes (str_of (auth_key mcf) @ [nul])) h of
              (None, h1) \<Rightarrow> worker_failed mcf w (Some dns) None h1
            | (Some secret, h1) \<Rightarrow>
                worker_connect env mcf (w\<lparr>cfg_secret := Some secret,
                  cfg_secret_len := length (str_of (auth_key mcf))\<rparr>) (Some dns) (Some secret) h1)
      else worker_connect env mcf (w\<lparr>cfg_secret := None, cfg_secret_len := 0\<rparr>) (Some dns) None h)"

definition rn_worker_init ::
  "worker_env \<Rightarrow> rn_main_conf_t \<Rightarrow> rn_worker_ctx_t option \<Rightarrow> os_heap
     \<Rightarrow> ngx_rc \<times> rn_worker_ctx_t option \<times> os_heap" where
  "rn_worker_init env mcf worker0 h =
     (case worker0 of
        Some _ \<Rightarrow> (NGX_OK, worker0, h)
      | None \<Rightarrow>
          (case ngx_alloc (alloc_ok env 0) Worker_struct h of
             (None, h1) \<Rightarrow> (NGX_ERROR, None, h1)
           | (Some p, h1) \<Rightarrow>
               let w = new_worker mcf p in
               (case ngx_alloc (alloc_ok env 1) (Bytes (str_of (tenant_dns mcf) @ [nul])) h1 of
                  (None, h2) \<Rightarrow> worker_failed mcf w None None h2
                | (Some dns, h2) \<Rightarrow>
                    worker_credential env mcf (w\<lparr>cfg_dns_name := Some dns, cfg_key_id := key_id mcf,
                      cfg_auth_type := auth_type mcf\<rparr>) dns h2)))"

text \<open>\<open>now\<close> is \<open>ngx_current_msec\<close>; the test for the retry time is on the signed difference.\<close>

definition rn_worker_ensure ::
  "worker_env \<Rightarrow> u64 \<Rightarrow> rn_main_conf_t \<Rightarrow> rn_worker_ctx_t option \<Rightarrow> os_heap
     \<Rightarrow> ngx_rc \<times> rn_main_conf_t \<times> rn_worker_ctx_t option \<times> os_heap" where
  "rn_worker_ensure env now mcf worker0 h =
     (if worker0 \<noteq> None then (NGX_OK, mcf, worker0, h)
      else if init_retry_at mcf \<noteq> 0 \<and> sint (init_retry_at mcf - now) > 0
      then (NGX_AGAIN, mcf, worker0, h)
      else
        let mcf1 = mcf\<lparr>init_retry_at := 0\<rparr> in
        case rn_worker_init env mcf1 worker0 h of
          (rc, worker1, h1) \<Rightarrow>
            if rc = NGX_OK then (NGX_OK, mcf1\<lparr>init_retry_delay := 0\<rparr>, worker1, h1)
            else
              let delay = (if init_retry_delay mcf1 = 0 then RN_INIT_RETRY_INITIAL_MS
                else init_retry_delay mcf1) in
              (NGX_ERROR,
               mcf1\<lparr>init_retry_at := now + delay,
                 init_retry_delay := (if delay < RN_INIT_RETRY_MAX_MS div 2 then delay * 2
                   else RN_INIT_RETRY_MAX_MS)\<rparr>,
               worker1, h1))"

definition rn_exit_process :: "rn_worker_ctx_t option \<Rightarrow> os_heap \<Rightarrow> rn_worker_ctx_t option \<times> os_heap" where
  "rn_exit_process worker0 h =
     (case worker0 of
        None \<Rightarrow> (None, h)
      | Some w \<Rightarrow> (case rn_worker_cleanup w h of (w', h') \<Rightarrow> (None, free_worker w' h')))"

subsection \<open>Accounting of requests\<close>

text \<open>
  The two places where a request touches its worker: \<open>worker->inflight++\<close> of
  \<open>ngx_http_rn_handler\<close>, and the decrement of \<open>rn_request_teardown\<close>.
\<close>

definition count_request :: "rn_worker_ctx_t \<Rightarrow> rn_worker_ctx_t" where
  "count_request w = w\<lparr>inflight := inflight w + 1\<rparr>"

definition uncount_request :: "rn_worker_ctx_t \<Rightarrow> rn_worker_ctx_t" where
  "uncount_request w = (if inflight w > 0 then w\<lparr>inflight := inflight w - 1\<rparr> else w)"

subsection \<open>The UDP read event\<close>

text \<open>
  The part of the nginx worker process the module reaches from its globals: the main
  configuration with its \<open>worker\<close> pointer, and the objects.
\<close>

record process =
  mcf :: rn_main_conf_t
  worker :: "rn_worker_ctx_t option"
  os :: os_heap

text \<open>What one \<open>recvfrom\<close> returns: a datagram with its source, no more data, an error, or zero.\<close>

datatype recv =
    Recv string sockaddr
  | Recv_again
  | Recv_error
  | Recv_empty

text \<open>
  The receive loop.  \<open>socket k\<close> is the answer to the \<open>k\<close>-th call of \<open>recvfrom\<close>; \<open>on_datagram\<close>
  is \<open>r_client_on_datagram\<close> with every callback it makes into the module.  The second result
  says that the event was posted for another round.
\<close>

function udp_read_loop ::
  "(string \<Rightarrow> sockaddr \<Rightarrow> 's \<Rightarrow> 's) \<Rightarrow> (nat \<Rightarrow> recv) \<Rightarrow> nat \<Rightarrow> 's \<Rightarrow> 's \<times> bool" where
  "udp_read_loop on_datagram socket received st =
     (if received \<ge> RN_UDP_READ_BATCH_MAX then (st, True)
      else case socket received of
        Recv buf from \<Rightarrow>
          let st' = on_datagram buf from st; received' = received + 1 in
          if received' = RN_UDP_READ_BATCH_MAX then (st', True)
          else udp_read_loop on_datagram socket received' st'
      | _ \<Rightarrow> (st, False))"
  by pat_completeness auto
termination
  by (relation "measure (\<lambda>(_, _, received, _). RN_UDP_READ_BATCH_MAX - received)")
    (auto simp: RN_UDP_READ_BATCH_MAX_def)

declare udp_read_loop.simps [simp del]

definition set_read_active :: "bool \<Rightarrow> 'a process_scheme \<Rightarrow> 'a process_scheme" where
  "set_read_active b p = p\<lparr>worker := map_option (udp_read_active_update (\<lambda>_. b)) (worker p)\<rparr>"

definition rn_udp_read_handler ::
  "(string \<Rightarrow> sockaddr \<Rightarrow> 'a process_scheme \<Rightarrow> 'a process_scheme) \<Rightarrow> (nat \<Rightarrow> recv)
     \<Rightarrow> 'a process_scheme \<Rightarrow> 'a process_scheme \<times> bool" where
  "rn_udp_read_handler on_datagram socket p =
     (case worker p of
        None \<Rightarrow> (p, False)
      | Some w \<Rightarrow>
          if client w = None then (p, False)
          else case udp_read_loop on_datagram socket 0 (set_read_active True p) of
            (p', posted) \<Rightarrow> (set_read_active False p', posted))"

end
