(* ===== verification/Request_Build.thy ===== *)
theory Request_Build
  imports Config_Load
begin

text \<open>
  The construction of one rate check from the effective configuration of a request: the
  \<open>rn_build_*\<close> functions, and the part of \<open>ngx_http_rn_handler\<close> between the creation of the
  request context and the call of the client, which expands the rules into resources and
  guards.

  \<open>render_env\<close> is what this code calls outside the repository: \<open>ngx_http_complex_value\<close> for
  the request at hand (\<open>render\<close>), the client's two identifier derivations, \<open>ngx_parse_time\<close>,
  and the request pool's allocator by the position of the call.  Debug logging is left out.
  The static functions are called with live pointers, and their builders return either a
  status or the value they fill in.
\<close>

subsection \<open>Data\<close>

record r_resource_request_t =
  bucket_id :: "u8 list"
  window_size_ms :: u32
  rate_limit :: u32
  tokens_requested :: u32

record r_latency_guard_t =
  latency_tracker_id :: "u8 list"
  guard_threshold_ms :: u32
  guard_ttl_ms :: u32
  guard_max_samples :: u32
  guard_min_sample_threshold :: u32

record rn_tracker_values_t =
  tracker_id :: "u8 list"
  values_ttl_ms :: u32
  values_max_samples :: u32
  values_min_sample_threshold :: u32

record r_service_latency_report_t =
  report_tracker_id :: "u8 list"
  report_ttl_ms :: u32
  report_max_samples :: u32
  report_min_sample_threshold :: u32
  observed_latency :: u32

record render_env =
  render :: "complex_value \<Rightarrow> string option"
  derive_bucket_id :: "string \<Rightarrow> u32 \<Rightarrow> u32 \<Rightarrow> u8 list option"
  derive_tracker_id :: "string \<Rightarrow> u32 \<Rightarrow> u32 \<Rightarrow> u32 \<Rightarrow> u8 list option"
  request_parse_time :: "string \<Rightarrow> u64"
  pcalloc_ok :: "nat \<Rightarrow> bool"

subsection \<open>The builders\<close>

definition rn_zone_rate_for_request :: "render_env \<Rightarrow> rn_zone_t \<Rightarrow> (u32 \<times> u32) option" where
  "rn_zone_rate_for_request env zone =
     (case render env (rate_cv zone) of
        None \<Rightarrow> None
      | Some rate \<Rightarrow>
          (case rn_numeric_parse_rate (Some rate) (Some 0) (Some 0) of
             (status, Some r, Some w) \<Rightarrow> if status = 0 then Some (r, w) else None
           | _ \<Rightarrow> None))"

definition rn_build_zone_resource :: "render_env \<Rightarrow> rn_zone_t \<Rightarrow> ngx_rc + r_resource_request_t" where
  "rn_build_zone_resource env zone =
     (case render env (bucket_cv zone) of
        None \<Rightarrow> Inl NGX_ERROR
      | Some bucket \<Rightarrow>
          if length bucket = 0 \<or> length bucket > RN_MAX_BUCKET_LEN then Inl NGX_ERROR
          else case rn_zone_rate_for_request env zone of
            None \<Rightarrow> Inl NGX_ERROR
          | Some (zone_rate_limit, zone_window_ms) \<Rightarrow>
              (case derive_bucket_id env bucket zone_window_ms zone_rate_limit of
                 None \<Rightarrow> Inl NGX_ERROR
               | Some bid \<Rightarrow> Inr \<lparr>bucket_id = bid, window_size_ms = zone_window_ms,
                   rate_limit = zone_rate_limit, tokens_requested = 1\<rparr>))"

definition rn_build_tracker_values :: "render_env \<Rightarrow> rn_tracker_t \<Rightarrow> ngx_rc + rn_tracker_values_t" where
  "rn_build_tracker_values env tracker =
     (case render env (service_cv tracker) of
        None \<Rightarrow> Inl NGX_ERROR
      | Some service \<Rightarrow>
          if length service = 0 \<or> length service > RN_MAX_SERVICE_LEN then Inl NGX_ERROR
          else case derive_tracker_id env service (ttl_ms tracker) (max_samples tracker)
              (min_sample_threshold tracker) of
            None \<Rightarrow> Inl NGX_ERROR
          | Some tid \<Rightarrow> Inr \<lparr>tracker_id = tid, values_ttl_ms = ttl_ms tracker,
              values_max_samples = max_samples tracker,
              values_min_sample_threshold = min_sample_threshold tracker\<rparr>)"

definition rn_build_guard_entries ::
  "render_env \<Rightarrow> rn_main_conf_t \<Rightarrow> rn_guard_t \<Rightarrow> ngx_rc + r_latency_guard_t" where
  "rn_build_guard_entries env mcf guard =
     (case rn_find_tracker mcf (guard_tracker guard) of
        None \<Rightarrow> Inl NGX_ERROR
      | Some tracker \<Rightarrow>
          (case render env (threshold_cv guard) of
             None \<Rightarrow> Inl NGX_ERROR
           | Some threshold \<Rightarrow>
               (case rn_parse_protocol_duration_ms (request_parse_time env) threshold of
                  None \<Rightarrow> Inl NGX_ERROR
                | Some threshold_ms \<Rightarrow>
                    (case rn_build_tracker_values env tracker of
                       Inl rc \<Rightarrow> Inl NGX_ERROR
                     | Inr vals \<Rightarrow> Inr \<lparr>latency_tracker_id = tracker_id vals,
                         guard_threshold_ms = threshold_ms, guard_ttl_ms = values_ttl_ms vals,
                         guard_max_samples = values_max_samples vals,
                         guard_min_sample_threshold = values_min_sample_threshold vals\<rparr>))))"

definition rn_build_latency_report ::
  "render_env \<Rightarrow> rn_tracker_t \<Rightarrow> ngx_rc + r_service_latency_report_t" where
  "rn_build_latency_report env tracker =
     (case rn_build_tracker_values env tracker of
        Inl rc \<Rightarrow> Inl NGX_ERROR
      | Inr vals \<Rightarrow> Inr \<lparr>report_tracker_id = tracker_id vals, report_ttl_ms = values_ttl_ms vals,
          report_max_samples = values_max_samples vals,
          report_min_sample_threshold = values_min_sample_threshold vals, observed_latency = 0\<rparr>)"

subsection \<open>The expansion of the rules\<close>

text \<open>How the expansion stops early: \<open>rn_finish_preflight_failure\<close> or \<open>rn_finish_internal_error\<close>.\<close>

datatype build_error = Preflight_failure | Internal_error

text \<open>The first loop: the number of resources and of guard references, to size the arrays.\<close>

fun count_rules :: "rn_main_conf_t \<Rightarrow> rn_rule_ref_t list \<Rightarrow> nat \<Rightarrow> nat \<Rightarrow> (nat \<times> nat) option" where
  "count_rules mcf [] n guard_refs = Some (n, guard_refs)"
| "count_rules mcf (r # rs) n guard_refs =
     (let refs = guard_refs + length (rule_guards r) in
      case rule_kind r of
        RN_RULE_ZONE \<Rightarrow> count_rules mcf rs (n + 1) refs
      | RN_RULE_GROUP \<Rightarrow>
          (case rn_find_group mcf (rule_name r) of
             None \<Rightarrow> None
           | Some grp \<Rightarrow> count_rules mcf rs (n + length (group_zones grp)) refs)
      | RN_RULE_GUARD_ONLY \<Rightarrow> count_rules mcf rs n refs)"

text \<open>How the handler reads the status of a builder.\<close>

definition builder_error :: "ngx_rc \<Rightarrow> build_error" where
  "builder_error rc =
     (if rc = NGX_HTTP_INTERNAL_SERVER_ERROR then Internal_error else Preflight_failure)"

text \<open>
  The loop over the guard names of one rule.  \<open>defs\<close> is \<open>guard_defs\<close>, the definitions already
  added, and \<open>gs\<close> the entries built for them.  The code compares pointers into the guard
  table; its entries have distinct names (\<open>Config_Load\<close>), so equal entries are the same one.
\<close>

fun build_guards :: "render_env \<Rightarrow> rn_main_conf_t \<Rightarrow> string list
    \<Rightarrow> rn_guard_t list \<Rightarrow> r_latency_guard_t list
    \<Rightarrow> build_error + rn_guard_t list \<times> r_latency_guard_t list" where
  "build_guards env mcf [] defs gs = Inr (defs, gs)"
| "build_guards env mcf (name # names) defs gs =
     (case rn_find_guard mcf name of
        None \<Rightarrow> Inl Preflight_failure
      | Some guard \<Rightarrow>
          if guard \<in> set defs then build_guards env mcf names defs gs
          else case rn_build_guard_entries env mcf guard of
            Inl rc \<Rightarrow> Inl (builder_error rc)
          | Inr entry \<Rightarrow> build_guards env mcf names (defs @ [guard]) (gs @ [entry]))"

text \<open>The resources of one rule: its zone, or the zones of its group in order.\<close>

fun build_zones :: "render_env \<Rightarrow> rn_main_conf_t \<Rightarrow> string list \<Rightarrow> r_resource_request_t list
    \<Rightarrow> build_error + r_resource_request_t list" where
  "build_zones env mcf [] res = Inr res"
| "build_zones env mcf (name # names) res =
     (case rn_find_zone mcf name of
        None \<Rightarrow> Inl Preflight_failure
      | Some zone \<Rightarrow>
          (case rn_build_zone_resource env zone of
             Inl rc \<Rightarrow> Inl (builder_error rc)
           | Inr out \<Rightarrow> build_zones env mcf names (res @ [out])))"

fun build_rules :: "render_env \<Rightarrow> rn_main_conf_t \<Rightarrow> rn_rule_ref_t list
    \<Rightarrow> rn_guard_t list \<Rightarrow> r_latency_guard_t list \<Rightarrow> r_resource_request_t list
    \<Rightarrow> build_error + r_resource_request_t list \<times> r_latency_guard_t list" where
  "build_rules env mcf [] defs gs res = Inr (res, gs)"
| "build_rules env mcf (r # rs) defs gs res =
     (case build_guards env mcf (rule_guards r) defs gs of
        Inl e \<Rightarrow> Inl e
      | Inr (defs', gs') \<Rightarrow>
          (case rule_kind r of
             RN_RULE_ZONE \<Rightarrow>
               (case build_zones env mcf [rule_name r] res of
                  Inl e \<Rightarrow> Inl e
                | Inr res' \<Rightarrow> build_rules env mcf rs defs' gs' res')
           | RN_RULE_GROUP \<Rightarrow>
               (case rn_find_group mcf (rule_name r) of
                  None \<Rightarrow> Inl Preflight_failure
                | Some grp \<Rightarrow>
                    (case build_zones env mcf (group_zones grp) res of
                       Inl e \<Rightarrow> Inl e
                     | Inr res' \<Rightarrow> build_rules env mcf rs defs' gs' res'))
           | RN_RULE_GUARD_ONLY \<Rightarrow> build_rules env mcf rs defs' gs' res))"

text \<open>The label of the check; an empty one is passed as no label.\<close>

definition build_label :: "render_env \<Rightarrow> rn_loc_conf_t \<Rightarrow> build_error + string" where
  "build_label env lcf =
     (if label_set lcf
      then (case render env (label_cv lcf) of
              None \<Rightarrow> Inl Preflight_failure
            | Some label \<Rightarrow>
                if length label > 0
                then (if length label > RN_MAX_LABEL_LEN then Inl Preflight_failure else Inr label)
                else Inr [])
      else Inr [])"

text \<open>The whole construction: nothing to check, an early end, or the arguments of the client.\<close>

datatype check_request =
    No_check
  | Build_failed build_error
  | Check "r_resource_request_t list" "r_latency_guard_t list" string

definition build_check :: "render_env \<Rightarrow> rn_main_conf_t \<Rightarrow> rn_loc_conf_t \<Rightarrow> check_request" where
  "build_check env mcf lcf =
     (let rs = rules_of lcf in
      if rs = [] then No_check
      else case count_rules mcf rs 0 0 of
        None \<Rightarrow> Build_failed Preflight_failure
      | Some (n, guard_refs) \<Rightarrow>
          if n = 0 \<and> guard_refs = 0 then No_check
          else if n > 0 \<and> \<not> pcalloc_ok env 1 then Build_failed Internal_error
          else if guard_refs > 0 \<and> (\<not> pcalloc_ok env 2 \<or> \<not> pcalloc_ok env 3)
          then Build_failed Internal_error
          else case build_rules env mcf rs [] [] [] of
            Inl e \<Rightarrow> Build_failed e
          | Inr (res, gs) \<Rightarrow>
              (case build_label env lcf of
                 Inl e \<Rightarrow> Build_failed e
               | Inr label \<Rightarrow> Check res gs label))"

subsection \<open>What is built\<close>

text \<open>The specification: every zone occurrence in order, and the guards in first-seen order.\<close>

definition zone_refs :: "rn_main_conf_t \<Rightarrow> rn_rule_ref_t \<Rightarrow> string list" where
  "zone_refs mcf r =
     (case rule_kind r of
        RN_RULE_ZONE \<Rightarrow> [rule_name r]
      | RN_RULE_GROUP \<Rightarrow>
          (case rn_find_group mcf (rule_name r) of None \<Rightarrow> [] | Some g \<Rightarrow> group_zones g)
      | RN_RULE_GUARD_ONLY \<Rightarrow> [])"

definition expanded_zones :: "rn_main_conf_t \<Rightarrow> rn_rule_ref_t list \<Rightarrow> string list" where
  "expanded_zones mcf rs = concat (map (zone_refs mcf) rs)"

definition guard_refs_of :: "rn_rule_ref_t list \<Rightarrow> string list" where
  "guard_refs_of rs = concat (map rule_guards rs)"

fun first_seen :: "'a list \<Rightarrow> 'a list \<Rightarrow> 'a list" where
  "first_seen acc [] = acc"
| "first_seen acc (x # xs) = first_seen (if x \<in> set acc then acc else acc @ [x]) xs"

definition builds_zone :: "render_env \<Rightarrow> rn_main_conf_t \<Rightarrow> string \<Rightarrow> r_resource_request_t \<Rightarrow> bool" where
  "builds_zone env mcf name out \<longleftrightarrow>
     (case rn_find_zone mcf name of None \<Rightarrow> False | Some z \<Rightarrow> rn_build_zone_resource env z = Inr out)"

definition builds_guard :: "render_env \<Rightarrow> rn_main_conf_t \<Rightarrow> rn_guard_t \<Rightarrow> r_latency_guard_t \<Rightarrow> bool" where
  "builds_guard env mcf g entry \<longleftrightarrow> rn_build_guard_entries env mcf g = Inr entry"

lemma first_seen_append: "first_seen acc (xs @ ys) = first_seen (first_seen acc xs) ys"
  by (induction xs arbitrary: acc) auto

lemma first_seen_set: "set (first_seen acc xs) = set acc \<union> set xs"
  by (induction xs arbitrary: acc) auto

lemma first_seen_distinct: "distinct acc \<Longrightarrow> distinct (first_seen acc xs)"
  by (induction xs arbitrary: acc) auto

lemma first_seen_length: "length (first_seen acc xs) \<le> length acc + length xs"
proof (induction xs arbitrary: acc)
  case (Cons x xs)
  show ?case using Cons.IH [of "if x \<in> set acc then acc else acc @ [x]"] by (auto split: if_splits)
qed simp

lemma build_zones_Inr:
  "build_zones env mcf names res = Inr res' \<longleftrightarrow>
    (\<exists>outs. res' = res @ outs \<and> list_all2 (builds_zone env mcf) names outs)"
proof (induction names arbitrary: res)
  case (Cons name names)
  show ?case
    by (auto simp: Cons.IH list_all2_Cons1 builds_zone_def split: option.splits sum.splits)
qed auto

lemma build_guards_Inr:
  assumes "list_all2 (builds_guard env mcf) defs gs"
    and "build_guards env mcf names defs gs = Inr (defs', gs')"
  shows "list_all (\<lambda>n. rn_find_guard mcf n \<noteq> None) names
    \<and> defs' = first_seen defs (map (\<lambda>n. the (rn_find_guard mcf n)) names)
    \<and> list_all2 (builds_guard env mcf) defs' gs'"
  using assms
proof (induction names arbitrary: defs gs)
  case (Cons name names)
  from Cons.prems(2) obtain g where g: "rn_find_guard mcf name = Some g" by (auto split: option.splits)
  show ?case
  proof (cases "g \<in> set defs")
    case True
    with Cons.prems g Cons.IH [OF Cons.prems(1)] show ?thesis by auto
  next
    case False
    with Cons.prems(2) g obtain entry where e: "rn_build_guard_entries env mcf g = Inr entry"
      "build_guards env mcf names (defs @ [g]) (gs @ [entry]) = Inr (defs', gs')"
      by (auto split: sum.splits)
    have "builds_guard env mcf g entry" using e(1) by (simp add: builds_guard_def)
    then have "list_all2 (builds_guard env mcf) (defs @ [g]) (gs @ [entry])"
      using Cons.prems(1) by (simp add: list_all2_appendI)
    from Cons.IH [OF this e(2)] g False show ?thesis by auto
  qed
qed auto

lemma build_rules_Inr:
  assumes "list_all2 (builds_guard env mcf) defs gs"
    and "build_rules env mcf rs defs gs res = Inr (res', gs')"
  shows "\<exists>outs defs'. res' = res @ outs \<and> list_all2 (builds_zone env mcf) (expanded_zones mcf rs) outs
    \<and> list_all (\<lambda>n. rn_find_guard mcf n \<noteq> None) (guard_refs_of rs)
    \<and> defs' = first_seen defs (map (\<lambda>n. the (rn_find_guard mcf n)) (guard_refs_of rs))
    \<and> list_all2 (builds_guard env mcf) defs' gs'"
  using assms
proof (induction rs arbitrary: defs gs res)
  case Nil
  then show ?case by (simp add: expanded_zones_def guard_refs_of_def)
next
  case (Cons r rs)
  from Cons.prems(2) obtain defs1 gs1 where g: "build_guards env mcf (rule_guards r) defs gs = Inr (defs1, gs1)"
    by (auto split: sum.splits)
  note gi = build_guards_Inr [OF Cons.prems(1) g]
  have zones: "\<exists>res1. build_zones env mcf (zone_refs mcf r) res = Inr res1
      \<and> build_rules env mcf rs defs1 gs1 res1 = Inr (res', gs')"
    using Cons.prems(2) g
    by (auto simp: zone_refs_def split: rn_rule_kind_t.splits option.splits sum.splits)
  then obtain outs0 where z: "list_all2 (builds_zone env mcf) (zone_refs mcf r) outs0"
    "build_rules env mcf rs defs1 gs1 (res @ outs0) = Inr (res', gs')"
    by (auto simp: build_zones_Inr)
  from Cons.IH [OF conjunct2 [OF conjunct2 [OF gi]] z(2)] gi z(1) show ?case
    by (auto simp: expanded_zones_def guard_refs_of_def first_seen_append intro: list_all2_appendI)
qed

lemma count_rules_Some:
  "count_rules mcf rs n g = Some (n', g') \<Longrightarrow>
    n' = n + length (expanded_zones mcf rs) \<and> g' = g + length (guard_refs_of rs)"
proof (induction rs arbitrary: n g)
  case Nil
  then show ?case by (simp add: expanded_zones_def guard_refs_of_def)
next
  case (Cons r rs)
  then show ?case
    by (auto simp: expanded_zones_def guard_refs_of_def zone_refs_def Let_def
        split: rn_rule_kind_t.splits option.splits dest!: Cons.IH)
qed

text \<open>
  C31. The check that is sent has one resource for every zone occurrence of the effective
  rules, groups expanded in place and repetitions kept, in order, and one guard for every
  distinct guard they name, in first-seen order; each is what its builder produced, every
  resource asks for one token, and both arrays fit what was allocated for them.
\<close>

theorem check_expansion:
  assumes "build_check env mcf lcf = Check res gs label"
  shows "list_all2 (builds_zone env mcf) (expanded_zones mcf (rules_of lcf)) res
    \<and> list_all2 (builds_guard env mcf)
        (first_seen [] (map (\<lambda>n. the (rn_find_guard mcf n)) (guard_refs_of (rules_of lcf)))) gs
    \<and> list_all (\<lambda>r. tokens_requested r = 1) res
    \<and> (case count_rules mcf (rules_of lcf) 0 0 of
         None \<Rightarrow> False
       | Some (n, guard_refs) \<Rightarrow> length res = n \<and> length gs \<le> guard_refs \<and> 0 < n + guard_refs)
    \<and> length label \<le> RN_MAX_LABEL_LEN"
proof -
  obtain n g where c: "count_rules mcf (rules_of lcf) 0 0 = Some (n, g)" "0 < n + g"
    and b: "build_rules env mcf (rules_of lcf) [] [] [] = Inr (res, gs)"
    and l: "build_label env lcf = Inr label"
    using assms by (auto simp: build_check_def Let_def split: if_split_asm option.splits sum.splits)
  note count = count_rules_Some [OF c(1)]
  let ?defs = "first_seen [] (map (\<lambda>n. the (rn_find_guard mcf n)) (guard_refs_of (rules_of lcf)))"
  from build_rules_Inr [OF _ b] have z: "list_all2 (builds_zone env mcf) (expanded_zones mcf (rules_of lcf)) res"
    and d: "list_all2 (builds_guard env mcf) ?defs gs" by auto
  have "length gs \<le> length (guard_refs_of (rules_of lcf))"
    using list_all2_lengthD [OF d] first_seen_length [of "[]"] by (metis add_0 length_map list.size(3))
  moreover have "length res = length (expanded_zones mcf (rules_of lcf))"
    using list_all2_lengthD [OF z] by simp
  moreover have "tokens_requested r = 1" if "builds_zone env mcf name r" for name r
    using that by (auto simp: builds_zone_def rn_build_zone_resource_def split: option.splits if_splits)
  then have "list_all (\<lambda>r. tokens_requested r = 1) res"
    using z by (auto simp: list_all_length list_all2_conv_all_nth)
  moreover have "length label \<le> RN_MAX_LABEL_LEN"
    using l by (auto simp: build_label_def split: if_splits option.splits)
  ultimately show ?thesis using z d c count by auto
qed

subsection \<open>A loaded configuration leaves only the values of the request to fail\<close>

text \<open>Every value the tables render for this request is valid, and so is the label.\<close>

definition values_ok :: "render_env \<Rightarrow> rn_main_conf_t \<Rightarrow> rn_loc_conf_t \<Rightarrow> bool" where
  "values_ok env mcf lcf \<longleftrightarrow>
     list_all (\<lambda>z. rn_build_zone_resource env z \<noteq> Inl NGX_ERROR) (zones mcf)
     \<and> list_all (\<lambda>g. rn_build_guard_entries env mcf g \<noteq> Inl NGX_ERROR) (guards mcf)
     \<and> build_label env lcf \<noteq> Inl Preflight_failure \<and> pcalloc_ok env = (\<lambda>_. True)"

lemma zone_resource_error: "rn_build_zone_resource env z = Inl e \<Longrightarrow> e = NGX_ERROR"
  by (auto simp: rn_build_zone_resource_def split: option.splits if_splits prod.splits)

lemma guard_entry_error: "rn_build_guard_entries env mcf g = Inl e \<Longrightarrow> e = NGX_ERROR"
  by (auto simp: rn_build_guard_entries_def split: option.splits sum.splits)

lemma label_error: "build_label env lcf = Inl e \<Longrightarrow> e = Preflight_failure"
  by (auto simp: build_label_def split: option.splits if_splits)

lemma found_in_tables:
  "rn_find_zone mcf n = Some z \<Longrightarrow> z \<in> set (zones mcf)"
  "rn_find_guard mcf n = Some g \<Longrightarrow> g \<in> set (guards mcf)"
  "rn_find_group mcf n = Some p \<Longrightarrow> p \<in> set (groups mcf)"
  by (auto simp: rn_find_zone_def rn_find_guard_def rn_find_group_def
      dest: zone_table.lookup_in guard_table.lookup_in group_table.lookup_in)

lemma build_zones_total:
  assumes "values_ok env mcf lcf" and "list_all (\<lambda>n. rn_find_zone mcf n \<noteq> None) names"
  shows "\<exists>res'. build_zones env mcf names res = Inr res'"
  using assms(2)
proof (induction names arbitrary: res)
  case (Cons name names)
  then obtain z where z: "rn_find_zone mcf name = Some z" by auto
  have "rn_build_zone_resource env z \<noteq> Inl NGX_ERROR"
    using assms(1) found_in_tables(1) [OF z] by (auto simp: values_ok_def list_all_iff)
  then obtain out where "rn_build_zone_resource env z = Inr out"
    using zone_resource_error by (cases "rn_build_zone_resource env z") auto
  with Cons z show ?case by simp
qed simp

lemma build_guards_total:
  assumes "values_ok env mcf lcf" and "list_all (\<lambda>n. rn_find_guard mcf n \<noteq> None) names"
  shows "\<exists>r. build_guards env mcf names defs gs = Inr r"
  using assms(2)
proof (induction names arbitrary: defs gs)
  case (Cons name names)
  then obtain g where g: "rn_find_guard mcf name = Some g" by auto
  have "rn_build_guard_entries env mcf g \<noteq> Inl NGX_ERROR"
    using assms(1) found_in_tables(2) [OF g] by (auto simp: values_ok_def list_all_iff)
  then obtain entry where "rn_build_guard_entries env mcf g = Inr entry"
    using guard_entry_error by (cases "rn_build_guard_entries env mcf g") auto
  with Cons g show ?case by simp
qed simp

lemma rule_zones_found:
  assumes "main_wf mcf" and "rule_resolves mcf r"
  shows "list_all (\<lambda>n. rn_find_zone mcf n \<noteq> None) (zone_refs mcf r)"
  using assms found_in_tables(3) [of mcf "rule_name r"]
  by (auto simp: rule_resolves_def zone_refs_def main_wf_def group_wf_def list_all_iff
      split: rn_rule_kind_t.splits option.splits)

lemma build_rules_total:
  assumes ok: "values_ok env mcf lcf" and wf: "main_wf mcf" and "list_all (rule_resolves mcf) rs"
  shows "\<exists>r. build_rules env mcf rs defs gs res = Inr r"
  using assms(3)
proof (induction rs arbitrary: defs gs res)
  case (Cons r rs)
  have r: "rule_resolves mcf r" using Cons.prems by simp
  then have "list_all (\<lambda>n. rn_find_guard mcf n \<noteq> None) (rule_guards r)"
    by (simp add: rule_resolves_def list_all_iff)
  then obtain d g where "build_guards env mcf (rule_guards r) defs gs = Inr (d, g)"
    using build_guards_total [OF ok] by fastforce
  moreover obtain res' where "build_zones env mcf (zone_refs mcf r) res = Inr res'"
    using build_zones_total [OF ok rule_zones_found [OF wf r]] by blast
  ultimately show ?case using Cons r
    by (auto simp: zone_refs_def rule_resolves_def split: rn_rule_kind_t.splits option.splits)
qed simp

lemma count_rules_total:
  assumes "list_all (rule_resolves mcf) rs"
  shows "count_rules mcf rs n g \<noteq> None"
  using assms
proof (induction rs arbitrary: n g)
  case (Cons r rs)
  then show ?case
    by (auto simp: rule_resolves_def Let_def split: rn_rule_kind_t.splits option.splits)
qed simp

text \<open>A rule that resolves contributes a resource or a guard.\<close>

lemma rule_contributes:
  assumes "main_wf mcf" and "rule_resolves mcf r"
  shows "zone_refs mcf r \<noteq> [] \<or> rule_guards r \<noteq> []"
  using assms found_in_tables(3) [of mcf "rule_name r"]
  by (auto simp: rule_resolves_def zone_refs_def main_wf_def group_wf_def
      split: rn_rule_kind_t.splits option.splits)

lemma check_total:
  assumes wf: "main_wf mcf" and lcf: "loc_ready mcf lcf" and en: "enabled lcf = Some True"
    and ok: "values_ok env mcf lcf"
  shows "\<exists>res gs label. build_check env mcf lcf = Check res gs label"
proof -
  obtain rs where rs: "rules lcf = Some rs" "rs \<noteq> []" "list_all (rule_resolves mcf) rs"
    using lcf en by (auto simp: loc_ready_def list_all_iff split: option.splits)
  then have of: "rules_of lcf = rs" by (simp add: rules_of_def)
  obtain n g where c: "count_rules mcf rs 0 0 = Some (n, g)"
    using count_rules_total [OF rs(3)] by fastforce
  from rs(2,3) obtain r rs' where r: "rs = r # rs'" "rule_resolves mcf r" by (cases rs) auto
  have "0 < n + g"
    using count_rules_Some [OF c] rule_contributes [OF wf r(2)] r(1)
    by (auto simp: expanded_zones_def guard_refs_of_def)
  moreover obtain res gs where "build_rules env mcf rs [] [] [] = Inr (res, gs)"
    using build_rules_total [OF ok wf rs(3)] by fastforce
  moreover obtain label where "build_label env lcf = Inr label"
    using ok label_error [of env lcf] by (cases "build_label env lcf") (auto simp: values_ok_def)
  ultimately show ?thesis using rs(2) c ok by (auto simp: build_check_def of values_ok_def)
qed

text \<open>
  In a configuration that loads, a protected location can fail to build its check only
  because of a value of the request: when the rendered buckets, rates, services, thresholds and
  label are valid and memory is available, the check is built and sent, never bypassed.
\<close>

lemma loaded_conf_checks:
  assumes "load_conf cenv ds = Some st" and "merge_contract mv"
    and "lcf = effective_conf mv (locs st b) (map (locs st) bs)" and "enabled lcf = Some True"
    and "values_ok env (main st) lcf"
  shows "\<exists>res gs label. build_check env (main st) lcf = Check res gs label"
proof -
  have wf: "conf_wf st" by (rule load_conf_wf [OF assms(1)])
  then have "loc_ready (main st) lcf"
    unfolding assms(3)
    by (intro effective_loc_ready [OF assms(2)]) (auto simp: conf_wf_def loc_wf_def list_all_iff)
  with check_total assms(4,5) wf show ?thesis by (auto simp: conf_wf_def)
qed

subsection \<open>A sample\<close>

definition sample_render :: render_env where
  "sample_render = \<lparr>render = (\<lambda>cv. case cv of Uncompiled \<Rightarrow> None | Compiled s \<Rightarrow> Some s),
     derive_bucket_id = (\<lambda>_ _ _. Some (replicate 16 1)), derive_tracker_id = (\<lambda>_ _ _ _. Some (replicate 16 2)),
     request_parse_time = (\<lambda>_. 50), pcalloc_ok = (\<lambda>_. True)\<rparr>"

definition sample_lcf :: "conf_state \<Rightarrow> rn_loc_conf_t" where
  "sample_lcf st = effective_conf nginx_merge_value (locs st 0) (map (locs st) [1, 2])"

lemma sample_check:
  "case load_conf (\<lambda>_. sample_env) sample_conf of
     None \<Rightarrow> False
   | Some st \<Rightarrow> enabled (sample_lcf st) = Some True
       \<and> list_all (\<lambda>z. rn_build_zone_resource sample_render z \<noteq> Inl NGX_ERROR) (zones (main st))
       \<and> list_all (\<lambda>g. rn_build_guard_entries sample_render (main st) g \<noteq> Inl NGX_ERROR) (guards (main st))
       \<and> build_label sample_render (sample_lcf st) = Inr []
       \<and> map zone_name (zones (main st)) = [''z'']"
  by code_simp

lemma loaded_conf_checks_witness:
  "\<exists>st res gs label. load_conf (\<lambda>_. sample_env) sample_conf = Some st
     \<and> build_check sample_render (main st) (sample_lcf st) = Check res gs label"
proof -
  obtain st where st: "load_conf (\<lambda>_. sample_env) sample_conf = Some st"
    "enabled (sample_lcf st) = Some True" "values_ok sample_render (main st) (sample_lcf st)"
    using sample_check by (auto simp: values_ok_def sample_render_def split: option.splits)
  have "merge_contract nginx_merge_value" by (simp add: merge_contract_def nginx_merge_value_def)
  from loaded_conf_checks [OF st(1) this sample_lcf_def st(2,3)] st(1) show ?thesis by blast
qed

definition sample_rule_conf :: "rn_main_conf_t \<Rightarrow> rn_main_conf_t" where
  "sample_rule_conf m = m\<lparr>zones := [\<lparr>zone_name = ''z'', bucket_template = ''b'', bucket_cv = Compiled ''b'',
     rate_template = ''1r/s'', rate_cv = Compiled ''1r/s''\<rparr>], guards := [], groups := []\<rparr>"

definition sample_rule_loc :: rn_loc_conf_t where
  "sample_rule_loc = \<lparr>enabled = Some True,
     rules = Some (replicate 2 \<lparr>rule_kind = RN_RULE_ZONE, rule_name = ''z'', rule_guards = []\<rparr>),
     report_set = False, report_enabled = False, report_tracker_name = [], label_template = [],
     label_cv = Uncompiled, label_set = False\<rparr>"

definition sample_resource :: r_resource_request_t where
  "sample_resource = \<lparr>bucket_id = replicate 16 1, window_size_ms = 1000, rate_limit = 1, tokens_requested = 1\<rparr>"

lemma sample_rule_check:
  "build_check sample_render (sample_rule_conf m) sample_rule_loc = Check (replicate 2 sample_resource) [] []"
proof -
  have "rn_numeric_parse_rate (Some ''1r/s'') (Some 0) (Some 0) = (0, Some 1, Some 1000)" by code_simp
  then show ?thesis
    by (simp add: build_check_def sample_rule_loc_def rules_of_def sample_rule_conf_def sample_render_def
        rn_find_zone_def build_label_def rn_build_zone_resource_def rn_zone_rate_for_request_def
        RN_MAX_BUCKET_LEN_def sample_resource_def numeral_2_eq_2)
qed

lemma check_expansion_witness:
  "list_all2 (builds_zone sample_render (sample_rule_conf (the (ngx_http_rn_create_main_conf sample_env))))
     [''z'', ''z''] (replicate 2 sample_resource)"
  using check_expansion [OF sample_rule_check [of "the (ngx_http_rn_create_main_conf sample_env)"]]
  by (simp add: expanded_zones_def rules_of_def sample_rule_loc_def zone_refs_def numeral_2_eq_2)

end
