(* ===== verification/Request.thy ===== *)
theory Request
  imports Worker Request_Build
begin

text \<open>
  The request path: the pre-content handler, the completion callback, the deadline timer, the
  teardown that all of them share, the log-phase handler and the verdict variable, as
  functions on an explicit store of request contexts.

  A context lives in the pool of its request and is gone when nginx frees that pool, so every
  access goes through the store, and an access to a freed context or request, or the use of a
  client handle that is not live, is the result \<open>None\<close>.  Pointers to contexts, requests and
  client handles are numbers.  A null \<open>ngx_http_request_t\<close>, connection or event data is never
  passed by nginx, and the logging is not modelled.

  The client and nginx enter as the answers they give (\<open>handler_env\<close>, \<open>timeout_env\<close>,
  \<open>log_env\<close>).  What \<open>ngx_http_core_run_phases\<close> does with a resumed request, up to freeing it,
  is the parameter \<open>resume\<close> of the functions that call it.
\<close>

subsection \<open>Data\<close>

datatype rn_admission_outcome_t =
    RN_ADMISSION_NONE
  | RN_ADMISSION_WAITING
  | RN_ADMISSION_VALID_ALLOW
  | RN_ADMISSION_VALID_DENY
  | RN_ADMISSION_FAIL_OPEN
  | RN_ADMISSION_FAIL_CLOSE
  | RN_ADMISSION_INTERNAL_ERROR
  | RN_ADMISSION_ABORTED

datatype rn_completion_cause_t =
    RN_COMPLETION_NONE
  | RN_COMPLETION_VALID_VERDICT
  | RN_COMPLETION_START_FAILURE
  | RN_COMPLETION_DEPENDENCY_ERROR
  | RN_COMPLETION_TIMEOUT
  | RN_COMPLETION_CARDINALITY_MISMATCH
  | RN_COMPLETION_NGINX_ERROR
  | RN_COMPLETION_CLIENT_ABORT

datatype rclient_status =
    RCLIENT_OK
  | RCLIENT_ERR_IO
  | RCLIENT_ERR_TIMEOUT
  | RCLIENT_ERR_PROTOCOL
  | RCLIENT_ERR_AUTH
  | RCLIENT_ERR_DNS
  | RCLIENT_ERR_CONFIG
  | RCLIENT_ERR_NOMEM
  | RCLIENT_ERR_OTHER int

fun rn_rclient_status_name :: "rclient_status \<Rightarrow> string" where
  "rn_rclient_status_name RCLIENT_OK = ''ok''"
| "rn_rclient_status_name RCLIENT_ERR_IO = ''io''"
| "rn_rclient_status_name RCLIENT_ERR_TIMEOUT = ''timeout''"
| "rn_rclient_status_name RCLIENT_ERR_PROTOCOL = ''protocol''"
| "rn_rclient_status_name RCLIENT_ERR_AUTH = ''auth''"
| "rn_rclient_status_name RCLIENT_ERR_DNS = ''dns''"
| "rn_rclient_status_name RCLIENT_ERR_CONFIG = ''config''"
| "rn_rclient_status_name RCLIENT_ERR_NOMEM = ''nomem''"
| "rn_rclient_status_name (RCLIENT_ERR_OTHER n) = ''unknown''"

text \<open>
  A result of the client: its arrays have as many elements as their counts say.
\<close>

record r_rate_limit_result_t =
  success :: bool
  guard_passed :: "bool list"
  tokens_deficit :: "u32 list"

type_synonym ctx_ptr = nat
type_synonym request_ptr = nat
type_synonym client_req = nat

text \<open>
  \<open>ctx_worker\<close> says that the worker pointer is set; a process has one worker, the one its main
  configuration publishes.  \<open>timer\<close> is the delay the timer was armed with.
  \<open>timeout_completed\<close> says that the pointer to the flag on the stack of the timeout handler is
  set; the flag itself is in the state.  \<open>ctx_pool\<close> is the request whose pool holds the object.
\<close>

record rn_req_ctx_t =
  ctx_pool :: request_ptr
  ctx_r :: "request_ptr option"
  ctx_worker :: bool
  ctx_req :: "client_req option"
  lat_report :: r_service_latency_report_t
  expected_guard_count :: nat
  expected_resource_count :: nat
  timer :: "u64 option"
  timeout_completed :: bool
  decision :: ngx_rc
  admission_outcome :: rn_admission_outcome_t
  completion_cause :: rn_completion_cause_t
  waiting :: bool
  ctx_done :: bool
  nginx_counted :: bool
  inflight_counted :: bool
  lat_report_enabled :: bool
  lat_report_sent :: bool

datatype cleanup = Rn_request_cleanup ctx_ptr | Other_cleanup

datatype event_handler = Other_handler | Ngx_http_test_reading | Ngx_http_core_run_phases

text \<open>
  What the module sees of \<open>ngx_http_request_t\<close>: its module context, the cleanup list, newest
  first, whether it is the main request, the main request's reference count, the location
  configuration in force, the connection's flags, its start time and its event handlers.  The
  counter's part that nginx itself holds is \<open>own_refs\<close>; \<open>terminated\<close> says that nginx has run
  the cleanups and will only log and free the request.
\<close>

record http_request =
  slot :: "ctx_ptr option"
  cleanups :: "cleanup list"
  is_main :: bool
  refcount :: nat
  own_refs :: nat
  loc_conf :: rn_loc_conf_t
  conn_timedout :: bool
  conn_error :: bool
  conn_destroyed :: bool
  start_sec :: u64
  start_msec :: u64
  read_handler :: event_handler
  write_handler :: event_handler
  terminated :: bool

text \<open>
  The state: the process, the stores with the next unused names, the client's live rate requests with the user pointer
  they were started with, the flag on the stack of the timeout handler, and two logs of the
  calls made to the client, rate checks and latency reports.
\<close>

record sys = process +
  ctxs :: "ctx_ptr \<Rightarrow> rn_req_ctx_t option"
  next_ctx :: ctx_ptr
  next_req :: request_ptr
  reqs :: "request_ptr \<Rightarrow> http_request option"
  handles :: "client_req \<Rightarrow> request_ptr option"
  completed :: bool
  checks :: "(request_ptr \<times> r_resource_request_t list \<times> r_latency_guard_t list \<times> string) list"
  reports :: "(request_ptr \<times> r_service_latency_report_t) list"

subsection \<open>Accesses\<close>

definition upd_ctx :: "ctx_ptr \<Rightarrow> (rn_req_ctx_t \<Rightarrow> rn_req_ctx_t) \<Rightarrow> sys \<Rightarrow> sys option" where
  "upd_ctx c f s =
     (case ctxs s c of None \<Rightarrow> None | Some x \<Rightarrow> Some (s\<lparr>ctxs := (ctxs s)(c \<mapsto> f x)\<rparr>))"

definition upd_req :: "request_ptr \<Rightarrow> (http_request \<Rightarrow> http_request) \<Rightarrow> sys \<Rightarrow> sys option" where
  "upd_req r f s =
     (case reqs s r of None \<Rightarrow> None | Some q \<Rightarrow> Some (s\<lparr>reqs := (reqs s)(r \<mapsto> f q)\<rparr>))"

definition upd_worker :: "(rn_worker_ctx_t \<Rightarrow> rn_worker_ctx_t) \<Rightarrow> sys \<Rightarrow> sys option" where
  "upd_worker f s =
     (case worker s of None \<Rightarrow> None | Some w \<Rightarrow> Some (s\<lparr>worker := Some (f w)\<rparr>))"

text \<open>\<open>r_client_cancel_request\<close>: retires a live handle without a callback.\<close>

definition cancel_request :: "client_req \<Rightarrow> sys \<Rightarrow> sys option" where
  "cancel_request h s =
     (case handles s h of None \<Rightarrow> None | Some _ \<Rightarrow> Some (s\<lparr>handles := (handles s)(h := None)\<rparr>))"

subsection \<open>The context of a request\<close>

text \<open>The loop over the cleanup list.\<close>

fun find_cleanup :: "request_ptr \<Rightarrow> cleanup list \<Rightarrow> sys \<Rightarrow> ctx_ptr option option" where
  "find_cleanup r [] s = Some None"
| "find_cleanup r (Other_cleanup # cs) s = find_cleanup r cs s"
| "find_cleanup r (Rn_request_cleanup c # cs) s =
     do { x \<leftarrow> ctxs s c;
          if ctx_r x = Some r then Some (Some c) else find_cleanup r cs s }"

definition rn_get_request_ctx :: "request_ptr \<Rightarrow> sys \<Rightarrow> (ctx_ptr option \<times> sys) option" where
  "rn_get_request_ctx r s =
     do { q \<leftarrow> reqs s r;
          case slot q of
            Some c \<Rightarrow> Some (Some c, s)
          | None \<Rightarrow>
              do { found \<leftarrow> find_cleanup r (cleanups q) s;
                   case found of
                     None \<Rightarrow> Some (None, s)
                   | Some c \<Rightarrow> do { s' \<leftarrow> upd_req r (slot_update (\<lambda>_. Some c)) s; Some (Some c, s') } } }"

datatype verdict = Allow | Deny | Not_found

definition ngx_http_rn_verdict_variable :: "request_ptr \<Rightarrow> sys \<Rightarrow> (verdict \<times> sys) option" where
  "ngx_http_rn_verdict_variable r s =
     do { (ctx, s) \<leftarrow> rn_get_request_ctx r s;
          case ctx of
            None \<Rightarrow> Some (Not_found, s)
          | Some c \<Rightarrow>
              do { x \<leftarrow> ctxs s c;
                   Some (if admission_outcome x = RN_ADMISSION_VALID_ALLOW then Allow
                         else if admission_outcome x = RN_ADMISSION_VALID_DENY then Deny
                         else Not_found, s) } }"

subsection \<open>Teardown\<close>

text \<open>
  \<open>completed_req\<close> is \<open>None\<close> for the null pointer.  The reads of \<open>worker->client\<close> and
  \<open>ctx->r->main\<close> are accesses to the worker and to the request.
\<close>

definition rn_request_teardown ::
  "ctx_ptr \<Rightarrow> client_req option \<Rightarrow> bool \<Rightarrow> sys \<Rightarrow> sys option" where
  "rn_request_teardown c completed_req cancel s =
     do { x \<leftarrow> ctxs s c;
          let owned_req = ctx_req x;
          if \<not> cancel \<and> owned_req \<noteq> completed_req then Some s
          else do {
            s \<leftarrow> upd_ctx c (\<lambda>x. x\<lparr>timer := None, ctx_req := None\<rparr>) s;
            s \<leftarrow> (case owned_req of
                    Some h \<Rightarrow>
                      if cancel \<and> ctx_worker x
                      then do { w \<leftarrow> worker s;
                                if client w \<noteq> None then cancel_request h s else Some s }
                      else Some s
                  | None \<Rightarrow> Some s);
            s \<leftarrow> (if inflight_counted x
                  then do { s \<leftarrow> (if ctx_worker x then upd_worker uncount_request s else Some s);
                            upd_ctx c (inflight_counted_update (\<lambda>_. False)) s }
                  else Some s);
            s \<leftarrow> (if nginx_counted x
                  then do { s \<leftarrow> (case ctx_r x of
                                    None \<Rightarrow> Some s
                                  | Some r \<Rightarrow> upd_req r (\<lambda>q. if refcount q > 0
                                      then q\<lparr>refcount := refcount q - 1\<rparr> else q) s);
                            upd_ctx c (nginx_counted_update (\<lambda>_. False)) s }
                  else Some s);
            s \<leftarrow> upd_ctx c (waiting_update (\<lambda>_. False)) s;
            if ctx_worker x then upd_worker rn_schedule_rebind s else Some s } }"

definition rn_request_cleanup :: "ctx_ptr \<Rightarrow> sys \<Rightarrow> sys option" where
  "rn_request_cleanup c s =
     do { x \<leftarrow> ctxs s c;
          s \<leftarrow> (if admission_outcome x = RN_ADMISSION_WAITING
                then upd_ctx c (\<lambda>x. x\<lparr>admission_outcome := RN_ADMISSION_ABORTED,
                  completion_cause := RN_COMPLETION_CLIENT_ABORT\<rparr>) s
                else Some s);
          s \<leftarrow> rn_request_teardown c None True s;
          upd_ctx c (ctx_r_update (\<lambda>_. None)) s }"

subsection \<open>Ends of the preflight\<close>

definition fail_rc :: "rn_main_conf_t \<Rightarrow> ngx_rc" where
  "fail_rc m = (if fail_open m then NGX_OK else NGX_HTTP_TOO_MANY_REQUESTS)"

definition fail_outcome :: "rn_main_conf_t \<Rightarrow> rn_admission_outcome_t" where
  "fail_outcome m = (if fail_open m then RN_ADMISSION_FAIL_OPEN else RN_ADMISSION_FAIL_CLOSE)"

definition rn_finish_preflight_failure ::
  "ctx_ptr \<Rightarrow> rn_main_conf_t \<Rightarrow> rn_completion_cause_t \<Rightarrow> sys \<Rightarrow> (ngx_rc \<times> sys) option" where
  "rn_finish_preflight_failure c m cause s =
     do { s \<leftarrow> upd_ctx c (\<lambda>x. x\<lparr>decision := fail_rc m, admission_outcome := fail_outcome m,
            completion_cause := cause, ctx_done := True\<rparr>) s;
          Some (fail_rc m, s) }"

definition rn_finish_internal_error :: "ctx_ptr \<Rightarrow> sys \<Rightarrow> (ngx_rc \<times> sys) option" where
  "rn_finish_internal_error c s =
     do { s \<leftarrow> upd_ctx c (\<lambda>x. x\<lparr>decision := NGX_HTTP_INTERNAL_SERVER_ERROR,
            admission_outcome := RN_ADMISSION_INTERNAL_ERROR,
            completion_cause := RN_COMPLETION_NGINX_ERROR, ctx_done := True\<rparr>) s;
          Some (NGX_HTTP_INTERNAL_SERVER_ERROR, s) }"

subsection \<open>The handler\<close>

text \<open>\<open>ngx_timeofday ()\<close>, seconds and milliseconds, \<open>None\<close> for a null pointer.\<close>

type_synonym ngx_time = "(u64 \<times> u64) option"

definition rn_now_ms :: "ngx_time \<Rightarrow> u64" where
  "rn_now_ms tp = (case tp of None \<Rightarrow> 0 | Some (sec, msec) \<Rightarrow> sec * 1000 + msec)"

record handler_env =
  build_env :: render_env
  cleanup_add_ok :: bool
  init_env :: worker_env
  current_msec :: u64
  start_answer :: "rclient_status \<times> client_req"
  deadline :: "u64 option"
  wall_time :: ngx_time
  read_ready :: bool
  read_event_ok :: bool

definition empty_report :: r_service_latency_report_t where
  "empty_report = \<lparr>report_tracker_id = [], report_ttl_ms = 0, report_max_samples = 0,
     report_min_sample_threshold = 0, observed_latency = 0\<rparr>"

definition new_ctx :: "request_ptr \<Rightarrow> bool \<Rightarrow> rn_main_conf_t \<Rightarrow> rn_req_ctx_t" where
  "new_ctx r admission_enabled m =
     \<lparr>ctx_pool = r, ctx_r = Some r, ctx_worker = False, ctx_req = None, lat_report = empty_report,
       expected_guard_count = 0, expected_resource_count = 0, timer = None,
       timeout_completed = False, decision = NGX_DECLINED,
       admission_outcome = (if admission_enabled then fail_outcome m else RN_ADMISSION_NONE),
       completion_cause = RN_COMPLETION_NONE, waiting = False, ctx_done = False,
       nginx_counted = False, inflight_counted = False, lat_report_enabled = False,
       lat_report_sent = False\<rparr>"

text \<open>The client accepted the check: ownership, timer and accounting, to the return of the handler.\<close>

definition start_waiting :: "handler_env \<Rightarrow> request_ptr \<Rightarrow> ctx_ptr \<Rightarrow> client_req \<Rightarrow> sys \<Rightarrow> (ngx_rc \<times> sys) option"
where
  "start_waiting env r c h s =
     do { s \<leftarrow> upd_ctx c (ctx_req_update (\<lambda>_. Some h)) s;
          s \<leftarrow> upd_worker count_request s;
          s \<leftarrow> upd_ctx c (inflight_counted_update (\<lambda>_. True)) s;
          s \<leftarrow> (case deadline env of
                  None \<Rightarrow> Some s
                | Some deadline_ms \<Rightarrow>
                    let now_ms = rn_now_ms (wall_time env);
                        delay = (if deadline_ms > now_ms then deadline_ms - now_ms else 0)
                    in upd_ctx c (timer_update (\<lambda>_. Some delay)) s);
          s \<leftarrow> upd_ctx c (\<lambda>x. x\<lparr>waiting := True, admission_outcome := RN_ADMISSION_WAITING\<rparr>) s;
          s \<leftarrow> upd_req r (\<lambda>q. q\<lparr>refcount := refcount q + 1\<rparr>) s;
          s \<leftarrow> upd_ctx c (nginx_counted_update (\<lambda>_. True)) s;
          if \<not> read_ready env \<and> \<not> read_event_ok env
          then do {
            s \<leftarrow> rn_request_teardown c None True s;
            rn_finish_internal_error c s }
          else do {
            s \<leftarrow> upd_req r (read_handler_update (\<lambda>_. Ngx_http_test_reading)) s;
            Some (NGX_AGAIN, s) } }"

text \<open>
  The call of \<open>r_client_check_rate_limit_async_borrowed\<close>: by the client's contract an error
  publishes nothing and success publishes a live handle without a callback.
\<close>

definition start_check ::
  "handler_env \<Rightarrow> request_ptr \<Rightarrow> ctx_ptr \<Rightarrow> r_resource_request_t list \<Rightarrow> r_latency_guard_t list
     \<Rightarrow> string \<Rightarrow> sys \<Rightarrow> (ngx_rc \<times> sys) option" where
  "start_check env r c resources guard_entries label s =
     do { s \<leftarrow> upd_ctx c (\<lambda>x. x\<lparr>expected_guard_count := length guard_entries,
            expected_resource_count := length resources\<rparr>) s;
          let s = s\<lparr>checks := checks s @ [(r, resources, guard_entries, label)]\<rparr>;
          case start_answer env of
            (RCLIENT_OK, h) \<Rightarrow> start_waiting env r c h (s\<lparr>handles := (handles s)(h \<mapsto> r)\<rparr>)
          | _ \<Rightarrow> rn_finish_preflight_failure c (mcf s) RN_COMPLETION_START_FAILURE s }"

text \<open>\<open>done\<close> with the current decision, and the end of a request that needs no check.\<close>

definition finish_unprotected :: "ctx_ptr \<Rightarrow> sys \<Rightarrow> (ngx_rc \<times> sys) option" where
  "finish_unprotected c s =
     do { s \<leftarrow> upd_ctx c (\<lambda>x. x\<lparr>admission_outcome := RN_ADMISSION_NONE, decision := NGX_DECLINED,
            ctx_done := True\<rparr>) s;
          Some (NGX_DECLINED, s) }"

definition no_worker :: "ctx_ptr \<Rightarrow> bool \<Rightarrow> sys \<Rightarrow> (ngx_rc \<times> sys) option" where
  "no_worker c admission_enabled s =
     (let rc = (if admission_enabled then fail_rc (mcf s) else NGX_DECLINED) in
      do { s \<leftarrow> upd_ctx c (\<lambda>x. x\<lparr>ctx_done := True, completion_cause := RN_COMPLETION_DEPENDENCY_ERROR,
             decision := rc\<rparr>) s;
           Some (rc, s) })"

definition prepare_report :: "handler_env \<Rightarrow> rn_loc_conf_t \<Rightarrow> ctx_ptr \<Rightarrow> sys \<Rightarrow> sys option" where
  "prepare_report env l c s =
     (if report_enabled l
      then (case rn_find_tracker (mcf s) (report_tracker_name l) of
              None \<Rightarrow> Some s
            | Some tracker \<Rightarrow>
                (case rn_build_latency_report (build_env env) tracker of
                   Inl _ \<Rightarrow> Some s
                 | Inr rep \<Rightarrow> upd_ctx c (\<lambda>x. x\<lparr>lat_report := rep, lat_report_enabled := True\<rparr>) s))
      else Some s)"

text \<open>The end of a report-only request, and the check of a protected one.\<close>

definition run_check :: "handler_env \<Rightarrow> request_ptr \<Rightarrow> rn_loc_conf_t \<Rightarrow> bool \<Rightarrow> ctx_ptr \<Rightarrow> sys
    \<Rightarrow> (ngx_rc \<times> sys) option" where
  "run_check env r l admission_enabled c s =
     (if \<not> admission_enabled
      then do { s \<leftarrow> upd_ctx c (ctx_done_update (\<lambda>_. True)) s; Some (NGX_DECLINED, s) }
      else case build_check (build_env env) (mcf s) l of
        No_check \<Rightarrow> finish_unprotected c s
      | Build_failed Preflight_failure \<Rightarrow>
          rn_finish_preflight_failure c (mcf s) RN_COMPLETION_DEPENDENCY_ERROR s
      | Build_failed Internal_error \<Rightarrow> rn_finish_internal_error c s
      | Check resources guard_entries label \<Rightarrow> start_check env r c resources guard_entries label s)"

text \<open>The handler from the point where the worker is needed.\<close>

definition admit :: "handler_env \<Rightarrow> request_ptr \<Rightarrow> rn_loc_conf_t \<Rightarrow> bool \<Rightarrow> ctx_ptr \<Rightarrow> sys
    \<Rightarrow> (ngx_rc \<times> sys) option" where
  "admit env r l admission_enabled c s =
     (case (if worker s = None
            then rn_worker_ensure (init_env env) (current_msec env) (mcf s) None (os s)
            else (NGX_OK, mcf s, worker s, os s)) of
        (rc, m, w, h) \<Rightarrow>
          let s = s\<lparr>mcf := m, worker := w, os := h\<rparr> in
          if rc \<noteq> NGX_OK then no_worker c admission_enabled s
          else case w of
            None \<Rightarrow> no_worker c admission_enabled s
          | Some wk \<Rightarrow>
              if client wk = None then no_worker c admission_enabled s
              else do {
                s \<leftarrow> upd_ctx c (ctx_worker_update (\<lambda>_. True)) s;
                s \<leftarrow> prepare_report env l c s;
                run_check env r l admission_enabled c s })"

text \<open>The handler from the allocation of the context.\<close>

definition new_admission :: "handler_env \<Rightarrow> request_ptr \<Rightarrow> rn_loc_conf_t \<Rightarrow> bool \<Rightarrow> sys \<Rightarrow> (ngx_rc \<times> sys) option"
where
  "new_admission env r l admission_enabled s =
     (if \<not> pcalloc_ok (build_env env) 0 then Some (NGX_HTTP_INTERNAL_SERVER_ERROR, s)
      else
        let c = next_ctx s in
        do { let s = s\<lparr>next_ctx := c + 1,
               ctxs := (ctxs s)(c \<mapsto> new_ctx r admission_enabled (mcf s))\<rparr>;
             s \<leftarrow> upd_req r (slot_update (\<lambda>_. Some c)) s;
             if \<not> cleanup_add_ok env
             then do {
               s \<leftarrow> upd_ctx c (\<lambda>x. x\<lparr>admission_outcome := RN_ADMISSION_INTERNAL_ERROR,
                 completion_cause := RN_COMPLETION_NGINX_ERROR, ctx_done := True\<rparr>) s;
               Some (NGX_HTTP_INTERNAL_SERVER_ERROR, s) }
             else do {
               s \<leftarrow> upd_req r (\<lambda>q. q\<lparr>cleanups := Rn_request_cleanup c # cleanups q\<rparr>) s;
               admit env r l admission_enabled c s } })"

text \<open>
  The flag \<open>enabled\<close> of a location is an \<open>ngx_flag_t\<close> read as a truth value: anything but zero
  enables admission, \<open>NGX_CONF_UNSET\<close> too.
\<close>

definition ngx_http_rn_handler :: "handler_env \<Rightarrow> request_ptr \<Rightarrow> sys \<Rightarrow> (ngx_rc \<times> sys) option" where
  "ngx_http_rn_handler env r s =
     do { q \<leftarrow> reqs s r;
          if \<not> is_main q then Some (NGX_DECLINED, s)
          else do {
            (ctx, s) \<leftarrow> rn_get_request_ctx r s;
            let l = loc_conf q;
            let admission_enabled = (enabled l \<noteq> Some False);
            if \<not> admission_enabled \<and> \<not> report_enabled l then Some (NGX_DECLINED, s)
            else if \<not> main_enabled (mcf s) then Some (NGX_DECLINED, s)
            else case ctx of
              None \<Rightarrow> new_admission env r l admission_enabled s
            | Some c \<Rightarrow>
                do { x \<leftarrow> ctxs s c;
                     if ctx_done x then Some (decision x, s)
                     else if waiting x then Some (NGX_AGAIN, s)
                     else new_admission env r l admission_enabled s } } }"

subsection \<open>Completion\<close>

text \<open>The decision of \<open>rn_rate_cb\<close>: return code, outcome and cause.\<close>

fun all_passed :: "bool list \<Rightarrow> bool" where
  "all_passed [] = True"
| "all_passed (p # ps) = (if \<not> p then False else all_passed ps)"

fun no_deficit :: "u32 list \<Rightarrow> bool" where
  "no_deficit [] = True"
| "no_deficit (d # ds) = (if d \<noteq> 0 then False else no_deficit ds)"

definition rate_decision ::
  "rn_main_conf_t \<Rightarrow> nat \<Rightarrow> nat \<Rightarrow> rclient_status \<Rightarrow> r_rate_limit_result_t option
     \<Rightarrow> ngx_rc \<times> rn_admission_outcome_t \<times> rn_completion_cause_t" where
  "rate_decision m expected_guards expected_resources status result =
     (case result of
        Some res \<Rightarrow>
          if status = RCLIENT_OK
            \<and> (length (guard_passed res) \<noteq> expected_guards
               \<or> length (tokens_deficit res) \<noteq> expected_resources)
          then (fail_rc m, fail_outcome m, RN_COMPLETION_CARDINALITY_MISMATCH)
          else if status = RCLIENT_OK
          then
            let allow = success res;
                allow = (if allow then all_passed (guard_passed res) else allow);
                allow = (if allow then no_deficit (tokens_deficit res) else allow)
            in (if allow then (NGX_OK, RN_ADMISSION_VALID_ALLOW, RN_COMPLETION_VALID_VERDICT)
                else (NGX_HTTP_TOO_MANY_REQUESTS, RN_ADMISSION_VALID_DENY, RN_COMPLETION_VALID_VERDICT))
          else (fail_rc m, fail_outcome m,
            if status = RCLIENT_ERR_TIMEOUT then RN_COMPLETION_TIMEOUT else RN_COMPLETION_DEPENDENCY_ERROR)
      | None \<Rightarrow> (fail_rc m, fail_outcome m,
          if status = RCLIENT_ERR_TIMEOUT then RN_COMPLETION_TIMEOUT else RN_COMPLETION_DEPENDENCY_ERROR))"

definition rn_rate_cb ::
  "(request_ptr \<Rightarrow> sys \<Rightarrow> sys option) \<Rightarrow> request_ptr option \<Rightarrow> client_req \<Rightarrow> rclient_status
     \<Rightarrow> r_rate_limit_result_t option \<Rightarrow> sys \<Rightarrow> sys option" where
  "rn_rate_cb resume user h status result s =
     (case user of
        None \<Rightarrow> Some s
      | Some r \<Rightarrow>
     do { q \<leftarrow> reqs s r;
          case slot q of
            None \<Rightarrow> Some s
          | Some c \<Rightarrow>
              do { x \<leftarrow> ctxs s c;
                   if \<not> ctx_worker x then Some s
                   else if ctx_req x \<noteq> Some h then Some s
                   else do {
                     s \<leftarrow> (if timeout_completed x
                           then upd_ctx c (timeout_completed_update (\<lambda>_. False)) (s\<lparr>completed := True\<rparr>)
                           else Some s);
                     s \<leftarrow> rn_request_teardown c (Some h) False s;
                     let (rc, outcome, cause) = rate_decision (mcf s) (expected_guard_count x)
                       (expected_resource_count x) status result;
                     s \<leftarrow> upd_ctx c (\<lambda>x. x\<lparr>admission_outcome := outcome, completion_cause := cause,
                       decision := rc, ctx_done := True, waiting := False\<rparr>) s;
                     s \<leftarrow> upd_req r (write_handler_update (\<lambda>_. Ngx_http_core_run_phases)) s;
                     resume r s } } })"

subsection \<open>The deadline timer\<close>

text \<open>
  The client's answers to the timeout handler: the deadline before it, what
  \<open>r_client_on_timeout\<close> returns and the completion it delivers synchronously, if it does, and
  the deadline afterwards.
\<close>

record timeout_env =
  first_deadline :: "u64 option"
  first_time :: ngx_time
  on_timeout_rc :: rclient_status
  on_timeout_completion :: "(rclient_status \<times> r_rate_limit_result_t option) option"
  second_deadline :: "u64 option"
  second_time :: ngx_time

text \<open>\<open>r_client_on_timeout\<close> unlinks a request it completes before it calls back.\<close>

definition client_on_timeout ::
  "timeout_env \<Rightarrow> (request_ptr \<Rightarrow> sys \<Rightarrow> sys option) \<Rightarrow> client_req \<Rightarrow> sys \<Rightarrow> sys option" where
  "client_on_timeout env resume h s =
     do { r \<leftarrow> handles s h;
          case on_timeout_completion env of
            None \<Rightarrow> Some s
          | Some (status, result) \<Rightarrow>
              rn_rate_cb resume (Some r) h status result (s\<lparr>handles := (handles s)(h := None)\<rparr>) }"

text \<open>The handler after the client's timeout processing completed nothing.\<close>

definition after_timeout ::
  "timeout_env \<Rightarrow> (request_ptr \<Rightarrow> sys \<Rightarrow> sys option) \<Rightarrow> ctx_ptr \<Rightarrow> request_ptr option \<Rightarrow> client_req
     \<Rightarrow> sys \<Rightarrow> sys option" where
  "after_timeout env resume c user h s =
     do { s \<leftarrow> upd_ctx c (timeout_completed_update (\<lambda>_. False)) s;
          if on_timeout_rc env \<noteq> RCLIENT_OK
          then do { s \<leftarrow> cancel_request h s; rn_rate_cb resume user h (on_timeout_rc env) None s }
          else case second_deadline env of
            None \<Rightarrow> do { s \<leftarrow> cancel_request h s; rn_rate_cb resume user h RCLIENT_ERR_CONFIG None s }
          | Some deadline_ms \<Rightarrow>
              let now_ms = rn_now_ms (second_time env) in
              upd_ctx c (timer_update (\<lambda>_. Some (if deadline_ms > now_ms then deadline_ms - now_ms else 0))) s }"

definition rn_request_timeout_handler ::
  "timeout_env \<Rightarrow> (request_ptr \<Rightarrow> sys \<Rightarrow> sys option) \<Rightarrow> ctx_ptr \<Rightarrow> sys \<Rightarrow> sys option" where
  "rn_request_timeout_handler env resume c s =
     do { x \<leftarrow> ctxs s c;
          case ctx_req x of
            None \<Rightarrow> Some s
          | Some h \<Rightarrow>
              if \<not> ctx_worker x then Some s
              else do {
                w \<leftarrow> worker s;
                if client w = None then Some s
                else
                  let now_ms = rn_now_ms (first_time env) in
                  if (case first_deadline env of Some d \<Rightarrow> d > now_ms | None \<Rightarrow> False)
                  then upd_ctx c (timer_update (\<lambda>_. Some (the (first_deadline env) - now_ms))) s
                  else do {
                    s \<leftarrow> upd_ctx c (timeout_completed_update (\<lambda>_. True)) (s\<lparr>completed := False\<rparr>);
                    s \<leftarrow> client_on_timeout env resume h s;
                    if completed s then Some s else after_timeout env resume c (ctx_r x) h s } } }"

subsection \<open>The log phase\<close>

record log_env =
  log_time :: ngx_time

definition observed_ms :: "http_request \<Rightarrow> u64 \<times> u64 \<Rightarrow> u32" where
  "observed_ms q tp =
     (let
        start_ms = start_sec q * 1000 + start_msec q;
        end_ms = fst tp * 1000 + snd tp;
        observed = (if end_ms > start_ms then end_ms - start_ms else 0);
        observed = (if observed = 0 then 1 else observed);
        observed = (if observed > 0xFFFFFFFF then 0xFFFFFFFF else observed)
      in ucast (observed :: u64))"

definition ngx_http_rn_log_handler :: "log_env \<Rightarrow> request_ptr \<Rightarrow> sys \<Rightarrow> sys option" where
  "ngx_http_rn_log_handler env r s =
     do { q \<leftarrow> reqs s r;
          if \<not> is_main q then Some s
          else case slot q of
            None \<Rightarrow> Some s
          | Some c \<Rightarrow>
              do { x \<leftarrow> ctxs s c;
                   if \<not> lat_report_enabled x \<or> lat_report_sent x then Some s
                   else if conn_timedout q \<or> conn_error q \<or> conn_destroyed q
                   then upd_ctx c (\<lambda>x. x\<lparr>admission_outcome := RN_ADMISSION_ABORTED,
                     completion_cause := RN_COMPLETION_CLIENT_ABORT, lat_report_sent := True\<rparr>) s
                   else if admission_outcome x \<noteq> RN_ADMISSION_NONE
                     \<and> admission_outcome x \<noteq> RN_ADMISSION_VALID_ALLOW
                     \<and> admission_outcome x \<noteq> RN_ADMISSION_FAIL_OPEN
                   then upd_ctx c (lat_report_sent_update (\<lambda>_. True)) s
                   else if \<not> ctx_worker x then upd_ctx c (lat_report_sent_update (\<lambda>_. True)) s
                   else do {
                     w \<leftarrow> worker s;
                     if client w = None then upd_ctx c (lat_report_sent_update (\<lambda>_. True)) s
                     else case log_time env of
                       None \<Rightarrow> upd_ctx c (lat_report_sent_update (\<lambda>_. True)) s
                     | Some tp \<Rightarrow>
                         let rep = (lat_report x)\<lparr>observed_latency := observed_ms q tp\<rparr> in
                         upd_ctx c (\<lambda>x. x\<lparr>lat_report := rep, lat_report_sent := True\<rparr>)
                           (s\<lparr>reports := reports s @ [(r, rep)]\<rparr>) } } }"

end
