(* ===== verification/Request_System.thy ===== *)
theory Request_System
  imports Request
begin

text \<open>
  The events of a worker process as a step relation: what nginx does with a request, what the
  client delivers, the timers.  \<open>exec\<close> runs the module's code for one event and is \<open>None\<close> when
  that code touches freed memory or a dead handle; \<open>enabled_event\<close> is what nginx and the client
  guarantee about when an event comes.

  Of nginx it assumes: a request that is suspended in a phase is not redirected internally, no
  handler runs for a request it has terminated, it frees a request after running its cleanup
  handlers and the log phase, and a timer that is not set does not fire.  Of the client (items
  2 and 5 of its lifecycle contract in \<open>docs/c-client.md\<close>): a new handle is not live, and only
  live handles complete.
\<close>

subsection \<open>What nginx does with one request\<close>

text \<open>
  Entering the pre-content handler, reading the verdict variable, an internal redirect to
  another location, a change of the connection's flags, another write handler, nginx's own
  references, termination, and the release of the request.
\<close>

datatype phase_event =
    Enter handler_env
  | Read_verdict
  | Redirect rn_loc_conf_t
  | Connection_flags bool bool bool
  | Write_handler event_handler
  | Take_ref
  | Drop_ref
  | Terminate
  | Free_request log_env

fun run_cleanups :: "cleanup list \<Rightarrow> sys \<Rightarrow> sys option" where
  "run_cleanups [] s = Some s"
| "run_cleanups (Other_cleanup # cs) s = run_cleanups cs s"
| "run_cleanups (Rn_request_cleanup c # cs) s = do { s \<leftarrow> rn_request_cleanup c s; run_cleanups cs s }"

definition cleanup_request :: "request_ptr \<Rightarrow> sys \<Rightarrow> sys option" where
  "cleanup_request r s =
     do { q \<leftarrow> reqs s r;
          s \<leftarrow> upd_req r (\<lambda>q. q\<lparr>cleanups := [], terminated := True\<rparr>) s;
          run_cleanups (cleanups q) s }"

text \<open>Destroying the pool under an armed timer would leave the timer tree with a dead event.\<close>

definition no_timer_in :: "request_ptr \<Rightarrow> sys \<Rightarrow> bool" where
  "no_timer_in r s \<longleftrightarrow> list_all (\<lambda>c. case ctxs s c of
     None \<Rightarrow> True | Some x \<Rightarrow> ctx_pool x \<noteq> r \<or> timer x = None) [0..<next_ctx s]"

definition free_pool :: "request_ptr \<Rightarrow> sys \<Rightarrow> sys option" where
  "free_pool r s =
     (if no_timer_in r s
      then Some (s\<lparr>reqs := (reqs s)(r := None),
        ctxs := (\<lambda>c. case ctxs s c of None \<Rightarrow> None
          | Some x \<Rightarrow> if ctx_pool x = r then None else Some x)\<rparr>)
      else None)"

fun phase_exec :: "request_ptr \<Rightarrow> phase_event \<Rightarrow> sys \<Rightarrow> sys option" where
  "phase_exec r (Enter env) s = map_option snd (ngx_http_rn_handler env r s)"
| "phase_exec r Read_verdict s = map_option snd (ngx_http_rn_verdict_variable r s)"
| "phase_exec r (Redirect l) s = upd_req r (\<lambda>q. q\<lparr>slot := None, loc_conf := l\<rparr>) s"
| "phase_exec r (Connection_flags t e d) s =
     upd_req r (\<lambda>q. q\<lparr>conn_timedout := t, conn_error := e, conn_destroyed := d\<rparr>) s"
| "phase_exec r (Write_handler w) s = upd_req r (\<lambda>q. q\<lparr>write_handler := w\<rparr>) s"
| "phase_exec r Take_ref s = upd_req r (\<lambda>q. q\<lparr>refcount := refcount q + 1, own_refs := own_refs q + 1\<rparr>) s"
| "phase_exec r Drop_ref s = upd_req r (\<lambda>q. q\<lparr>refcount := refcount q - 1, own_refs := own_refs q - 1\<rparr>) s"
| "phase_exec r Terminate s = cleanup_request r s"
| "phase_exec r (Free_request env) s =
     do { s \<leftarrow> cleanup_request r s; s \<leftarrow> ngx_http_rn_log_handler env r s; free_pool r s }"

definition suspended :: "sys \<Rightarrow> http_request \<Rightarrow> bool" where
  "suspended s q \<longleftrightarrow>
     (case slot q of None \<Rightarrow> False
      | Some c \<Rightarrow> (case ctxs s c of None \<Rightarrow> False | Some x \<Rightarrow> waiting x))"

fun phase_allowed :: "phase_event \<Rightarrow> http_request \<Rightarrow> sys \<Rightarrow> bool" where
  "phase_allowed (Enter env) q s = (\<not> terminated q \<and> handles s (snd (start_answer env)) = None)"
| "phase_allowed (Redirect l) q s = (\<not> terminated q \<and> \<not> suspended s q)"
| "phase_allowed Drop_ref q s = (own_refs q > 0)"
| "phase_allowed e q s = True"

definition phase_enabled :: "request_ptr \<Rightarrow> phase_event \<Rightarrow> sys \<Rightarrow> bool" where
  "phase_enabled r e s = (case reqs s r of None \<Rightarrow> False | Some q \<Rightarrow> phase_allowed e q s)"

text \<open>
  \<open>ngx_http_core_run_phases\<close> and the drain of posted requests: some sequence of phase events of
  the request, which may free it.  An event that cannot come is skipped.
\<close>

fun resume_phases :: "phase_event list \<Rightarrow> request_ptr \<Rightarrow> sys \<Rightarrow> sys option" where
  "resume_phases [] r s = Some s"
| "resume_phases (e # es) r s =
     (if phase_enabled r e s then do { s \<leftarrow> phase_exec r e s; resume_phases es r s }
      else resume_phases es r s)"

subsection \<open>The events of the process\<close>

datatype event =
    New_request bool rn_loc_conf_t u64 u64
  | Phase request_ptr phase_event
  | Complete client_req rclient_status "r_rate_limit_result_t option" "phase_event list"
  | Timer_fires ctx_ptr timeout_env "phase_event list"
  | Feedback bool
  | Rebind_fires sock_env
  | Read_mark bool

fun exec :: "event \<Rightarrow> sys \<Rightarrow> sys option" where
  "exec (New_request main_request l sec msec) s =
     Some (s\<lparr>next_req := next_req s + 1, reqs := (reqs s)(next_req s \<mapsto>
       \<lparr>slot = None, cleanups = [], is_main = main_request, refcount = 1, own_refs = 1, loc_conf = l,
        conn_timedout = False, conn_error = False, conn_destroyed = False, start_sec = sec,
        start_msec = msec, read_handler = Other_handler, write_handler = Ngx_http_core_run_phases,
        terminated = False\<rparr>)\<rparr>)"
| "exec (Phase r e) s = phase_exec r e s"
| "exec (Complete h status result es) s =
     do { r \<leftarrow> handles s h;
          rn_rate_cb (resume_phases es) (Some r) h status result (s\<lparr>handles := (handles s)(h := None)\<rparr>) }"
| "exec (Timer_fires c env es) s =
     do { s \<leftarrow> upd_ctx c (timer_update (\<lambda>_. None)) s;
          rn_request_timeout_handler env (resume_phases es) c s }"
| "exec (Feedback keep_port) s = upd_worker (rn_on_steering_feedback keep_port) s"
| "exec (Rebind_fires env) s =
     do { w \<leftarrow> worker s;
          let (w', h') = rn_rebind_handler env (w\<lparr>rebind_event := None\<rparr>) (os s);
          Some (s\<lparr>worker := Some w', os := h'\<rparr>) }"
| "exec (Read_mark b) s = upd_worker (udp_read_active_update (\<lambda>_. b)) s"

fun enabled_event :: "event \<Rightarrow> sys \<Rightarrow> bool" where
  "enabled_event (New_request main_request l sec msec) s = True"
| "enabled_event (Phase r e) s = phase_enabled r e s"
| "enabled_event (Complete h status result es) s = (handles s h \<noteq> None)"
| "enabled_event (Timer_fires c env es) s =
     (case ctxs s c of None \<Rightarrow> False | Some x \<Rightarrow> timer x \<noteq> None)"
| "enabled_event (Feedback keep_port) s = (worker s \<noteq> None)"
| "enabled_event (Rebind_fires env) s =
     (case worker s of None \<Rightarrow> False | Some w \<Rightarrow> rebind_event w \<noteq> None)"
| "enabled_event (Read_mark b) s = (worker s \<noteq> None)"

inductive step :: "sys \<Rightarrow> event \<Rightarrow> sys \<Rightarrow> bool" where
  step: "enabled_event e s \<Longrightarrow> exec e s = Some s' \<Longrightarrow> step s e s'"

inductive_cases stepE: "step s e s'"

inductive_simps step_iff: "step s e s'"

text \<open>A worker process that has just started: no worker context, no requests.\<close>

definition initial :: "rn_main_conf_t \<Rightarrow> sys \<Rightarrow> bool" where
  "initial m s \<longleftrightarrow> mcf s = m \<and> worker s = None \<and> os s = empty_heap \<and> ctxs s = (\<lambda>_. None)
     \<and> next_ctx s = 0 \<and> next_req s = 0 \<and> reqs s = (\<lambda>_. None) \<and> handles s = (\<lambda>_. None)
     \<and> checks s = [] \<and> reports s = []"

inductive reachable :: "rn_main_conf_t \<Rightarrow> sys \<Rightarrow> bool" for m where
  start: "initial m s \<Longrightarrow> reachable m s"
| next_step: "reachable m s \<Longrightarrow> step s e s' \<Longrightarrow> reachable m s'"

end
