(* ===== verification/Worker_Facts.thy ===== *)
theory Worker_Facts
  imports Worker
begin

text \<open>
  What the worker's operations guarantee: no object leaks and none is released twice on any
  path, the credential is zeroed before its buffer goes back to the allocator, retries back
  off, a failed rebind keeps the endpoint, and a pending rebind always has its event armed.
\<close>

subsection \<open>Objects the worker owns\<close>

definition endpoint_ok :: "rn_worker_ctx_t \<Rightarrow> os_heap \<Rightarrow> bool" where
  "endpoint_ok w h \<longleftrightarrow>
     (case (udp_fd w, udp_conn w) of
        (Some s, Some c) \<Rightarrow> blocks h s = Some (Socket (udp_family w)) \<and> blocks h c = Some (Connection s)
      | (None, None) \<Rightarrow> True
      | _ \<Rightarrow> False)"

definition owns :: "rn_worker_ctx_t \<Rightarrow> os_heap \<Rightarrow> bool" where
  "owns w h \<longleftrightarrow> heap_ok h \<and> blocks h (self w) = Some Worker_struct \<and> endpoint_ok w h
     \<and> (case client w of None \<Rightarrow> True | Some c \<Rightarrow> \<exists>k. blocks h c = Some (Client k))"

definition endpoint_of :: "rn_worker_ctx_t \<Rightarrow> ptr set" where
  "endpoint_of w = set_option (udp_fd w) \<union> set_option (udp_conn w)"

definition objects_of :: "rn_worker_ctx_t \<Rightarrow> ptr set" where
  "objects_of w = insert (self w) (set_option (client w) \<union> endpoint_of w)"

abbreviation without :: "ptr set \<Rightarrow> (ptr \<Rightarrow> obj option) \<Rightarrow> ptr \<Rightarrow> obj option" where
  "without S m \<equiv> (\<lambda>p. if p \<in> S then None else m p)"

text \<open>What was freed between two heaps satisfies \<open>P\<close>.\<close>

definition freed_only :: "(obj \<Rightarrow> bool) \<Rightarrow> os_heap \<Rightarrow> os_heap \<Rightarrow> bool" where
  "freed_only P h h' \<longleftrightarrow> (\<exists>new. freed h' = new @ freed h \<and> list_all (\<lambda>(p, v). P v) new)"

lemma freed_only_refl [simp]: "freed_only P h h"
  by (simp add: freed_only_def)

lemma freed_only_same: "freed h' = freed h \<Longrightarrow> freed_only P h h'"
  by (simp add: freed_only_def)

lemma freed_only_trans: "freed_only P h h' \<Longrightarrow> freed_only P h' h'' \<Longrightarrow> freed_only P h h''"
  by (force simp: freed_only_def)

text \<open>No object but a buffer of bytes has contents to protect.\<close>

definition no_bytes :: "obj \<Rightarrow> bool" where
  "no_bytes v \<longleftrightarrow> (case v of Bytes _ \<Rightarrow> False | _ \<Rightarrow> True)"

lemma freed_only_weaken: "freed_only P h h' \<Longrightarrow> (\<And>v. P v \<Longrightarrow> Q v) \<Longrightarrow> freed_only Q h h'"
  by (auto simp: freed_only_def elim!: list.pred_mono_strong)

text \<open>The effect of one allocation and of one release on all that is tracked.\<close>

lemma alloc_step:
  assumes "heap_ok h" and "ngx_alloc ok v h = (Some p, h')"
  shows "heap_ok h'" and "blocks h p = None" and "blocks h' = (blocks h)(p \<mapsto> v)" and "freed_only P h h'"
  using alloc_Some [OF assms] by (auto simp: freed_only_same)

lemma free_step:
  assumes "heap_ok h" and "blocks h p = Some v" and "P v"
  shows "heap_ok (ngx_free p h)" and "blocks (ngx_free p h) = (blocks h)(p := None)"
    and "freed_only P h (ngx_free p h)"
  using free_live [OF assms(1,2)] assms(3) by (auto simp: freed_only_def)

lemma close_connection_step:
  assumes "heap_ok h" and "blocks h c = Some (Connection s)" and "blocks h s = Some (Socket f)"
  shows "heap_ok (ngx_close_connection c h)" and "blocks (ngx_close_connection c h) = without {s, c} (blocks h)"
    and "freed_only no_bytes h (ngx_close_connection c h)"
proof -
  have P: "no_bytes (Socket f)" "no_bytes (Connection s)" by (simp_all add: no_bytes_def)
  note a = free_step [where P = no_bytes, OF assms(1,3) P(1)]
  have "s \<noteq> c" using assms by auto
  then have "blocks (ngx_free s h) c = Some (Connection s)" using assms by (simp add: a)
  note b = free_step [where P = no_bytes, OF a(1) this P(2)]
  have eq: "ngx_close_connection c h = ngx_free c (ngx_free s h)"
    by (simp add: ngx_close_connection_def assms)
  show "heap_ok (ngx_close_connection c h)" by (simp add: eq b)
  show "blocks (ngx_close_connection c h) = without {s, c} (blocks h)" by (auto simp: eq b a fun_eq_iff)
  show "freed_only no_bytes h (ngx_close_connection c h)"
    unfolding eq by (rule freed_only_trans [OF a(3) b(3)])
qed

lemma close_endpoint_step:
  assumes "heap_ok h" and "endpoint_ok w h"
  shows "heap_ok (rn_close_udp_endpoint (udp_conn w) (udp_fd w) h)"
    and "blocks (rn_close_udp_endpoint (udp_conn w) (udp_fd w) h) = without (endpoint_of w) (blocks h)"
    and "freed_only no_bytes h (rn_close_udp_endpoint (udp_conn w) (udp_fd w) h)"
  using assms close_connection_step [OF assms(1)]
  by (auto simp: endpoint_ok_def rn_close_udp_endpoint_def endpoint_of_def split: option.splits)

subsection \<open>The socket candidate\<close>

lemma candidate_socket_step:
  assumes ok: "heap_ok h" and run: "candidate_socket env w h = (s, f, h1)"
  shows "heap_ok h1 \<and> freed h1 = freed h \<and>
    (case s of None \<Rightarrow> blocks h1 = blocks h
     | Some p \<Rightarrow> blocks h p = None \<and> blocks h1 = (blocks h)(p \<mapsto> Socket f))"
proof -
  let ?f0 = "if worker_bind_socklen w \<noteq> 0 then sa_family (worker_bind_sockaddr w) else AF_INET6"
  obtain s0 g where a: "ngx_alloc (socket_ok env ?f0) (Socket ?f0) h = (s0, g)" by fastforce
  show ?thesis
  proof (cases s0)
    case (Some p)
    with run a have "s = Some p" "f = ?f0" "h1 = g" by (auto simp: candidate_socket_def Let_def)
    with alloc_Some [OF ok a [unfolded Some]] show ?thesis by auto
  next
    case None
    then have "g = h" using a by simp
    show ?thesis
    proof (cases "worker_bind_socklen w = 0")
      case True
      obtain s1 g1 where b: "ngx_alloc (socket_ok env AF_INET) (Socket AF_INET) h = (s1, g1)" by fastforce
      then have eq: "s = s1" "f = AF_INET" "h1 = g1"
        using run a None True \<open>g = h\<close> by (auto simp: candidate_socket_def Let_def)
      show ?thesis
      proof (cases s1)
        case (Some p)
        with alloc_Some [OF ok b [unfolded Some]] eq show ?thesis by auto
      qed (use b eq ok in simp)
    next
      case False
      then have "s = None" "h1 = h" using run a None \<open>g = h\<close> by (auto simp: candidate_socket_def Let_def)
      with ok show ?thesis by simp
    qed
  qed
qed

text \<open>A candidate is a new socket with its connection, or nothing that stays allocated.\<close>

lemma open_candidate_step:
  assumes ok: "heap_ok h" and run: "rn_open_socket_candidate env w h = ((rc, fd, f, conn), h')"
  shows "heap_ok h' \<and> freed_only no_bytes h h' \<and>
    (if rc = NGX_OK
     then (\<exists>s c. fd = Some s \<and> conn = Some c \<and> s \<noteq> c \<and> blocks h s = None \<and> blocks h c = None
       \<and> blocks h' = (blocks h)(s \<mapsto> Socket f, c \<mapsto> Connection s))
     else rc = NGX_ERROR \<and> fd = None \<and> f = AF_UNSPEC \<and> conn = None \<and> blocks h' = blocks h)"
proof -
  obtain s0 f0 h1 where cs: "candidate_socket env w h = (s0, f0, h1)" by (metis prod_cases3)
  note c = candidate_socket_step [OF ok cs]
  show ?thesis
  proof (cases s0)
    case None
    with run cs c show ?thesis
      by (auto simp: rn_open_socket_candidate_def no_candidate_def freed_only_same)
  next
    case (Some s)
    with c have h1: "heap_ok h1" "freed h1 = freed h" "blocks h s = None"
      "blocks h1 = (blocks h)(s \<mapsto> Socket f0)" by auto
    have sock: "blocks h1 s = Some (Socket f0)" by (simp add: h1)
    have plain: "no_bytes (Socket f0)" by (simp add: no_bytes_def)
    note free = free_step [where P = no_bytes, OF h1(1) sock plain]
    have start: "freed_only no_bytes h h1" by (simp add: freed_only_same h1)
    have undone: "heap_ok (ngx_free s h1) \<and> freed_only no_bytes h (ngx_free s h1)
        \<and> blocks (ngx_free s h1) = blocks h"
      using free h1 freed_only_trans [OF start free(3)] by (auto simp: fun_eq_iff)
    obtain ss slen where addr: "candidate_address w f0 = (ss, slen)" by fastforce
    obtain c0 h2 where al: "ngx_alloc (get_connection_ok env) (Connection s) h1 = (c0, h2)" by fastforce
    consider "(rc, fd, f, conn) = no_candidate" "h' = ngx_free s h1"
      | c where "c0 = Some c" "\<not> add_event_ok env" "(rc, fd, f, conn) = no_candidate"
          "h' = ngx_close_connection c h2"
      | c where "c0 = Some c" "rc = NGX_OK" "fd = Some s" "f = f0" "conn = Some c" "h' = h2"
      using run cs Some addr al
      by (cases c0) (auto simp: rn_open_socket_candidate_def split: if_split_asm)
    then show ?thesis
    proof cases
      case 1
      with undone show ?thesis by (auto simp: no_candidate_def)
    next
      case (2 c)
      note a = alloc_step [OF h1(1) al [unfolded 2(1)]]
      have "s \<noteq> c" using a(2) sock by auto
      then have "blocks h2 c = Some (Connection s)" "blocks h2 s = Some (Socket f0)"
        using sock by (simp_all add: a)
      note d = close_connection_step [OF a(1) this]
      have "freed_only no_bytes h h'"
        using freed_only_trans [OF freed_only_trans [OF start a(4)] d(3)] 2 by simp
      moreover have "blocks h' = blocks h" using 2(4) d(2) a h1 by (auto simp: fun_eq_iff split: if_split_asm)
      ultimately show ?thesis using 2 d(1) by (auto simp: no_candidate_def)
    next
      case (3 c)
      note a = alloc_step [OF h1(1) al [unfolded 3(1)]]
      have "s \<noteq> c" "blocks h c = None" using a(2) h1 by (auto split: if_split_asm)
      with 3 a h1 freed_only_trans [OF start a(4)] show ?thesis by auto
    qed
  qed
qed

subsection \<open>Destruction\<close>

lemma owned_distinct:
  assumes "owns w h"
  shows "self w \<notin> set_option (client w) \<union> endpoint_of w" and "set_option (client w) \<inter> endpoint_of w = {}"
  using assms by (auto simp: owns_def endpoint_ok_def endpoint_of_def split: option.splits)

lemma endpoint_live: "owns w h \<Longrightarrow> endpoint_of w \<subseteq> live h"
  by (auto simp: owns_def endpoint_ok_def endpoint_of_def split: option.splits)

lemma cleanup_step:
  assumes "owns w h" and "rn_worker_cleanup w h = (w', h')"
  shows "heap_ok h' \<and> blocks h' = without (objects_of w - {self w}) (blocks h) \<and> freed_only no_bytes h h'
    \<and> self w' = self w \<and> client w' = None \<and> udp_fd w' = None \<and> udp_conn w' = None
    \<and> inflight w' = 0 \<and> \<not> rebind_pending w' \<and> \<not> rebind_scheduled w' \<and> rebind_event w' = None"
proof -
  have ok: "heap_ok h" and ep: "endpoint_ok w h" using assms(1) by (simp_all add: owns_def)
  have ids: "objects_of w - {self w} = set_option (client w) \<union> endpoint_of w"
    using owned_distinct [OF assms(1)] by (auto simp: objects_of_def)
  define h1 where "h1 = (case client w of Some c \<Rightarrow> r_client_destroy c h | None \<Rightarrow> h)"
  have h1: "heap_ok h1 \<and> blocks h1 = without (set_option (client w)) (blocks h) \<and> freed_only no_bytes h h1"
  proof (cases "client w")
    case (Some c)
    then obtain k where "blocks h c = Some (Client k)" using assms(1) by (auto simp: owns_def)
    from free_step [where P = no_bytes, OF ok this] Some show ?thesis
      by (auto simp: h1_def r_client_destroy_def no_bytes_def fun_eq_iff)
  qed (simp add: h1_def ok)
  have "endpoint_ok w h1"
    using ep h1 owned_distinct(2) [OF assms(1)]
    by (auto simp: endpoint_ok_def endpoint_of_def split: option.splits)
  note c = close_endpoint_step [OF conjunct1 [OF h1] this]
  have "h' = rn_close_udp_endpoint (udp_conn w) (udp_fd w) h1" and "self w' = self w"
    "client w' = None" "udp_fd w' = None" "udp_conn w' = None" "inflight w' = 0"
    "\<not> rebind_pending w'" "\<not> rebind_scheduled w'" "rebind_event w' = None"
    using assms(2) by (auto simp: rn_worker_cleanup_def Let_def h1_def)
  with c h1 freed_only_trans [of no_bytes h h1] show ?thesis by (auto simp: ids fun_eq_iff)
qed

subsection \<open>Replacement of the endpoint\<close>

lemma rebind_step:
  assumes own: "owns w h" and run: "rn_rebind_socket env w h = (rc, w', h')"
  shows "owns w' h' \<and> self w' = self w \<and> client w' = client w \<and>
    (if rc = NGX_OK
     then (\<exists>s c. s \<noteq> c \<and> udp_fd w' = Some s \<and> udp_conn w' = Some c \<and> blocks h s = None \<and> blocks h c = None
       \<and> blocks h' = (without (endpoint_of w) (blocks h))(s \<mapsto> Socket (udp_family w'), c \<mapsto> Connection s)
       \<and> w' = w\<lparr>udp_fd := Some s, udp_family := udp_family w', udp_conn := Some c, rebind_pending := False\<rparr>)
     else rc = NGX_ERROR \<and> w' = w \<and> blocks h' = blocks h)"
proof -
  have ok: "heap_ok h" using own by (simp add: owns_def)
  obtain rc1 fd f conn h1 where cand: "rn_open_socket_candidate env w h = ((rc1, fd, f, conn), h1)"
    by (metis prod.collapse)
  note o = open_candidate_step [OF ok cand]
  show ?thesis
  proof (cases "rc1 = NGX_OK")
    case False
    then have "rc = NGX_ERROR" "w' = w" "h' = h1" using run cand by (simp_all add: rn_rebind_socket_def)
    with o False own show ?thesis by (auto simp: owns_def endpoint_ok_def split: option.splits)
  next
    case True
    then obtain s c where sc: "fd = Some s" "conn = Some c" "s \<noteq> c" "blocks h s = None" "blocks h c = None"
      "blocks h1 = (blocks h)(s \<mapsto> Socket f, c \<mapsto> Connection s)" using o by auto
    have ep: "endpoint_ok w h1"
      using own sc by (auto simp: owns_def endpoint_ok_def split: option.splits)
    note cl = close_endpoint_step [OF conjunct1 [OF o] ep]
    have res: "rc = NGX_OK" "h' = rn_close_udp_endpoint (udp_conn w) (udp_fd w) h1"
      "w' = w\<lparr>udp_fd := Some s, udp_family := f, udp_conn := Some c, rebind_pending := False\<rparr>"
      using run cand True sc by (simp_all add: rn_rebind_socket_def)
    have new: "s \<notin> endpoint_of w" "c \<notin> endpoint_of w"
      using own sc by (auto simp: owns_def endpoint_ok_def endpoint_of_def split: option.splits)
    have b: "blocks h' = (without (endpoint_of w) (blocks h))(s \<mapsto> Socket f, c \<mapsto> Connection s)"
      using res cl(2) sc new by (auto simp: fun_eq_iff)
    have "owns w' h'"
      using own owned_distinct [OF own] cl(1) sc new unfolding owns_def endpoint_ok_def b
      by (auto simp: res split: option.splits)
    with res sc b show ?thesis by auto
  qed
qed

subsection \<open>The configuration buffers\<close>

text \<open>
  The two temporary buffers of \<open>rn_worker_init\<close>: the tenant name, and the credential with its
  terminator.  A buffer that is freed either holds the tenant name or nothing but NULs.
\<close>

definition buffers_ok :: "rn_main_conf_t \<Rightarrow> ptr option \<Rightarrow> ptr option \<Rightarrow> os_heap \<Rightarrow> bool" where
  "buffers_ok m dns secret h \<longleftrightarrow>
     (case dns of None \<Rightarrow> True | Some p \<Rightarrow> blocks h p = Some (Bytes (str_of (tenant_dns m) @ [nul])))
     \<and> (case secret of None \<Rightarrow> True
        | Some p \<Rightarrow> blocks h p = Some (Bytes (str_of (auth_key m) @ [nul])) \<and> dns \<noteq> Some p)"

definition harmless :: "rn_main_conf_t \<Rightarrow> obj \<Rightarrow> bool" where
  "harmless m v \<longleftrightarrow>
     (case v of Bytes s \<Rightarrow> s = str_of (tenant_dns m) @ [nul] \<or> set s \<subseteq> {nul} | _ \<Rightarrow> True)"

lemma no_bytes_harmless: "no_bytes v \<Longrightarrow> harmless m v"
  by (simp add: no_bytes_def harmless_def split: obj.splits)

lemma freed_plain: "freed_only no_bytes h h' \<Longrightarrow> freed_only (harmless m) h h'"
  by (erule freed_only_weaken) (rule no_bytes_harmless)

lemma release_step:
  assumes ok: "heap_ok h" and bufs: "buffers_ok m dns secret h"
    and run: "rn_worker_release_config_buffers w dns secret
      (length (str_of (auth_key m)) + (if secret \<noteq> None then 1 else 0)) h = (w', h')"
  shows "heap_ok h' \<and> blocks h' = without (set_option dns \<union> set_option secret) (blocks h)
    \<and> freed_only (harmless m) h h'
    \<and> w' = w\<lparr>cfg_dns_name := None, cfg_secret := None, cfg_secret_len := 0\<rparr>"
proof -
  define h1 where "h1 = (case secret of None \<Rightarrow> h
    | Some p \<Rightarrow> ngx_free p (explicit_memzero p (length (str_of (auth_key m)) + 1) h))"
  have h1: "heap_ok h1 \<and> blocks h1 = without (set_option secret) (blocks h) \<and> freed_only (harmless m) h h1"
  proof (cases secret)
    case (Some p)
    let ?z = "Bytes (replicate (length (str_of (auth_key m)) + 1) nul)"
    have p: "blocks h p = Some (Bytes (str_of (auth_key m) @ [nul]))"
      using bufs Some by (simp add: buffers_ok_def)
    then have "explicit_memzero p (length (str_of (auth_key m)) + 1) h = store p ?z h"
      by (simp add: explicit_memzero_def)
    with Some have eq: "h1 = ngx_free p (store p ?z h)" by (simp add: h1_def)
    note s = store_live [OF ok p, of ?z]
    have "blocks (store p ?z h) p = Some ?z" by (simp only: s(3) fun_upd_same)
    moreover have "harmless m ?z" by (auto simp: harmless_def)
    ultimately have f: "heap_ok h1" "blocks h1 = (blocks (store p ?z h))(p := None)"
      "freed_only (harmless m) (store p ?z h) h1"
      unfolding eq by (rule free_step [where P = "harmless m", OF s(1)])+
    have "freed_only (harmless m) h h1"
      by (rule freed_only_trans [OF freed_only_same [OF s(4)] f(3)])
    with f s Some show ?thesis by (auto simp: fun_eq_iff)
  qed (simp add: h1_def ok)
  have h': "h' = (case dns of None \<Rightarrow> h1 | Some p \<Rightarrow> ngx_free p h1)"
    and w': "w' = w\<lparr>cfg_dns_name := None, cfg_secret := None, cfg_secret_len := 0\<rparr>"
    using run by (auto simp: rn_worker_release_config_buffers_def Let_def h1_def split: option.splits)
  show ?thesis
  proof (cases dns)
    case (Some p)
    have p: "blocks h1 p = Some (Bytes (str_of (tenant_dns m) @ [nul]))"
      using bufs Some h1 by (auto simp: buffers_ok_def split: option.splits)
    note f = free_step [where P = "harmless m", OF conjunct1 [OF h1] p]
    have "harmless m (Bytes (str_of (tenant_dns m) @ [nul]))" by (simp add: harmless_def)
    with f h1 Some freed_only_trans [of "harmless m" h h1 h'] show ?thesis
      by (auto simp: h' w' fun_eq_iff)
  qed (use h1 h' w' in simp)
qed

subsection \<open>Initialisation\<close>

text \<open>
  The state before a failure: \<open>h0\<close> is the heap at the call of \<open>rn_worker_init\<close>; what is live
  beyond it is the worker's objects and the two buffers.
\<close>

definition started ::
  "rn_main_conf_t \<Rightarrow> os_heap \<Rightarrow> rn_worker_ctx_t \<Rightarrow> ptr option \<Rightarrow> ptr option \<Rightarrow> os_heap \<Rightarrow> bool" where
  "started m h0 w dns secret h \<longleftrightarrow>
     owns w h \<and> buffers_ok m dns secret h
     \<and> blocks h0 = without (objects_of w \<union> set_option dns \<union> set_option secret) (blocks h)
     \<and> freed_only (harmless m) h0 h"

lemma buffers_apart:
  assumes "owns w h" and "buffers_ok m dns secret h"
  shows "(set_option dns \<union> set_option secret) \<inter> objects_of w = {}"
  using assms
  by (auto simp: owns_def buffers_ok_def objects_of_def endpoint_of_def endpoint_ok_def split: option.splits)

lemma owns_after_release:
  assumes "owns w h" and "set_option dns \<union> set_option secret = S" and "S \<inter> objects_of w = {}"
    and "heap_ok h'" and "blocks h' = without S (blocks h)"
  shows "owns (w\<lparr>cfg_dns_name := None, cfg_secret := None, cfg_secret_len := 0\<rparr>) h'"
  using assms
  by (auto simp: owns_def objects_of_def endpoint_of_def endpoint_ok_def split: option.splits)

lemma failed_step:
  assumes st: "started m h0 w dns secret h"
    and run: "worker_failed m w dns secret h = (rc, w', h')"
  shows "rc = NGX_ERROR \<and> w' = None \<and> heap_ok h' \<and> blocks h' = blocks h0 \<and> freed_only (harmless m) h0 h'"
proof -
  have own: "owns w h" and bufs: "buffers_ok m dns secret h" using st by (simp_all add: started_def)
  have ok: "heap_ok h" using own by (simp add: owns_def)
  obtain w1 h1 where rel: "rn_worker_release_config_buffers w dns secret
      (length (str_of (auth_key m)) + (if secret \<noteq> None then 1 else 0)) h = (w1, h1)" by fastforce
  note r = release_step [OF ok bufs rel]
  have own1: "owns w1 h1"
    using owns_after_release [OF own refl buffers_apart [OF own bufs]] r by auto
  obtain w2 h2 where cl: "rn_worker_cleanup w1 h1 = (w2, h2)" by fastforce
  note c = cleanup_step [OF own1 cl]
  have obj: "objects_of w1 = objects_of w" "self w1 = self w"
    using r by (auto simp: objects_of_def endpoint_of_def)
  have self: "blocks h2 (self w2) = Some Worker_struct"
    using own1 c by (simp add: owns_def)
  note f = free_step [where P = "harmless m", OF conjunct1 [OF c] self]
  have res: "rc = NGX_ERROR" "w' = None" "h' = ngx_free (self w2) h2"
    using run rel cl c by (auto simp: worker_failed_def free_worker_def)
  have "blocks h' = without (objects_of w \<union> set_option dns \<union> set_option secret) (blocks h)"
    using res f c r obj by (auto simp: fun_eq_iff harmless_def objects_of_def)
  moreover have "freed_only (harmless m) h0 h'"
    using st r freed_plain [of h1 h2 m] c f res(3)
      freed_only_trans [of "harmless m" h0 h h1] freed_only_trans [of "harmless m" h0 h1 h2]
      freed_only_trans [of "harmless m" h0 h2 h']
    by (auto simp: started_def harmless_def)
  ultimately show ?thesis using st res f by (auto simp: started_def harmless_def)
qed

text \<open>What a successful initialisation publishes.\<close>

definition ready :: "rn_main_conf_t \<Rightarrow> rn_worker_ctx_t \<Rightarrow> bool" where
  "ready m w \<longleftrightarrow> client w \<noteq> None \<and> udp_fd w \<noteq> None \<and> udp_conn w \<noteq> None
     \<and> cfg_dns_name w = None \<and> cfg_secret w = None \<and> cfg_secret_len w = 0
     \<and> worker_policy w = request_policy m \<and> worker_resolver w = resolver m
     \<and> worker_resolver_timeout w = resolver_timeout m
     \<and> inflight w = 0 \<and> \<not> rebind_pending w \<and> \<not> rebind_scheduled w \<and> rebind_event w = None
     \<and> \<not> udp_read_active w"

text \<open>The fields that no step before the last one of the initialisation touches.\<close>

definition fresh_worker :: "rn_main_conf_t \<Rightarrow> rn_worker_ctx_t \<Rightarrow> bool" where
  "fresh_worker m w \<longleftrightarrow> client w = None \<and> udp_fd w = None \<and> udp_conn w = None
     \<and> worker_resolver w = resolver m \<and> worker_resolver_timeout w = resolver_timeout m
     \<and> inflight w = 0 \<and> \<not> rebind_pending w \<and> \<not> rebind_scheduled w \<and> rebind_event w = None
     \<and> \<not> udp_read_active w"

text \<open>The configuration of the client, and how the worker's pointers lead to it before the creation.\<close>

definition client_of :: "rn_main_conf_t \<Rightarrow> client_config" where
  "client_of m = \<lparr>given_dns = c_string (str_of (tenant_dns m)), given_key_id = key_id m, given_auth_type = auth_type m,
     given_secret = (if str_of (auth_key m) = [] then None else Some (str_of (auth_key m))),
     given_policy = request_policy m\<rparr>"

definition has_client :: "rn_main_conf_t \<Rightarrow> rn_worker_ctx_t \<Rightarrow> os_heap \<Rightarrow> bool" where
  "has_client m w h \<longleftrightarrow> (\<exists>c. client w = Some c \<and> blocks h c = Some (Client (client_of m)))"

definition configured :: "rn_main_conf_t \<Rightarrow> rn_worker_ctx_t \<Rightarrow> ptr option \<Rightarrow> ptr option \<Rightarrow> bool" where
  "configured m w dns secret \<longleftrightarrow> dns \<noteq> None \<and> cfg_dns_name w = dns \<and> cfg_key_id w = key_id m
     \<and> cfg_auth_type w = auth_type m \<and> cfg_secret w = secret
     \<and> cfg_secret_len w = length (str_of (auth_key m)) \<and> (secret = None \<longleftrightarrow> str_of (auth_key m) = [])"

lemma create_client_run:
  assumes "configured m w dns secret" and "buffers_ok m dns secret h" and "worker_policy w = request_policy m"
  shows "create_client ok w h = ngx_alloc ok (Client (client_of m)) h"
proof -
  obtain p where p: "dns = Some p" "cfg_dns_name w = Some p" using assms(1) by (auto simp: configured_def)
  then have "read_name (cfg_dns_name w) h = Some (c_string (str_of (tenant_dns m)))"
    using assms(2) by (simp add: buffers_ok_def read_name_def c_string_terminated)
  moreover have "read_secret (cfg_secret w) (cfg_secret_len w) h =
      Some (if str_of (auth_key m) = [] then None else Some (str_of (auth_key m)))"
    using assms(1,2) by (auto simp: buffers_ok_def configured_def read_secret_def split: option.splits)
  ultimately show ?thesis
    using assms(1,3) by (simp add: create_client_def client_of_def configured_def)
qed

definition init_outcome ::
  "rn_main_conf_t \<Rightarrow> os_heap \<Rightarrow> ngx_rc \<Rightarrow> rn_worker_ctx_t option \<Rightarrow> os_heap \<Rightarrow> bool" where
  "init_outcome m h rc worker1 h' \<longleftrightarrow> heap_ok h' \<and> freed_only (harmless m) h h' \<and>
     (if rc = NGX_OK
      then (case worker1 of None \<Rightarrow> False
        | Some w \<Rightarrow> ready m w \<and> owns w h' \<and> has_client m w h'
          \<and> blocks h = without (objects_of w) (blocks h'))
      else rc = NGX_ERROR \<and> worker1 = None \<and> blocks h' = blocks h)"

lemma started_endpoint:
  assumes st: "started m h0 w dns secret h" and fresh: "udp_fd w = None" "udp_conn w = None"
    and cand: "rn_open_socket_candidate env w h = ((NGX_OK, fd, f, conn), h1)"
  shows "started m h0 (w\<lparr>udp_fd := fd, udp_family := f, udp_conn := conn\<rparr>) dns secret h1"
proof -
  have ok: "heap_ok h" and own: "owns w h" using st by (simp_all add: started_def owns_def)
  from open_candidate_step [OF ok cand] obtain s c where sc: "heap_ok h1" "freed_only no_bytes h h1"
    "fd = Some s" "conn = Some c" "s \<noteq> c" "blocks h s = None" "blocks h c = None"
    "blocks h1 = (blocks h)(s \<mapsto> Socket f, c \<mapsto> Connection s)" by auto
  have "freed_only (harmless m) h0 h1"
    using st freed_only_trans [OF _ freed_plain [OF sc(2)]] by (simp add: started_def)
  moreover have "owns (w\<lparr>udp_fd := fd, udp_family := f, udp_conn := conn\<rparr>) h1"
    using own sc by (auto simp: owns_def endpoint_ok_def split: option.splits)
  moreover have "buffers_ok m dns secret h1"
    using st sc by (auto simp: started_def buffers_ok_def split: option.splits)
  moreover have "blocks h0 = without (objects_of (w\<lparr>udp_fd := fd, udp_family := f, udp_conn := conn\<rparr>)
      \<union> set_option dns \<union> set_option secret) (blocks h1)"
    using st sc fresh by (auto simp: started_def objects_of_def endpoint_of_def fun_eq_iff)
  ultimately show ?thesis by (simp add: started_def)
qed

lemma started_client:
  assumes st: "started m h0 w dns secret h" and fresh: "client w = None"
    and al: "ngx_alloc ok (Client k) h = (Some c, h1)"
  shows "started m h0 (w\<lparr>client := Some c\<rparr>) dns secret h1"
proof -
  have hok: "heap_ok h" and own: "owns w h" using st by (simp_all add: started_def owns_def)
  note a = alloc_step [OF hok al]
  have "freed_only (harmless m) h0 h1"
    using st freed_only_trans [OF _ a(4)] by (auto simp: started_def)
  moreover have "owns (w\<lparr>client := Some c\<rparr>) h1"
    using own a(1-3) by (auto simp: owns_def endpoint_ok_def split: option.splits)
  moreover have "buffers_ok m dns secret h1"
    using st a(1-3) by (auto simp: started_def buffers_ok_def split: option.splits)
  moreover have "blocks h0 = without (objects_of (w\<lparr>client := Some c\<rparr>)
      \<union> set_option dns \<union> set_option secret) (blocks h1)"
    using st a(1-3) fresh by (auto simp: started_def objects_of_def endpoint_of_def fun_eq_iff)
  ultimately show ?thesis by (simp add: started_def)
qed

lemma started_cong:
  assumes "started m h0 w dns secret h" and "self w' = self w" "client w' = client w"
    "udp_fd w' = udp_fd w" "udp_conn w' = udp_conn w" "udp_family w' = udp_family w"
  shows "started m h0 w' dns secret h"
  using assms
  by (auto simp: started_def owns_def endpoint_ok_def objects_of_def endpoint_of_def split: option.splits)

lemma failed_outcome:
  "started m h0 w dns secret h \<Longrightarrow> worker_failed m w dns secret h = (rc, w', h') \<Longrightarrow>
    init_outcome m h0 rc w' h'"
  using failed_step by (fastforce simp: init_outcome_def)

text \<open>The last step: the configuration buffers go, the worker is published.\<close>

lemma published_outcome:
  assumes st: "started m h0 w dns secret h"
    and rel: "rn_worker_release_config_buffers w dns secret
      (length (str_of (auth_key m)) + (if secret \<noteq> None then 1 else 0)) h = (w', h')"
    and ready: "has_client m w h" "udp_fd w \<noteq> None" "udp_conn w \<noteq> None"
    and fresh: "fresh_worker m (w\<lparr>client := None, udp_fd := None, udp_conn := None\<rparr>)"
    and policy: "worker_policy w = request_policy m"
  shows "init_outcome m h0 NGX_OK (Some w') h'"
proof -
  have own: "owns w h" and bufs: "buffers_ok m dns secret h" and hok: "heap_ok h"
    using st by (simp_all add: started_def owns_def)
  note r = release_step [OF hok bufs rel]
  have own': "owns w' h'" using owns_after_release [OF own refl buffers_apart [OF own bufs]] r by auto
  have objs: "objects_of w' = objects_of w" using r by (simp add: objects_of_def endpoint_of_def)
  have blocks: "blocks h' = without (set_option dns \<union> set_option secret) (blocks h)" using r by simp
  have "blocks h0 = without (objects_of w') (blocks h')"
    using st unfolding objs blocks by (auto simp: started_def fun_eq_iff)
  moreover have "freed_only (harmless m) h0 h'"
    using st r freed_only_trans [of "harmless m" h0 h h'] by (auto simp: started_def)
  moreover have "ready m w'"
    using fresh r ready policy by (auto simp: ready_def fresh_worker_def has_client_def)
  moreover have "has_client m w' h'"
  proof -
    obtain c where c: "client w = Some c" "blocks h c = Some (Client (client_of m))"
      using ready(1) by (auto simp: has_client_def)
    then have "c \<notin> set_option dns \<union> set_option secret"
      using bufs by (auto simp: buffers_ok_def split: option.splits)
    with c r show ?thesis by (simp add: has_client_def)
  qed
  ultimately show ?thesis using own' r by (simp add: init_outcome_def)
qed

lemma connect_outcome:
  assumes st: "started m h0 w0 dns secret h" and fresh: "fresh_worker m w0" and cfg: "configured m w0 dns secret"
    and run: "worker_connect env m w0 dns secret h = (rc, w', h')"
  shows "init_outcome m h0 rc w' h'"
proof -
  define w where "w = w0\<lparr>worker_policy := request_policy m\<rparr>"
  have st1: "started m h0 w dns secret h" by (rule started_cong [OF st]) (simp_all add: w_def)
  have w: "udp_fd w = None" "udp_conn w = None" "client w = None"
    using fresh by (simp_all add: w_def fresh_worker_def)
  obtain rc1 fd f conn h1 where cand: "rn_open_socket_candidate (sock env) w h = ((rc1, fd, f, conn), h1)"
    by (metis prod.collapse)
  have ok: "heap_ok h" using st by (simp add: started_def owns_def)
  note o = open_candidate_step [OF ok cand]
  show ?thesis
  proof (cases "rc1 = NGX_OK")
    case False
    have "started m h0 w dns secret h1"
      using st1 o False freed_only_trans [of "harmless m" h0 h h1] freed_plain [of h h1 m]
      by (auto simp: started_def owns_def endpoint_ok_def buffers_ok_def split: option.splits)
    moreover have "worker_failed m w dns secret h1 = (rc, w', h')"
      using run cand False by (simp add: worker_connect_def Let_def w_def)
    ultimately show ?thesis by (rule failed_outcome)
  next
    case True
    define w1 where "w1 = w\<lparr>udp_fd := fd, udp_family := f, udp_conn := conn\<rparr>"
    have st2: "started m h0 w1 dns secret h1"
      unfolding w1_def using st1 w(1,2) cand True by (auto intro: started_endpoint)
    have "configured m w1 dns secret" using cfg by (simp add: configured_def w1_def w_def)
    then have create: "create_client (create_ok env) w1 h1 = ngx_alloc (create_ok env) (Client (client_of m)) h1"
      using st2 by (intro create_client_run) (auto simp: started_def w1_def w_def)
    obtain c0 h2 where al: "ngx_alloc (create_ok env) (Client (client_of m)) h1 = (c0, h2)" by fastforce
    show ?thesis
    proof (cases c0)
      case None
      with run cand True al create have "worker_failed m w1 dns secret h1 = (rc, w', h')"
        by (simp add: worker_connect_def Let_def w_def w1_def)
      with st2 show ?thesis by (rule failed_outcome)
    next
      case (Some c)
      define w2 where "w2 = w1\<lparr>client := Some c\<rparr>"
      have st3: "started m h0 w2 dns secret h2"
        unfolding w2_def by (rule started_client [OF st2 _ al [unfolded Some]]) (simp add: w1_def w)
      obtain w3 h3 where rel: "rn_worker_release_config_buffers w2 dns secret
        (length (str_of (auth_key m)) + (if secret \<noteq> None then 1 else 0)) h2 = (w3, h3)" by fastforce
      have "init_outcome m h0 NGX_OK (Some w3) h3"
        by (rule published_outcome [OF st3 rel])
          (use o True fresh alloc_step(3) [OF _ al [unfolded Some]] in
            \<open>auto simp: w2_def w1_def w_def fresh_worker_def has_client_def\<close>)
      then show ?thesis
        using run cand True al create Some rel by (simp add: worker_connect_def Let_def w_def w1_def w2_def)
    qed
  qed
qed

lemma credential_outcome:
  assumes st: "started m h0 w (Some dns) None h" and fresh: "fresh_worker m w"
    and cfg: "cfg_dns_name w = Some dns" "cfg_key_id w = key_id m" "cfg_auth_type w = auth_type m"
    and run: "worker_credential env m w dns h = (rc, w', h')"
  shows "init_outcome m h0 rc w' h'"
proof (cases "length (str_of (auth_key m)) > 0")
  case False
  let ?w = "w\<lparr>cfg_secret := None, cfg_secret_len := 0\<rparr>"
  have "started m h0 ?w (Some dns) None h" by (rule started_cong [OF st]) simp_all
  moreover have "fresh_worker m ?w" using fresh by (simp add: fresh_worker_def)
  moreover have "configured m ?w (Some dns) None" using cfg False by (simp add: configured_def)
  ultimately show ?thesis using run False by (auto simp: worker_credential_def intro: connect_outcome)
next
  case True
  obtain s0 h1 where a: "ngx_alloc (alloc_ok env 2) (Bytes (str_of (auth_key m) @ [nul])) h = (s0, h1)" by fastforce
  show ?thesis
  proof (cases s0)
    case None
    with run a True have "worker_failed m w (Some dns) None h = (rc, w', h')" by (simp add: worker_credential_def)
    with st show ?thesis by (rule failed_outcome)
  next
    case (Some secret)
    let ?w = "w\<lparr>cfg_secret := Some secret, cfg_secret_len := length (str_of (auth_key m))\<rparr>"
    have "heap_ok h" using st by (simp add: started_def owns_def)
    note c = alloc_step [OF this a [unfolded Some]]
    have "started m h0 ?w (Some dns) (Some secret) h1"
      using st c(1-3) freed_only_trans [of "harmless m" h0 h h1] c(4) [of "harmless m"]
      by (auto simp: started_def owns_def endpoint_ok_def buffers_ok_def objects_of_def
        endpoint_of_def fun_eq_iff split: option.splits)
    moreover have "fresh_worker m ?w" using fresh by (simp add: fresh_worker_def)
    moreover have "worker_connect env m ?w (Some dns) (Some secret) h1 = (rc, w', h')"
      using run a True Some by (simp add: worker_credential_def)
    moreover have "configured m ?w (Some dns) (Some secret)" using cfg True by (simp add: configured_def)
    ultimately show ?thesis by (intro connect_outcome)
  qed
qed

lemma init_step:
  assumes ok: "heap_ok h" and run: "rn_worker_init env m None h = (rc, w', h')"
  shows "init_outcome m h rc w' h'"
proof -
  obtain p0 h1 where a0: "ngx_alloc (alloc_ok env 0) Worker_struct h = (p0, h1)" by fastforce
  show ?thesis
  proof (cases p0)
    case None
    with run a0 ok show ?thesis by (auto simp: rn_worker_init_def init_outcome_def)
  next
    case (Some p)
    note a = alloc_step [OF ok a0 [unfolded Some]]
    have st: "started m h (new_worker m p) None None h1"
      using a by (auto simp: started_def owns_def endpoint_ok_def buffers_ok_def objects_of_def
          endpoint_of_def new_worker_def fun_eq_iff)
    obtain d0 h2 where a1: "ngx_alloc (alloc_ok env 1) (Bytes (str_of (tenant_dns m) @ [nul])) h1 = (d0, h2)"
      by fastforce
    show ?thesis
    proof (cases d0)
      case None
      then have "worker_failed m (new_worker m p) None None h1 = (rc, w', h')"
        using run a0 Some a1 by (simp add: rn_worker_init_def Let_def)
      with st show ?thesis by (rule failed_outcome)
    next
      case d: (Some dns)
      note b = alloc_step [OF a(1) a1 [unfolded d]]
      let ?w = "(new_worker m p)\<lparr>cfg_dns_name := Some dns, cfg_key_id := key_id m, cfg_auth_type := auth_type m\<rparr>"
      have "started m h ?w (Some dns) None h2"
        using st b(1-3) freed_only_trans [of "harmless m" h h1 h2] b(4) [of "harmless m"]
        by (auto simp: started_def owns_def endpoint_ok_def buffers_ok_def objects_of_def
          endpoint_of_def fun_eq_iff split: option.splits)
      moreover have "fresh_worker m ?w" by (simp add: fresh_worker_def new_worker_def)
      moreover have "worker_credential env m ?w dns h2 = (rc, w', h')"
        using run a0 Some a1 d by (simp add: rn_worker_init_def Let_def)
      ultimately show ?thesis by (intro credential_outcome) simp_all
    qed
  qed
qed

text \<open>
  C20. \<open>rn_worker_init\<close> is all-or-nothing.  On success the published worker has its client, created
  from the tenant, key and policy of the configuration, its socket and its connection; those and
  its own structure are the only objects allocated, and no pointer to a configuration buffer is
  left in it.  On failure, at whichever step, every object allocated so far was released exactly
  once and nothing is published.  On every path the credential buffer was zeroed before it was
  freed.
\<close>

theorem worker_init_all_or_nothing:
  assumes "heap_ok h"
  shows "case rn_worker_init env m None h of (rc, worker1, h') \<Rightarrow>
    heap_ok h' \<and> freed_only (harmless m) h h' \<and>
    (if rc = NGX_OK
     then (case worker1 of None \<Rightarrow> False
       | Some w \<Rightarrow> ready m w \<and> owns w h' \<and> has_client m w h'
           \<and> blocks h = without (objects_of w) (blocks h'))
     else rc = NGX_ERROR \<and> worker1 = None \<and> blocks h' = blocks h)"
proof -
  obtain rc w' h' where run: "rn_worker_init env m None h = (rc, w', h')" by (metis prod_cases3)
  from init_step [OF assms run] show ?thesis by (simp add: run init_outcome_def)
qed

subsection \<open>Backoff\<close>

text \<open>The delay before the next attempt after \<open>n\<close> consecutive failures.\<close>

fun retry_delay :: "nat \<Rightarrow> nat" where
  "retry_delay n = min 5000 (1000 * 2 ^ n)"

definition delay_after :: "nat \<Rightarrow> u64" where
  "delay_after n = (if n = 0 then 0 else of_nat (retry_delay n))"

lemma delay_after_cases:
  "delay_after n = (if n = 0 then 0 else if n = 1 then 2000 else if n = 2 then 4000 else 5000)"
proof (cases "n < 3")
  case True
  then have "n = 0 \<or> n = 1 \<or> n = 2" by arith
  then show ?thesis by (auto simp: delay_after_def)
next
  case False
  then have "(8::nat) \<le> 2 ^ n" using power_increasing [of 3 n "2::nat"] by simp
  with False show ?thesis by (simp add: delay_after_def min_def)
qed

text \<open>
  C24. Failed initialisations back off: after \<open>n\<close> earlier consecutive failures one more failure
  schedules the next attempt \<open>min (5000, 1000 * 2^n)\<close> milliseconds ahead; before that time
  \<open>rn_worker_ensure\<close> answers \<open>NGX_AGAIN\<close> without allocating anything; and a success resets the
  backoff and publishes the worker for good.
\<close>

theorem worker_backoff:
  assumes "heap_ok h" and "init_retry_delay m = delay_after n"
  shows "case rn_worker_ensure env now m None h of (rc, m', worker1, h') \<Rightarrow>
    if init_retry_at m \<noteq> 0 \<and> 0 < sint (init_retry_at m - now)
    then rc = NGX_AGAIN \<and> m' = m \<and> worker1 = None \<and> h' = h
    else if rc = NGX_OK
    then init_retry_at m' = 0 \<and> init_retry_delay m' = 0 \<and> worker1 \<noteq> None
      \<and> rn_worker_ensure env' now' m' worker1 h' = (NGX_OK, m', worker1, h')
    else rc = NGX_ERROR \<and> worker1 = None \<and> blocks h' = blocks h
      \<and> init_retry_at m' = now + of_nat (retry_delay n) \<and> init_retry_delay m' = delay_after (Suc n)"
proof -
  have half: "RN_INIT_RETRY_MAX_MS div 2 = 2500" by (simp add: RN_INIT_RETRY_MAX_MS_def)
  have delay: "(if delay_after n = 0 then RN_INIT_RETRY_INITIAL_MS else delay_after n) = of_nat (retry_delay n)"
    using delay_after_cases [of n] by (auto simp: delay_after_def RN_INIT_RETRY_INITIAL_MS_def)
  have "(of_nat (retry_delay n) :: u64) = (if n = 0 then 1000 else if n = 1 then 2000 else if n = 2 then 4000 else 5000)"
    using delay_after_cases [of n] by (auto simp: delay_after_def split: if_splits)
  then have next_delay: "(if (of_nat (retry_delay n) :: u64) < 2500 then of_nat (retry_delay n) * 2
      else RN_INIT_RETRY_MAX_MS) = delay_after (Suc n)"
    by (auto simp: delay_after_cases RN_INIT_RETRY_MAX_MS_def simp del: retry_delay.simps)
  obtain rc w h' where run: "rn_worker_init env (m\<lparr>init_retry_at := 0\<rparr>) None h = (rc, w, h')"
    by (metis prod_cases3)
  from init_step [OF assms(1) run]
  have out: "rc = NGX_OK \<and> w \<noteq> None \<or> rc = NGX_ERROR \<and> w = None \<and> blocks h' = blocks h"
    by (auto simp: init_outcome_def split: if_splits option.splits)
  show ?thesis
    using delay next_delay assms(2) out
    by (auto simp: rn_worker_ensure_def Let_def half run simp del: retry_delay.simps)
qed

subsection \<open>No rebind is lost\<close>

text \<open>
  The scheduling flag mirrors the timer, and a rebind that is pending while no request is in
  flight has its event armed.
\<close>

definition rebind_armed :: "rn_worker_ctx_t \<Rightarrow> bool" where
  "rebind_armed w \<longleftrightarrow> (rebind_scheduled w = (rebind_event w \<noteq> None))
     \<and> (rebind_pending w \<and> inflight w = 0 \<longrightarrow> rebind_scheduled w)"

definition worker_inv :: "rn_worker_ctx_t \<times> os_heap \<Rightarrow> bool" where
  "worker_inv s \<longleftrightarrow> (case s of (w, h) \<Rightarrow> owns w h \<and> rebind_armed w \<and> client w \<noteq> None \<and> udp_fd w \<noteq> None)"

lemma schedule_after_fields:
  "self (rn_schedule_rebind_after w d) = self w" "client (rn_schedule_rebind_after w d) = client w"
  "udp_fd (rn_schedule_rebind_after w d) = udp_fd w" "udp_conn (rn_schedule_rebind_after w d) = udp_conn w"
  "udp_family (rn_schedule_rebind_after w d) = udp_family w" "inflight (rn_schedule_rebind_after w d) = inflight w"
  "rebind_pending (rn_schedule_rebind_after w d) = rebind_pending w"
  "udp_read_active (rn_schedule_rebind_after w d) = udp_read_active w"
  "worker_debug (rn_schedule_rebind_after w d) = worker_debug w"
  by (simp_all add: rn_schedule_rebind_after_def)

lemmas worker_fields = schedule_after_fields schedule_after_fields [of _ 0, folded rn_schedule_rebind_def]

lemma owns_cong:
  assumes "owns w h" and "self w' = self w" "client w' = client w" "udp_fd w' = udp_fd w"
    "udp_conn w' = udp_conn w" "udp_family w' = udp_family w"
  shows "owns w' h"
  using assms by (auto simp: owns_def endpoint_ok_def split: option.splits)

lemma schedule_arms:
  "rebind_scheduled w = (rebind_event w \<noteq> None) \<Longrightarrow> rebind_armed (rn_schedule_rebind_after w d)"
  by (auto simp: rebind_armed_def rn_schedule_rebind_after_def)

text \<open>The events of a worker: its requests, the client's feedback, its timer, its read event.\<close>

datatype worker_event =
    Request_started
  | Request_finished
  | Steering_feedback bool
  | Rebind_timer sock_env
  | Read_active bool

fun worker_step :: "worker_event \<Rightarrow> rn_worker_ctx_t \<times> os_heap \<Rightarrow> (rn_worker_ctx_t \<times> os_heap) option" where
  "worker_step Request_started (w, h) = Some (count_request w, h)"
| "worker_step Request_finished (w, h) = Some (rn_schedule_rebind (uncount_request w), h)"
| "worker_step (Steering_feedback keep) (w, h) = Some (rn_on_steering_feedback keep w, h)"
| "worker_step (Rebind_timer env) (w, h) =
     (if rebind_event w = None then None
      else Some (rn_rebind_handler env (w\<lparr>rebind_event := None\<rparr>) h))"
| "worker_step (Read_active b) (w, h) = Some (w\<lparr>udp_read_active := b\<rparr>, h)"

text \<open>What the fired timer does: replace the endpoint, or keep it and arm the event again.\<close>

lemma rebind_handler_step:
  assumes inv: "worker_inv (w, h)" and run: "rn_rebind_handler env (w\<lparr>rebind_event := None\<rparr>) h = (w', h')"
  shows "worker_inv (w', h') \<and> inflight w' = inflight w \<and> udp_read_active w' = udp_read_active w
    \<and> self w' = self w \<and> client w' = client w \<and>
    (if \<not> rebind_pending w \<or> inflight w \<noteq> 0
     then rebind_pending w' = rebind_pending w \<and> rebind_event w' = None
       \<and> endpoint_of w' = endpoint_of w \<and> blocks h' = blocks h
     else if rebind_pending w'
     then endpoint_of w' = endpoint_of w \<and> blocks h' = blocks h
       \<and> rebind_event w' = Some (if udp_read_active w then 1 else RN_REBIND_RETRY_MS)
     else \<not> udp_read_active w \<and> rebind_event w' = None
       \<and> (\<exists>s c. s \<noteq> c \<and> blocks h s = None \<and> blocks h c = None \<and> endpoint_of w' = {s, c}
         \<and> blocks h' = (without (endpoint_of w) (blocks h))
             (s \<mapsto> Socket (udp_family w'), c \<mapsto> Connection s)))"
proof -
  define v where "v = w\<lparr>rebind_event := None, rebind_scheduled := False\<rparr>"
  have own: "owns v h" using inv by (auto simp: worker_inv_def v_def intro: owns_cong)
  have v: "client v \<noteq> None" "udp_fd v \<noteq> None" "rebind_scheduled v = (rebind_event v \<noteq> None)"
    "rebind_pending v = rebind_pending w" "inflight v = inflight w" "udp_read_active v = udp_read_active w"
    "endpoint_of v = endpoint_of w" "self v = self w" "client v = client w"
    using inv by (simp_all add: worker_inv_def v_def endpoint_of_def)
  show ?thesis
  proof (cases "\<not> rebind_pending w \<or> inflight w \<noteq> 0")
    case True
    then have "(w', h') = (v, h)" using run by (simp add: rn_rebind_handler_def v_def Let_def)
    with True own v show ?thesis by (auto simp: worker_inv_def rebind_armed_def v_def)
  next
    case False
    show ?thesis
    proof (cases "udp_read_active w")
      case True
      then have eq: "w' = rn_schedule_rebind_after v 1" "h' = h"
        using run False by (simp_all add: rn_rebind_handler_def v_def Let_def)
      have "rebind_event w' = Some 1"
        using False v by (simp add: eq rn_schedule_rebind_after_def v_def)
      with True False eq own v schedule_arms [OF v(3)] show ?thesis
        by (auto simp: worker_inv_def worker_fields endpoint_of_def intro: owns_cong)
    next
      case idle: False
      obtain rc u g where rb: "rn_rebind_socket env v h = (rc, u, g)" by (metis prod_cases3)
      note r = rebind_step [OF own rb]
      show ?thesis
      proof (cases "rc = NGX_OK")
        case True
        then obtain s c where sc: "s \<noteq> c" "udp_fd u = Some s" "udp_conn u = Some c" "blocks h s = None"
          "blocks h c = None" "blocks g = (without (endpoint_of v) (blocks h))
            (s \<mapsto> Socket (udp_family u), c \<mapsto> Connection s)"
          "u = v\<lparr>udp_fd := Some s, udp_family := udp_family u, udp_conn := Some c, rebind_pending := False\<rparr>"
          using r by auto
        have eq: "w' = u" "h' = g"
          using run False idle rb True by (simp_all add: rn_rebind_handler_def v_def Let_def)
        have u: "\<not> rebind_pending u" "rebind_event u = None" "\<not> rebind_scheduled u" "inflight u = inflight v"
          "udp_read_active u = udp_read_active v"
          by (subst sc(7), simp add: v_def)+
        have "endpoint_of u = {s, c}" using sc by (auto simp: endpoint_of_def)
        with False idle eq sc u v r show ?thesis
          by (auto simp: worker_inv_def rebind_armed_def)
      next
        case err: False
        then have eq: "w' = rn_schedule_rebind_after v RN_REBIND_RETRY_MS" "h' = g" "u = v" "blocks g = blocks h"
          using run False idle rb r by (simp_all add: rn_rebind_handler_def v_def Let_def)
        have ev: "rebind_event w' = Some RN_REBIND_RETRY_MS"
          using False v by (simp add: eq rn_schedule_rebind_after_def v_def)
        have "owns v g" using r err eq by simp
        with False idle eq ev v schedule_arms [OF v(3)] show ?thesis
          by (auto simp: worker_inv_def worker_fields endpoint_of_def intro: owns_cong)
      qed
    qed
  qed
qed

lemma worker_step_keeps:
  assumes "worker_inv s" and "worker_step e s = Some t"
  shows "worker_inv t"
proof -
  obtain w h where s: "s = (w, h)" by fastforce
  have own: "owns w h" and arm: "rebind_armed w" and cl: "client w \<noteq> None" "udp_fd w \<noteq> None"
    using assms(1) by (simp_all add: s worker_inv_def)
  show ?thesis
  proof (cases e)
    case Request_started
    with assms(2) own arm cl show ?thesis
      by (auto simp: s worker_inv_def count_request_def rebind_armed_def intro: owns_cong)
  next
    case Request_finished
    have "rebind_armed (rn_schedule_rebind (uncount_request w))"
      using arm unfolding rn_schedule_rebind_def
      by (intro schedule_arms) (simp add: uncount_request_def rebind_armed_def)
    with Request_finished assms(2) own cl show ?thesis
      by (auto simp: s worker_inv_def worker_fields uncount_request_def intro: owns_cong)
  next
    case (Steering_feedback keep)
    have "rebind_armed (rn_on_steering_feedback keep w)"
    proof (cases keep)
      case False
      have "rebind_armed (rn_schedule_rebind_after (w\<lparr>rebind_pending := True\<rparr>) 0)"
        using arm by (intro schedule_arms) (simp add: rebind_armed_def)
      with False show ?thesis by (simp add: rn_on_steering_feedback_def rn_schedule_rebind_def)
    qed (simp add: rn_on_steering_feedback_def arm)
    with Steering_feedback assms(2) own cl show ?thesis
      by (auto simp: s worker_inv_def worker_fields rn_on_steering_feedback_def intro: owns_cong)
  next
    case (Rebind_timer env)
    then have "rn_rebind_handler env (w\<lparr>rebind_event := None\<rparr>) h = t"
      using assms(2) by (auto simp: s split: if_split_asm)
    with rebind_handler_step [of w h env] assms(1) show ?thesis by (cases t) (auto simp: s)
  next
    case (Read_active b)
    with assms(2) own arm cl show ?thesis
      by (auto simp: s worker_inv_def rebind_armed_def intro: owns_cong)
  qed
qed

interpretation worker_run: step_invariant worker_step worker_inv
  by unfold_locales (rule worker_step_keeps)

lemma ready_inv: "ready m w \<Longrightarrow> owns w h \<Longrightarrow> worker_inv (w, h)"
  by (simp add: ready_def worker_inv_def rebind_armed_def)

text \<open>
  Exact ownership: beyond the blocks \<open>B\<close> that were allocated before the worker, its own objects
  are all that is allocated.
\<close>

definition accounts :: "(ptr \<Rightarrow> obj option) \<Rightarrow> rn_worker_ctx_t \<times> os_heap \<Rightarrow> bool" where
  "accounts B s \<longleftrightarrow> worker_inv s \<and> (case s of (w, h) \<Rightarrow> B = without (objects_of w) (blocks h))"

lemma accounts_same:
  assumes "accounts B (w, h)" and "worker_inv (w', h')" and "self w' = self w" "client w' = client w"
    "endpoint_of w' = endpoint_of w" "blocks h' = blocks h"
  shows "accounts B (w', h')"
  using assms unfolding accounts_def objects_of_def by (simp only: prod.case)

lemma quiet_fields:
  "self (count_request w) = self w" "client (count_request w) = client w"
  "endpoint_of (count_request w) = endpoint_of w" "rebind_pending (count_request w) = rebind_pending w"
  "self (uncount_request w) = self w" "client (uncount_request w) = client w"
  "endpoint_of (uncount_request w) = endpoint_of w" "rebind_pending (uncount_request w) = rebind_pending w"
  "self (rn_schedule_rebind w) = self w" "client (rn_schedule_rebind w) = client w"
  "endpoint_of (rn_schedule_rebind w) = endpoint_of w" "rebind_pending (rn_schedule_rebind w) = rebind_pending w"
  "self (rn_on_steering_feedback b w) = self w" "client (rn_on_steering_feedback b w) = client w"
  "endpoint_of (rn_on_steering_feedback b w) = endpoint_of w"
  "rebind_pending (rn_on_steering_feedback b w) \<longleftrightarrow> \<not> b \<or> rebind_pending w"
  "endpoint_of (w\<lparr>udp_read_active := a\<rparr>) = endpoint_of w"
  by (simp_all add: count_request_def uncount_request_def rn_on_steering_feedback_def worker_fields endpoint_of_def)

lemma rebind_timer_accounts:
  assumes acc: "accounts B (w, h)" and run: "rn_rebind_handler env (w\<lparr>rebind_event := None\<rparr>) h = (w', h')"
  shows "accounts B (w', h')"
proof -
  have inv: "worker_inv (w, h)" using acc by (simp add: accounts_def)
  note r = rebind_handler_step [OF inv run]
  show ?thesis
  proof (cases "blocks h' = blocks h \<and> endpoint_of w' = endpoint_of w")
    case True
    with r show ?thesis by (intro accounts_same [OF acc]) simp_all
  next
    case False
    with r obtain s c where sc: "blocks h s = None" "blocks h c = None" "endpoint_of w' = {s, c}"
      "blocks h' = (without (endpoint_of w) (blocks h))(s \<mapsto> Socket (udp_family w'), c \<mapsto> Connection s)"
      by (auto split: if_split_asm)
    have "objects_of w' = insert s (insert c (insert (self w) (set_option (client w))))"
      using sc(3) r by (auto simp: objects_of_def)
    moreover have "B = without (objects_of w) (blocks h)" using acc by (simp add: accounts_def)
    ultimately have "B = without (objects_of w') (blocks h')"
      using sc(1,2,4) by (auto simp: objects_of_def fun_eq_iff)
    with r show ?thesis by (simp add: accounts_def)
  qed
qed

lemma worker_step_accounts:
  assumes "accounts B s" and "worker_step e s = Some t"
  shows "accounts B t"
proof -
  obtain w h w' h' where eq: "s = (w, h)" "t = (w', h')" by (cases s; cases t) blast
  have inv: "worker_inv (w', h')"
    by (rule worker_step_keeps [of "(w, h)" e]) (use assms in \<open>simp_all add: eq accounts_def\<close>)
  show ?thesis
  proof (cases "\<exists>env. e = Rebind_timer env")
    case True
    with assms show ?thesis by (auto simp: eq split: if_split_asm intro: rebind_timer_accounts)
  next
    case False
    then have "self w' = self w" "client w' = client w" "endpoint_of w' = endpoint_of w" "h' = h"
      using assms(2)
      by (cases e; auto simp: eq quiet_fields)+
    with assms(1) inv show ?thesis by (auto simp: eq intro: accounts_same)
  qed
qed

interpretation worker_account: step_invariant worker_step "accounts B"
  by unfold_locales (rule worker_step_accounts)

lemma init_accounts:
  assumes "heap_ok h0" and "rn_worker_init env m None h0 = (NGX_OK, Some w, h)"
    and "run_steps worker_step es (w, h) = Some (w', h')"
  shows "accounts (blocks h0) (w', h')"
proof -
  have "accounts (blocks h0) (w, h)"
    using init_step [OF assms(1,2)] by (auto simp: init_outcome_def accounts_def intro: ready_inv)
  from worker_account.run_keeps [OF this assms(3)] show ?thesis .
qed

text \<open>A pending rebind ends in one way only: the timer replaces the endpoint.\<close>

lemma pending_step:
  assumes inv: "worker_inv (w, h)" and run: "worker_step e (w, h) = Some (v, g)" and pending: "rebind_pending w"
  shows "rebind_pending v \<and> endpoint_of v = endpoint_of w \<or>
    (\<exists>env. e = Rebind_timer env) \<and> inflight w = 0 \<and> \<not> udp_read_active w
      \<and> endpoint_of v \<inter> live h = {} \<and> endpoint_of w \<inter> live g = {}"
proof (cases "\<exists>env. e = Rebind_timer env")
  case True
  then obtain env where e: "e = Rebind_timer env" by blast
  with run have "rn_rebind_handler env (w\<lparr>rebind_event := None\<rparr>) h = (v, g)" by (simp split: if_split_asm)
  note r = rebind_handler_step [OF inv this]
  have "endpoint_of w \<subseteq> live h" using inv by (simp add: worker_inv_def endpoint_live)
  with r pending e show ?thesis by (auto split: if_split_asm)
next
  case False
  with run pending have "rebind_pending v \<and> endpoint_of v = endpoint_of w"
    by (cases e) (auto simp: quiet_fields)
  then show ?thesis ..
qed

text \<open>
  C22. Steering feedback is never lost and never costs the worker its endpoint.  After any
  sequence of requests, feedback, read events and rebind timers, failing ones included, the worker
  owns its structure, client, socket and connection, and these are exactly what is allocated
  beyond the blocks from before its creation.  Whatever event comes next, feedback that asks for a
  new port makes a rebind pending, and a pending rebind stays pending on the same endpoint unless
  the event is the rebind timer, comes with no request in flight and outside the read callback,
  and replaces the whole endpoint by new objects, releasing the old ones.  Whenever a rebind is
  pending with no request in flight, as after a failed one, the rebind event is armed.
\<close>

theorem rebind_never_lost:
  assumes "heap_ok h0" and "rn_worker_init env m None h0 = (NGX_OK, Some w, h)"
    and "run_steps worker_step es (w, h) = Some (w', h')"
  shows "owns w' h' \<and> blocks h0 = without (objects_of w') (blocks h') \<and> client w' \<noteq> None \<and> udp_fd w' \<noteq> None
    \<and> (rebind_pending w' \<and> inflight w' = 0 \<longrightarrow> rebind_event w' \<noteq> None)
    \<and> (\<forall>e v g. worker_step e (w', h') = Some (v, g) \<longrightarrow>
        (e = Steering_feedback False \<longrightarrow> rebind_pending v)
        \<and> (rebind_pending w' \<longrightarrow>
            rebind_pending v \<and> endpoint_of v = endpoint_of w' \<or>
            (\<exists>senv. e = Rebind_timer senv) \<and> inflight w' = 0 \<and> \<not> udp_read_active w'
              \<and> endpoint_of v \<inter> live h' = {} \<and> endpoint_of w' \<inter> live g = {}))"
proof -
  have acc: "accounts (blocks h0) (w', h')" by (rule init_accounts [OF assms])
  then have inv: "worker_inv (w', h')" by (simp add: accounts_def)
  have "rebind_pending v" if "worker_step (Steering_feedback False) (w', h') = Some (v, g)" for v g
    using that by (auto simp: quiet_fields)
  with pending_step [OF inv] have "\<forall>e v g. worker_step e (w', h') = Some (v, g) \<longrightarrow>
        (e = Steering_feedback False \<longrightarrow> rebind_pending v)
        \<and> (rebind_pending w' \<longrightarrow>
            rebind_pending v \<and> endpoint_of v = endpoint_of w' \<or>
            (\<exists>senv. e = Rebind_timer senv) \<and> inflight w' = 0 \<and> \<not> udp_read_active w'
              \<and> endpoint_of v \<inter> live h' = {} \<and> endpoint_of w' \<inter> live g = {})" by blast
  moreover have "rebind_pending w' \<and> inflight w' = 0 \<longrightarrow> rebind_event w' \<noteq> None"
    using inv by (auto simp: worker_inv_def rebind_armed_def)
  moreover have "owns w' h'" "client w' \<noteq> None" "udp_fd w' \<noteq> None" using inv by (simp_all add: worker_inv_def)
  moreover have "blocks h0 = without (objects_of w') (blocks h')" using acc by (simp add: accounts_def)
  ultimately show ?thesis by blast
qed

text \<open>
  C23. Process exit releases a worker whatever it has been through: after any sequence of
  requests, feedback, read events and rebind timers since its creation, with requests still counted or the
  rebind timer armed, \<open>rn_exit_process\<close> clears the published pointer, takes the timer out of
  nginx's tree before the structure that holds it is released, and releases the client, the
  socket, the connection and the structure, each once and nothing else, so that exactly the blocks
  from before the creation of the worker are left.
\<close>

theorem exit_releases_worker:
  assumes "heap_ok h0" and "rn_worker_init env m None h0 = (NGX_OK, Some w, h)"
    and "run_steps worker_step es (w, h) = Some (w', h')"
  shows "rebind_event (fst (rn_worker_cleanup w' h')) = None \<and>
    (case rn_exit_process (Some w') h' of (worker2, h2) \<Rightarrow>
      worker2 = None \<and> heap_ok h2 \<and> blocks h2 = blocks h0 \<and> freed_only no_bytes h' h2)"
proof -
  have acc: "accounts (blocks h0) (w', h')" by (rule init_accounts [OF assms])
  then have own: "owns w' h'" and base: "blocks h0 = without (objects_of w') (blocks h')"
    by (simp_all add: accounts_def worker_inv_def)
  obtain v g where cl: "rn_worker_cleanup w' h' = (v, g)" by fastforce
  note c = cleanup_step [OF own cl]
  have self: "blocks g (self v) = Some Worker_struct" using c own by (auto simp: owns_def)
  note f = free_step [where P = no_bytes, OF conjunct1 [OF c] self]
  have "blocks (ngx_free (self v) g) = blocks h0"
    using f c base by (auto simp: fun_eq_iff no_bytes_def objects_of_def)
  moreover have "freed_only no_bytes h' (ngx_free (self v) g)"
    by (rule freed_only_trans [of _ _ g]) (use c f in \<open>simp_all add: no_bytes_def\<close>)
  ultimately show ?thesis using f c by (simp add: rn_exit_process_def free_worker_def cl no_bytes_def)
qed

definition all_ok :: "sock_env \<Rightarrow> bool" where
  "all_ok env \<longleftrightarrow> socket_ok env = (\<lambda>_. True) \<and> nonblocking_ok env \<and> bind_ok env = (\<lambda>_ _. True)
     \<and> get_connection_ok env \<and> add_event_ok env"

lemma open_succeeds:
  assumes "all_ok env"
  shows "fst (fst (rn_open_socket_candidate env w h)) = NGX_OK"
  using assms
  by (auto simp: all_ok_def rn_open_socket_candidate_def candidate_socket_def Let_def ngx_alloc_def
      split: prod.split)

lemma finish_all:
  assumes "worker_inv (w, h)"
  shows "\<exists>w'. run_steps worker_step (replicate (inflight w) Request_finished) (w, h) = Some (w', h)
    \<and> inflight w' = 0 \<and> rebind_pending w' = rebind_pending w \<and> udp_read_active w' = udp_read_active w
    \<and> worker_inv (w', h)"
  using assms
proof (induction "inflight w" arbitrary: w)
  case (Suc n)
  let ?v = "rn_schedule_rebind (uncount_request w)"
  have step: "worker_step Request_finished (w, h) = Some (?v, h)" by simp
  have inv: "worker_inv (?v, h)" by (rule worker_step_keeps [OF Suc.prems step])
  have v: "n = inflight ?v" "rebind_pending ?v = rebind_pending w" "udp_read_active ?v = udp_read_active w"
    using Suc.hyps(2) by (simp_all add: worker_fields uncount_request_def)
  have "replicate (inflight w) Request_finished = Request_finished # replicate (inflight ?v) Request_finished"
    unfolding v(1) [symmetric] Suc.hyps(2) [symmetric] by simp
  with Suc.hyps(1) [OF v(1) inv] step v show ?case by simp
qed (auto)

text \<open>
  C21. A requested rebind does happen: once the requests in flight have finished, outside the
  read callback the armed event replaces the endpoint as soon as the operating system and
  nginx provide a new one.
\<close>

theorem rebind_happens:
  assumes "worker_inv (w, h)" and "rebind_pending w" and "\<not> udp_read_active w" and "all_ok env"
  shows "\<exists>w' h'. run_steps worker_step (replicate (inflight w) Request_finished @ [Rebind_timer env]) (w, h)
      = Some (w', h') \<and> \<not> rebind_pending w' \<and> endpoint_of w' \<inter> live h = {} \<and> endpoint_of w \<inter> live h' = {}"
proof -
  obtain v where v: "run_steps worker_step (replicate (inflight w) Request_finished) (w, h) = Some (v, h)"
    "inflight v = 0" "rebind_pending v" "\<not> udp_read_active v" "worker_inv (v, h)"
    using finish_all [OF assms(1)] assms(2,3) by auto
  have ev: "rebind_event v \<noteq> None" using v by (auto simp: worker_inv_def rebind_armed_def)
  obtain w' h' where run: "rn_rebind_handler env (v\<lparr>rebind_event := None\<rparr>) h = (w', h')" by fastforce
  note r = rebind_handler_step [OF v(5) run]
  let ?v = "v\<lparr>rebind_event := None, rebind_scheduled := False\<rparr>"
  obtain rc fd f conn h1 where cand: "rn_open_socket_candidate env ?v h = ((rc, fd, f, conn), h1)"
    by (metis prod.collapse)
  then have "rc = NGX_OK" using open_succeeds [OF assms(4), of ?v h] by simp
  then have "\<not> rebind_pending w'"
    using run v cand by (auto simp: rn_rebind_handler_def rn_rebind_socket_def Let_def)
  moreover have same: "endpoint_of v = endpoint_of w"
    using v(1) assms(1)
  proof (induction "inflight w" arbitrary: w)
    case (Suc n)
    let ?u = "rn_schedule_rebind (uncount_request w)"
    have u: "n = inflight ?u" "endpoint_of ?u = endpoint_of w"
      using Suc.hyps(2) by (simp_all add: worker_fields uncount_request_def endpoint_of_def)
    have "worker_inv (?u, h)" by (rule worker_step_keeps [OF Suc.prems(2), of Request_finished]) simp
    moreover have "run_steps worker_step (replicate (inflight ?u) Request_finished) (?u, h) = Some (v, h)"
      using Suc.prems(1) unfolding u(1) [symmetric] Suc.hyps(2) [symmetric] by simp
    ultimately show ?case using Suc.hyps(1) [OF u(1)] u(2) by simp
  qed simp
  ultimately have "endpoint_of w' \<inter> live h = {}" "endpoint_of w \<inter> live h' = {}"
    using r v endpoint_live [of v h] same by (auto simp: worker_inv_def split: if_split_asm)
  with v(1) ev run \<open>\<not> rebind_pending w'\<close> show ?thesis by (auto simp: run_steps_append)
qed

subsection \<open>The receive loop\<close>

definition is_datagram :: "recv \<Rightarrow> bool" where
  "is_datagram r \<longleftrightarrow> (case r of Recv _ _ \<Rightarrow> True | _ \<Rightarrow> False)"

lemma is_datagram_simps [simp]:
  "is_datagram (Recv buf src)" "\<not> is_datagram Recv_again" "\<not> is_datagram Recv_error"
  "\<not> is_datagram Recv_empty"
  by (simp_all add: is_datagram_def)

fun deliver :: "(string \<Rightarrow> sockaddr \<Rightarrow> 's \<Rightarrow> 's) \<Rightarrow> recv \<Rightarrow> 's \<Rightarrow> 's" where
  "deliver on_datagram (Recv buf from) st = on_datagram buf from st"
| "deliver on_datagram _ st = st"

lemma udp_read_loop_spec:
  assumes "k \<le> 64" and "udp_read_loop f socket k st = (st', posted)"
  shows "\<exists>n \<le> 64. k \<le> n \<and> st' = fold (deliver f) (map socket [k..<n]) st
    \<and> list_all is_datagram (map socket [k..<n]) \<and> posted = (n = 64) \<and> (n < 64 \<longrightarrow> \<not> is_datagram (socket n))"
  using assms
proof (induction f socket k st rule: udp_read_loop.induct)
  case (1 f socket k st)
  show ?case
  proof (cases "k = 64")
    case True
    with 1 show ?thesis
      by (intro exI [of _ 64]) (auto simp: RN_UDP_READ_BATCH_MAX_def udp_read_loop.simps [of _ _ 64])
  next
    case False
    then have k: "k < 64" "\<not> RN_UDP_READ_BATCH_MAX \<le> k"
      using 1(2) by (simp_all add: RN_UDP_READ_BATCH_MAX_def)
    show ?thesis
    proof (cases "socket k")
      case (Recv buf src)
      have unfolded: "udp_read_loop f socket k st = (if Suc k = 64 then (f buf src st, True)
          else udp_read_loop f socket (Suc k) (f buf src st))"
        using k Recv by (subst udp_read_loop.simps) (simp add: RN_UDP_READ_BATCH_MAX_def)
      have split: "[k..<n] = k # [Suc k..<n]" if "Suc k \<le> n" for n using that by (simp add: upt_conv_Cons)
      show ?thesis
      proof (cases "Suc k = 64")
        case True
        then have "st' = f buf src st" "posted"
          using 1(3) unfolding unfolded if_P [OF True] by simp_all
        with True Recv show ?thesis
          by (intro exI [of _ "Suc k"]) (simp add: split)
      next
        case more: False
        then have "udp_read_loop f socket (Suc k) (f buf src st) = (st', posted)"
          using 1(3) by (simp add: unfolded)
        with 1(1) [OF k(2) Recv refl refl] more k obtain n where
          "n \<le> 64" "Suc k \<le> n" "st' = fold (deliver f) (map socket [Suc k..<n]) (f buf src st)"
          "list_all is_datagram (map socket [Suc k..<n])" "posted = (n = 64)"
          "n < 64 \<longrightarrow> \<not> is_datagram (socket n)"
          by (auto simp: RN_UDP_READ_BATCH_MAX_def)
        with Recv show ?thesis
          by (intro exI [of _ n]) (simp add: split)
      qed
    qed (use 1(3) k in \<open>auto simp: udp_read_loop.simps [of f socket k] intro!: exI [of _ k]\<close>)
  qed
qed

text \<open>
  C25. The receive loop ends even on a socket that never runs dry: one read event delivers the
  datagrams waiting on the socket to the client in order, at most 64 of them, with the read marked active for the whole of the loop and not afterwards;
  it reschedules itself exactly when it stopped at the limit, and otherwise it stopped at the
  first answer that is not a datagram.
\<close>

theorem udp_read_batch:
  assumes "worker p = Some w" and "client w \<noteq> None"
  shows "case rn_udp_read_handler on_datagram socket p of (p', posted) \<Rightarrow>
    (\<exists>n \<le> 64. p' = set_read_active False
         (fold (deliver on_datagram) (map socket [0..<n]) (set_read_active True p))
       \<and> list_all is_datagram (map socket [0..<n]) \<and> posted = (n = 64)
       \<and> (n = 64 \<or> \<not> is_datagram (socket n)))"
proof -
  obtain st posted where run: "udp_read_loop on_datagram socket 0 (set_read_active True p) = (st, posted)"
    by fastforce
  from udp_read_loop_spec [OF _ this] show ?thesis
    using assms run by (fastforce simp: rn_udp_read_handler_def)
qed

subsection \<open>A sample\<close>

definition sample_main :: rn_main_conf_t where
  "sample_main = \<lparr>zones = [], trackers = [], guards = [], groups = [], tenant_dns = Some ''t'',
     key_id = 1, auth_type = R_AUTH_COOKIE, auth_key = Some ''k'', dedup_ttl_ms_max = 0,
     request_policy = zero_policy, request_policy_kind = RN_POLICY_STANDARD, request_policy_set = False,
     fail_open = True, main_enabled = True, bind_addr = None,
     bind_sockaddr = \<lparr>sa_family = AF_UNSPEC, sa_port = 0, sa_addr = []\<rparr>, bind_socklen = 0,
     resolver = Some 1, resolver_timeout = 30000, init_retry_at = 0, init_retry_delay = 0,
     debug = False, debug_set = False\<rparr>"

definition sample_sock :: sock_env where
  "sample_sock = \<lparr>socket_ok = (\<lambda>_. True), nonblocking_ok = True, bind_ok = (\<lambda>_ _. True),
     get_connection_ok = True, add_event_ok = True\<rparr>"

definition sample_worker_env :: "bool \<Rightarrow> worker_env" where
  "sample_worker_env ok = \<lparr>alloc_ok = (\<lambda>_. True), sock = sample_sock, create_ok = ok\<rparr>"

lemma sample_init: "\<exists>w h. rn_worker_init (sample_worker_env True) sample_main None empty_heap = (NGX_OK, Some w, h)"
proof -
  obtain rc w h where run: "rn_worker_init (sample_worker_env True) sample_main None empty_heap = (rc, w, h)"
    by (metis prod_cases3)
  have "fst (rn_worker_init (sample_worker_env True) sample_main None empty_heap) = NGX_OK" by code_simp
  with init_step [OF heap_ok_empty run] run show ?thesis by (auto simp: init_outcome_def split: option.splits)
qed

lemma worker_init_all_or_nothing_witness:
  "fst (rn_worker_init (sample_worker_env False) sample_main None empty_heap) = NGX_ERROR
    \<and> blocks (snd (snd (rn_worker_init (sample_worker_env False) sample_main None empty_heap))) = blocks empty_heap"
proof -
  have "fst (rn_worker_init (sample_worker_env False) sample_main None empty_heap) = NGX_ERROR" by code_simp
  with worker_init_all_or_nothing [OF heap_ok_empty, where env = "sample_worker_env False" and m = sample_main]
  show ?thesis by (auto split: prod.splits)
qed

lemma worker_backoff_witness:
  "case rn_worker_ensure (sample_worker_env False) 7 sample_main None empty_heap of (rc, m', worker1, h') \<Rightarrow>
     rc = NGX_ERROR \<and> init_retry_at m' = 7 + 1000 \<and> init_retry_delay m' = 2000"
proof -
  have "init_retry_delay sample_main = delay_after 0" by (simp add: sample_main_def delay_after_def)
  moreover have "fst (rn_worker_ensure (sample_worker_env False) 7 sample_main None empty_heap) = NGX_ERROR"
    by code_simp
  moreover have "init_retry_at sample_main = 0" by (simp add: sample_main_def)
  ultimately show ?thesis
    using worker_backoff [OF heap_ok_empty, where m = sample_main and n = 0 and env = "sample_worker_env False" and now = 7]
    by (auto simp: delay_after_cases split: prod.splits)
qed

lemma sample_worker:
  "\<exists>w h. rn_worker_init (sample_worker_env True) sample_main None empty_heap = (NGX_OK, Some w, h)
    \<and> worker_inv (w, h) \<and> \<not> udp_read_active w"
  using sample_init init_step [OF heap_ok_empty]
  by (fastforce simp: init_outcome_def ready_def intro: ready_inv)

text \<open>Feedback while a request is in flight: the rebind event is armed when the request finishes.\<close>

definition sample_events :: "worker_event list" where
  "sample_events = [Request_started, Steering_feedback False, Request_finished]"

lemma sample_armed:
  "\<exists>w h w'. rn_worker_init (sample_worker_env True) sample_main None empty_heap = (NGX_OK, Some w, h)
    \<and> run_steps worker_step sample_events (w, h) = Some (w', h) \<and> rebind_pending w' \<and> rebind_event w' = Some 0"
proof -
  obtain w h where i: "rn_worker_init (sample_worker_env True) sample_main None empty_heap = (NGX_OK, Some w, h)"
    using sample_init by blast
  then have "ready sample_main w" using init_step [OF heap_ok_empty] by (fastforce simp: init_outcome_def)
  then have "run_steps worker_step sample_events (w, h) = Some
      (w\<lparr>rebind_pending := True, rebind_scheduled := True, rebind_event := Some 0\<rparr>, h)"
    by (cases w) (simp add: sample_events_def ready_def count_request_def uncount_request_def
        rn_on_steering_feedback_def rn_schedule_rebind_def rn_schedule_rebind_after_def)
  with i show ?thesis by fastforce
qed

lemma rebind_never_lost_witness:
  "\<exists>w h w' v g. rn_worker_init (sample_worker_env True) sample_main None empty_heap = (NGX_OK, Some w, h)
    \<and> run_steps worker_step sample_events (w, h) = Some (w', h) \<and> blocks empty_heap = without (objects_of w') (blocks h)
    \<and> worker_step (Rebind_timer (sample_sock\<lparr>bind_ok := \<lambda>_ _. False\<rparr>)) (w', h) = Some (v, g)
    \<and> (rebind_pending v \<and> endpoint_of v = endpoint_of w' \<or> endpoint_of v \<inter> live h = {})"
proof -
  let ?e = "Rebind_timer (sample_sock\<lparr>bind_ok := \<lambda>_ _. False\<rparr>)"
  obtain w h w' where i: "rn_worker_init (sample_worker_env True) sample_main None empty_heap = (NGX_OK, Some w, h)"
    "run_steps worker_step sample_events (w, h) = Some (w', h)" "rebind_pending w'" "rebind_event w' = Some 0"
    using sample_armed by blast
  obtain v g where step: "worker_step ?e (w', h) = Some (v, g)" using i(4) by fastforce
  from rebind_never_lost [OF heap_ok_empty i(1,2)] i(3) step have
    "blocks empty_heap = without (objects_of w') (blocks h)
      \<and> (rebind_pending v \<and> endpoint_of v = endpoint_of w' \<or> endpoint_of v \<inter> live h = {})" by blast
  with i(1,2) step show ?thesis by blast
qed

lemma exit_releases_worker_witness:
  "\<exists>w h w' h2. rn_worker_init (sample_worker_env True) sample_main None empty_heap = (NGX_OK, Some w, h)
    \<and> run_steps worker_step sample_events (w, h) = Some (w', h) \<and> rebind_event w' \<noteq> None
    \<and> rn_exit_process (Some w') h = (None, h2) \<and> heap_ok h2 \<and> blocks h2 = blocks empty_heap"
proof -
  obtain w h w' where i: "rn_worker_init (sample_worker_env True) sample_main None empty_heap = (NGX_OK, Some w, h)"
    "run_steps worker_step sample_events (w, h) = Some (w', h)" "rebind_event w' = Some 0"
    using sample_armed by blast
  with exit_releases_worker [OF heap_ok_empty i(1,2)] show ?thesis by (auto split: prod.splits)
qed

lemma rebind_happens_witness:
  "\<exists>w h w' h'. worker_inv (w, h) \<and> rebind_pending w
    \<and> run_steps worker_step (replicate (inflight w) Request_finished @ [Rebind_timer sample_sock]) (w, h) = Some (w', h')
    \<and> \<not> rebind_pending w'"
proof -
  obtain w h where i: "worker_inv (w, h)" "\<not> udp_read_active w" using sample_worker by blast
  let ?w = "rn_on_steering_feedback False w"
  have "worker_inv (?w, h)" by (rule worker_step_keeps [OF i(1), of "Steering_feedback False"]) simp
  moreover have "rebind_pending ?w" "\<not> udp_read_active ?w"
    using i by (simp_all add: rn_on_steering_feedback_def worker_fields)
  moreover have "all_ok sample_sock" by (simp add: all_ok_def sample_sock_def)
  ultimately show ?thesis using rebind_happens by blast
qed

lemma udp_read_batch_witness:
  "\<exists>(p :: process) w. worker p = Some w \<and> client w \<noteq> None
    \<and> (case rn_udp_read_handler (\<lambda>_ _ q. q) (\<lambda>k. if k < 2 then Recv ''x'' (bind_sockaddr sample_main) else Recv_again) p of
        (p', posted) \<Rightarrow> \<not> posted \<and> p' = set_read_active False (set_read_active True p))"
proof -
  obtain w h where i: "worker_inv (w, h)" using sample_worker by blast
  let ?p = "\<lparr>mcf = sample_main, worker = Some w, os = h\<rparr> :: process"
  let ?s = "\<lambda>k :: nat. if k < 2 then Recv ''x'' (bind_sockaddr sample_main) else Recv_again"
  have w: "worker ?p = Some w" "client w \<noteq> None" using i by (simp_all add: worker_inv_def)
  have same: "fold (deliver (\<lambda>_ _ q. q)) rs q = q" for rs and q :: process
  proof (induction rs arbitrary: q)
    case (Cons r rs)
    have "deliver (\<lambda>_ _ q. q) r q = q" by (cases r) simp_all
    with Cons show ?case by simp
  qed simp
  have stop: "\<not> list_all is_datagram (map ?s [0..<64])"
  proof
    assume "list_all is_datagram (map ?s [0..<64])"
    then have "is_datagram (?s 5)" unfolding list_all_iff set_map by (rule bspec) (rule imageI, simp)
    then show False by simp
  qed
  obtain p' posted where run: "rn_udp_read_handler (\<lambda>_ _ q. q) ?s ?p = (p', posted)" by fastforce
  from udp_read_batch [OF w, of "\<lambda>_ _ q. q" ?s] run stop same
  have "\<not> posted \<and> p' = set_read_active False (set_read_active True ?p)" by auto
  with w run have "worker ?p = Some w \<and> client w \<noteq> None
    \<and> (case rn_udp_read_handler (\<lambda>_ _ q. q) ?s ?p of
        (p', posted) \<Rightarrow> \<not> posted \<and> p' = set_read_active False (set_read_active True ?p))"
    by (simp only: run prod.case simp_thms)
  then show ?thesis by (rule exI [where x = w, THEN exI [where x = ?p]])
qed

end
