(* ===== verification/Request_Inv.thy ===== *)
theory Request_Inv
  imports Request_System Worker_Facts
begin

text \<open>
  The invariant of the request path.  A context waits exactly while it owns a live client
  handle, one reference on its request and one unit of the worker's in-flight count; every
  pointer the module keeps leads to an object that exists; what a context says about the end of
  its admission is consistent; and a request has caused at most one rate check.

  Two relaxations hold inside an operation: \<open>P\<close> is the part of a terminated request's cleanup
  list that is still to run, \<open>E\<close> the context that the handler is filling in.  The lemmas of
  this theory are the updates the operations are made of.
\<close>

subsection \<open>The invariant\<close>

definition wait_set :: "(ctx_ptr \<Rightarrow> rn_req_ctx_t option) \<Rightarrow> ctx_ptr set" where
  "wait_set m = {c. case m c of None \<Rightarrow> False | Some x \<Rightarrow> waiting x}"

text \<open>The contexts in a cleanup list, and the number of checks sent for a request.\<close>

fun own_ctxs :: "cleanup list \<Rightarrow> ctx_ptr list" where
  "own_ctxs [] = []"
| "own_ctxs (Rn_request_cleanup c # cs) = c # own_ctxs cs"
| "own_ctxs (Other_cleanup # cs) = own_ctxs cs"

definition checks_of :: "request_ptr \<Rightarrow> sys \<Rightarrow> nat" where
  "checks_of r s = length (filter (\<lambda>(q, _). q = r) (checks s))"

text \<open>A context that waits, with the handle it owns, and one that holds nothing.\<close>

definition holding :: "rn_req_ctx_t \<Rightarrow> client_req \<Rightarrow> bool" where
  "holding x h \<longleftrightarrow> ctx_r x = Some (ctx_pool x) \<and> ctx_worker x \<and> nginx_counted x \<and> inflight_counted x
     \<and> ctx_req x = Some h"

definition idle :: "rn_req_ctx_t \<Rightarrow> bool" where
  "idle x \<longleftrightarrow> \<not> waiting x \<and> ctx_req x = None \<and> \<not> nginx_counted x \<and> \<not> inflight_counted x
     \<and> timer x = None \<and> admission_outcome x \<noteq> RN_ADMISSION_WAITING"

text \<open>
  The combinations of outcome, cause and return code that a context can end with; \<open>opn\<close> is the
  configured fail policy.  The return code of an internal error is the initial one when the
  cleanup handler could not be registered.
\<close>

definition failure_causes :: "rn_completion_cause_t set" where
  "failure_causes = {RN_COMPLETION_START_FAILURE, RN_COMPLETION_DEPENDENCY_ERROR, RN_COMPLETION_TIMEOUT,
     RN_COMPLETION_CARDINALITY_MISMATCH}"

definition settled :: "bool \<Rightarrow> rn_req_ctx_t \<Rightarrow> bool" where
  "settled opn x \<longleftrightarrow> (waiting x \<longleftrightarrow> admission_outcome x = RN_ADMISSION_WAITING) \<and> (case admission_outcome x of
     RN_ADMISSION_NONE \<Rightarrow> ctx_done x \<and> decision x = NGX_DECLINED
       \<and> completion_cause x \<in> {RN_COMPLETION_NONE, RN_COMPLETION_DEPENDENCY_ERROR}
   | RN_ADMISSION_WAITING \<Rightarrow> \<not> ctx_done x \<and> completion_cause x = RN_COMPLETION_NONE
   | RN_ADMISSION_VALID_ALLOW \<Rightarrow> ctx_done x \<and> decision x = NGX_OK
       \<and> completion_cause x = RN_COMPLETION_VALID_VERDICT
   | RN_ADMISSION_VALID_DENY \<Rightarrow> ctx_done x \<and> decision x = NGX_HTTP_TOO_MANY_REQUESTS
       \<and> completion_cause x = RN_COMPLETION_VALID_VERDICT
   | RN_ADMISSION_FAIL_OPEN \<Rightarrow> ctx_done x \<and> opn \<and> decision x = NGX_OK \<and> completion_cause x \<in> failure_causes
   | RN_ADMISSION_FAIL_CLOSE \<Rightarrow> ctx_done x \<and> \<not> opn \<and> decision x = NGX_HTTP_TOO_MANY_REQUESTS
       \<and> completion_cause x \<in> failure_causes
   | RN_ADMISSION_INTERNAL_ERROR \<Rightarrow> ctx_done x \<and> completion_cause x = RN_COMPLETION_NGINX_ERROR
       \<and> decision x \<in> {NGX_HTTP_INTERNAL_SERVER_ERROR, NGX_DECLINED}
   | RN_ADMISSION_ABORTED \<Rightarrow> completion_cause x = RN_COMPLETION_CLIENT_ABORT \<and> (ctx_done x \<or> ctx_r x = None))"

definition ctx_ok :: "cleanup list \<Rightarrow> ctx_ptr set \<Rightarrow> sys \<Rightarrow> ctx_ptr \<Rightarrow> rn_req_ctx_t \<Rightarrow> bool" where
  "ctx_ok P E s c x \<longleftrightarrow> c < next_ctx s \<and> (ctx_worker x \<longrightarrow> worker s \<noteq> None) \<and> \<not> timeout_completed x
     \<and> (ctx_r x = None \<or> ctx_r x = Some (ctx_pool x)) \<and> (c \<in> E \<or> settled (fail_open (mcf s)) x) \<and>
     (case reqs s (ctx_pool x) of
        None \<Rightarrow> False
      | Some q \<Rightarrow> is_main q \<and>
          (if waiting x
           then (\<exists>h. holding x h \<and> handles s h = Some (ctx_pool x)) \<and> slot q = Some c
             \<and> (Rn_request_cleanup c \<in> set P \<or> \<not> terminated q \<and> Rn_request_cleanup c \<in> set (cleanups q))
           else idle x))"

definition req_ok :: "sys \<Rightarrow> request_ptr \<Rightarrow> http_request \<Rightarrow> bool" where
  "req_ok s r q \<longleftrightarrow> r < next_req s
     \<and> (\<forall>c. slot q = Some c \<longrightarrow>
          (\<exists>x. ctxs s c = Some x \<and> ctx_pool x = r \<and> (terminated q \<or> ctx_r x = Some r)))
     \<and> (\<forall>c. Rn_request_cleanup c \<in> set (cleanups q) \<longrightarrow>
          (\<exists>x. ctxs s c = Some x \<and> ctx_pool x = r \<and> ctx_r x = Some r))
     \<and> refcount q = own_refs q + (if suspended s q then 1 else 0)
     \<and> length (own_ctxs (cleanups q)) \<le> 1
     \<and> (terminated q \<or> checks_of r s \<le> length (own_ctxs (cleanups q)))
     \<and> (\<forall>c d. slot q = Some c \<and> Rn_request_cleanup d \<in> set (cleanups q) \<longrightarrow> d = c)"

definition handle_ok :: "sys \<Rightarrow> client_req \<Rightarrow> request_ptr \<Rightarrow> bool" where
  "handle_ok s h r \<longleftrightarrow>
     (\<exists>c x. ctxs s c = Some x \<and> waiting x \<and> ctx_req x = Some h \<and> ctx_pool x = r)"

definition worker_ok :: "sys \<Rightarrow> bool" where
  "worker_ok s \<longleftrightarrow>
     (case worker s of
        None \<Rightarrow> heap_ok (os s)
      | Some w \<Rightarrow> worker_inv (w, os s) \<and> inflight w = card (wait_set (ctxs s)))"

definition sys_inv_while :: "cleanup list \<Rightarrow> ctx_ptr set \<Rightarrow> sys \<Rightarrow> bool" where
  "sys_inv_while P E s \<longleftrightarrow>
     (\<forall>c x. ctxs s c = Some x \<longrightarrow> ctx_ok P E s c x) \<and> (\<forall>r q. reqs s r = Some q \<longrightarrow> req_ok s r q)
     \<and> (\<forall>h r. handles s h = Some r \<longrightarrow> handle_ok s h r) \<and> worker_ok s
     \<and> (\<forall>r. checks_of r s \<le> (if r < next_req s then 1 else 0))"

abbreviation sys_inv :: "sys \<Rightarrow> bool" where
  "sys_inv \<equiv> sys_inv_while [] {}"

lemma inv_ctx: "sys_inv_while P E s \<Longrightarrow> ctxs s c = Some x \<Longrightarrow> ctx_ok P E s c x"
  and inv_req: "sys_inv_while P E s \<Longrightarrow> reqs s r = Some q \<Longrightarrow> req_ok s r q"
  and inv_handle: "sys_inv_while P E s \<Longrightarrow> handles s h = Some r \<Longrightarrow> handle_ok s h r"
  and inv_worker: "sys_inv_while P E s \<Longrightarrow> worker_ok s"
  and inv_checks: "sys_inv_while P E s \<Longrightarrow> checks_of r s \<le> (if r < next_req s then 1 else 0)"
  by (simp_all add: sys_inv_while_def)

lemma own_ctxs_iff [simp]: "c \<in> set (own_ctxs cs) \<longleftrightarrow> Rn_request_cleanup c \<in> set cs"
  by (induction cs rule: own_ctxs.induct) auto

lemma inv_waiting:
  assumes "sys_inv_while P E s" and "ctxs s c = Some x" and "waiting x"
  obtains h q w where "holding x h" and "handles s h = Some (ctx_pool x)" and "reqs s (ctx_pool x) = Some q"
    and "slot q = Some c" and "is_main q" and "worker s = Some w" and "refcount q = own_refs q + 1"
    and "\<not> timeout_completed x"
proof -
  from inv_ctx [OF assms(1,2)] assms(3) obtain h q where hq: "holding x h" "handles s h = Some (ctx_pool x)"
    "reqs s (ctx_pool x) = Some q" "slot q = Some c" "is_main q" "\<not> timeout_completed x"
    "ctx_worker x \<longrightarrow> worker s \<noteq> None"
    by (auto simp: ctx_ok_def split: option.splits)
  then obtain w where "worker s = Some w" by (auto simp: holding_def)
  moreover have "suspended s q" using hq assms(2,3) by (simp add: suspended_def)
  with inv_req [OF assms(1) hq(3)] have "refcount q = own_refs q + 1" by (simp add: req_ok_def)
  ultimately show ?thesis using that hq by blast
qed

lemma inv_idle:
  assumes "sys_inv_while P E s" and "ctxs s c = Some x" and "\<not> waiting x"
  obtains q where "idle x" and "reqs s (ctx_pool x) = Some q" and "is_main q" and "c < next_ctx s"
    and "\<not> timeout_completed x"
  using inv_ctx [OF assms(1,2)] assms(3) that by (auto simp: ctx_ok_def split: option.splits)

lemma inv_outcome:
  assumes "sys_inv_while P E s" and "ctxs s c = Some x"
  shows "admission_outcome x = RN_ADMISSION_WAITING \<longrightarrow> waiting x"
  using inv_ctx [OF assms] by (auto simp: ctx_ok_def idle_def split: option.splits if_split_asm)

lemma finite_waiting: "sys_inv_while P E s \<Longrightarrow> finite (wait_set (ctxs s))"
  by (rule finite_subset [of _ "{..<next_ctx s}"])
    (auto simp: wait_set_def ctx_ok_def dest: inv_ctx split: option.splits)

text \<open>At most one context of a request waits: the one in its slot.\<close>

lemma waiting_unique:
  assumes "sys_inv_while P E s" and "ctxs s c = Some x" "waiting x" and "ctxs s d = Some y" "waiting y"
    and "ctx_pool x = ctx_pool y"
  shows "c = d"
proof -
  obtain h q w where "reqs s (ctx_pool x) = Some q" "slot q = Some c"
    using inv_waiting [OF assms(1-3)] by metis
  moreover obtain h' q' w' where "reqs s (ctx_pool y) = Some q'" "slot q' = Some d"
    using inv_waiting [OF assms(1,4,5)] by metis
  ultimately show ?thesis using assms(6) by simp
qed

lemma handle_unique:
  assumes "sys_inv_while P E s" and "ctxs s c = Some x" "waiting x" and "ctxs s d = Some y" "waiting y"
    and "ctx_req x = Some h" "ctx_req y = Some h"
  shows "c = d"
proof -
  obtain g q w where "holding x g" "handles s g = Some (ctx_pool x)"
    using inv_waiting [OF assms(1-3)] by metis
  moreover obtain g' q' w' where "holding y g'" "handles s g' = Some (ctx_pool y)"
    using inv_waiting [OF assms(1,4,5)] by metis
  ultimately show ?thesis using assms(6,7) waiting_unique [OF assms(1-5)] by (simp add: holding_def)
qed

subsection \<open>Changing one context and its request\<close>

lemma req_ok_cong:
  assumes "req_ok s r q" and "next_req s' = next_req s" and "checks_of r s' = checks_of r s"
    and same: "\<And>c. slot q = Some c \<or> Rn_request_cleanup c \<in> set (cleanups q) \<Longrightarrow> ctxs s' c = ctxs s c"
  shows "req_ok s' r q"
proof -
  have "suspended s' q = suspended s q" using same by (auto simp: suspended_def split: option.splits)
  moreover have "(\<exists>x. ctxs s' c = Some x \<and> Q x) = (\<exists>x. ctxs s c = Some x \<and> Q x)"
    if "slot q = Some c \<or> Rn_request_cleanup c \<in> set (cleanups q)" for c Q
    using same [OF that] by simp
  ultimately show ?thesis using assms(1-3) unfolding req_ok_def by simp
qed

lemma inv_update:
  assumes inv: "sys_inv_while P E s" and q: "reqs s r = Some q"
    and place: "ctxs s c = None \<or> (\<exists>x. ctxs s c = Some x \<and> ctx_pool x = r)"
    and others: "\<And>d z. d \<noteq> c \<Longrightarrow> ctxs s d = Some z \<Longrightarrow> ctx_pool z = r \<Longrightarrow> \<not> waiting z"
    and s': "ctxs s' = (ctxs s)(c \<mapsto> y)" "ctx_pool y = r" "reqs s' = (reqs s)(r \<mapsto> q')" "is_main q'"
      "next_ctx s \<le> next_ctx s'" "next_req s' = next_req s" "fail_open (mcf s') = fail_open (mcf s)"
      "worker s \<noteq> None \<longrightarrow> worker s' \<noteq> None"
    and handles: "\<And>g t. handles s' g = Some t \<Longrightarrow> handle_ok s' g t"
      "\<And>d z g. d \<noteq> c \<Longrightarrow> ctxs s d = Some z \<Longrightarrow> waiting z \<Longrightarrow> ctx_req z = Some g \<Longrightarrow> handles s' g = handles s g"
    and ok: "ctx_ok P E' s' c y" "req_ok s' r q'" "worker_ok s'" "E \<subseteq> insert c E'"
    and checks: "\<And>t. t \<noteq> r \<Longrightarrow> checks_of t s' = checks_of t s" "checks_of r s' \<le> 1"
  shows "sys_inv_while P E' s'"
  unfolding sys_inv_while_def
proof (intro conjI allI impI)
  fix d z assume z: "ctxs s' d = Some z"
  show "ctx_ok P E' s' d z"
  proof (cases "d = c")
    case True
    then show ?thesis using z ok(1) s'(1) by simp
  next
    case False
    then have z': "ctxs s d = Some z" using z s'(1) by simp
    note old = inv_ctx [OF inv z']
    show ?thesis
    proof (cases "ctx_pool z = r")
      case True
      with others [OF False z'] have "\<not> waiting z" by simp
      with old True s' q ok(4) False show ?thesis by (auto simp: ctx_ok_def)
    next
      case other: False
      show ?thesis
      proof (cases "waiting z")
        case True
        obtain h where h: "holding z h" "handles s h = Some (ctx_pool z)" using inv_waiting [OF inv z' True] by metis
        then have "handles s' h = Some (ctx_pool z)" using handles(2) [OF False z' True] by (simp add: holding_def)
        with old True other s' ok(4) False h show ?thesis by (auto simp: ctx_ok_def split: option.splits)
      next
        case False
        with old other s' ok(4) \<open>d \<noteq> c\<close> show ?thesis by (auto simp: ctx_ok_def split: option.splits)
      qed
    qed
  qed
next
  fix t u assume u: "reqs s' t = Some u"
  show "req_ok s' t u"
  proof (cases "t = r")
    case True
    then show ?thesis using u ok(2) s'(3) by simp
  next
    case False
    then have u': "reqs s t = Some u" using u s'(3) by simp
    note old = inv_req [OF inv u']
    have sl: "slot u \<noteq> Some c" and ow: "Rn_request_cleanup c \<notin> set (cleanups u)"
      using old place False by (auto simp: req_ok_def)
    have "ctxs s' d = ctxs s d" if "slot u = Some d \<or> Rn_request_cleanup d \<in> set (cleanups u)" for d
      using that sl ow s'(1) by auto
    with old s'(6) checks(1) [OF False] show ?thesis by (rule req_ok_cong)
  qed
next
  fix t
  have "r < next_req s" using inv_req [OF inv q] by (simp add: req_ok_def)
  then show "checks_of t s' \<le> (if t < next_req s' then 1 else 0)"
    using checks inv_checks [OF inv, of t] s'(6) by (cases "t = r") simp_all
qed (use handles(1) ok(3) in auto)


subsection \<open>The updates of the request path\<close>

text \<open>No check is sent, or the first one of the request.\<close>

definition checks_grow :: "request_ptr \<Rightarrow> http_request \<Rightarrow> sys \<Rightarrow> sys \<Rightarrow> bool" where
  "checks_grow r q s s' \<longleftrightarrow> checks s' = checks s
     \<or> (\<exists>e. checks s' = checks s @ [(r, e)] \<and> checks_of r s < length (own_ctxs (cleanups q)))"

lemma checks_of_append:
  "checks s' = checks s @ [(r, e)] \<Longrightarrow> checks_of t s' = checks_of t s + (if t = r then 1 else 0)"
  by (cases e) (simp add: checks_of_def)

lemma checks_growE:
  assumes "checks_grow r q s s'" and ok: "req_ok s r q" and "checks_of r s \<le> 1"
  shows "t \<noteq> r \<Longrightarrow> checks_of t s' = checks_of t s" and "checks_of r s' \<le> 1"
    and "terminated q \<or> checks_of r s' \<le> length (own_ctxs (cleanups q))"
proof -
  have own: "length (own_ctxs (cleanups q)) \<le> 1" "terminated q \<or> checks_of r s \<le> length (own_ctxs (cleanups q))"
    using ok by (simp_all add: req_ok_def)
  from assms(1) consider "checks s' = checks s"
    | e where "checks s' = checks s @ [(r, e)]" "checks_of r s < length (own_ctxs (cleanups q))"
    by (auto simp: checks_grow_def)
  then have "(t \<noteq> r \<longrightarrow> checks_of t s' = checks_of t s) \<and> checks_of r s' \<le> 1
      \<and> (terminated q \<or> checks_of r s' \<le> length (own_ctxs (cleanups q)))"
  proof cases
    case 1
    then have "checks_of t s' = checks_of t s" for t by (simp add: checks_of_def)
    with assms(3) own show ?thesis by simp
  next
    case 2
    from checks_of_append [OF 2(1)] 2(2) own show ?thesis by simp
  qed
  then show "t \<noteq> r \<Longrightarrow> checks_of t s' = checks_of t s" and "checks_of r s' \<le> 1"
    and "terminated q \<or> checks_of r s' \<le> length (own_ctxs (cleanups q))" by blast+
qed

lemma wait_set_upd:
  "wait_set (m(c \<mapsto> y)) = (if waiting y then insert c (wait_set m) else wait_set m - {c})"
  by (auto simp: wait_set_def)

definition same_req :: "http_request \<Rightarrow> http_request \<Rightarrow> bool" where
  "same_req q q' \<longleftrightarrow> slot q' = slot q \<and> cleanups q' = cleanups q \<and> is_main q' = is_main q
     \<and> refcount q' = refcount q \<and> own_refs q' = own_refs q \<and> terminated q' = terminated q"

text \<open>The parts of the state an update of one context leaves alone.\<close>

definition rest_same :: "sys \<Rightarrow> sys \<Rightarrow> bool" where
  "rest_same s s' \<longleftrightarrow> os s' = os s \<and> next_ctx s' = next_ctx s \<and> next_req s' = next_req s
     \<and> fail_open (mcf s') = fail_open (mcf s)"

lemma quiet_pool:
  assumes inv: "sys_inv_while P E s" and q: "reqs s r = Some q" "\<not> suspended s q"
    and z: "ctxs s d = Some z" "ctx_pool z = r"
  shows "\<not> waiting z"
proof
  assume w: "waiting z"
  then obtain q2 where "reqs s (ctx_pool z) = Some q2" "slot q2 = Some d" using inv_waiting [OF inv z(1)] by metis
  with q z w show False by (simp add: suspended_def)
qed

lemma req_ok_update:
  assumes rq: "req_ok s r q"
    and s': "ctxs s' = (ctxs s)(c \<mapsto> y)" "next_req s' = next_req s" and x: "ctxs s c = Some x" "ctx_pool x = r"
    and y: "ctx_pool y = r" "ctx_r y = ctx_r x \<or> ctx_r y = None \<and> terminated q \<and> Rn_request_cleanup c \<notin> set (cleanups q)"
    and q': "slot q' = slot q" "cleanups q' = cleanups q" "terminated q' = terminated q"
    and counts: "refcount q' = own_refs q' + (if suspended s' q' then 1 else 0)"
      "terminated q \<or> checks_of r s' \<le> length (own_ctxs (cleanups q))"
  shows "req_ok s' r q'"
proof -
  have "\<forall>d. Rn_request_cleanup d \<in> set (cleanups q') \<longrightarrow>
      (\<exists>z. ctxs s' d = Some z \<and> ctx_pool z = r \<and> ctx_r z = Some r)"
    using rq s'(1) q' y x by (auto simp: req_ok_def)
  moreover have "\<forall>d. slot q' = Some d \<longrightarrow>
      (\<exists>z. ctxs s' d = Some z \<and> ctx_pool z = r \<and> (terminated q' \<or> ctx_r z = Some r))"
    using rq s'(1) q' y x by (auto simp: req_ok_def)
  moreover have "length (own_ctxs (cleanups q')) \<le> 1" "r < next_req s'"
    and "\<forall>c d. slot q' = Some c \<and> Rn_request_cleanup d \<in> set (cleanups q') \<longrightarrow> d = c"
    using rq s'(2) q' unfolding req_ok_def by (simp, simp, metis)
  ultimately show ?thesis using counts q' unfolding req_ok_def by simp
qed

lemma inv_idle_update:
  assumes inv: "sys_inv_while P E s" and x: "ctxs s c = Some x" "\<not> waiting x" and q: "reqs s (ctx_pool x) = Some q"
    and quiet: "\<not> suspended s q"
    and s': "ctxs s' = (ctxs s)(c \<mapsto> y)" "reqs s' = (reqs s)(ctx_pool x \<mapsto> q')" "handles s' = handles s"
      "rest_same s s'" "same_req q q'" "checks_grow (ctx_pool x) q s s'"
    and w: "worker_ok s'" "worker s \<noteq> None \<longrightarrow> worker s' \<noteq> None"
    and y: "idle y" "ctx_pool y = ctx_pool x" "ctx_r y = ctx_r x \<or> ctx_r y = None \<and> terminated q \<and> Rn_request_cleanup c \<notin> set (cleanups q)"
      "ctx_worker y \<longrightarrow> worker s' \<noteq> None" "\<not> timeout_completed y"
    and e: "c \<in> E' \<or> settled (fail_open (mcf s)) y" "E \<subseteq> insert c E'"
  shows "sys_inv_while P E' s'"
proof -
  note rq = inv_req [OF inv q] and cx = inv_ctx [OF inv x(1)]
  have r: "ctx_pool x < next_req s" using rq by (simp add: req_ok_def)
  have "checks_of (ctx_pool x) s \<le> 1" using inv_checks [OF inv, of "ctx_pool x"] r by simp
  note grow = checks_growE [OF s'(6) rq this]
  have own: "handle_ok s' g t" if h: "handles s' g = Some t" for g t
  proof -
    from inv_handle [OF inv, of g t] h s'(3) obtain d z where dz: "ctxs s d = Some z" "waiting z" "ctx_req z = Some g" "ctx_pool z = t"
      by (auto simp: handle_ok_def)
    with x have "d \<noteq> c" by auto
    with dz s'(1) show ?thesis by (auto simp: handle_ok_def)
  qed
  have nw: "\<not> waiting y" using y(1) by (simp add: idle_def)
  have sus: "\<not> suspended s' q'"
    using s'(1,5) nw quiet by (auto simp: suspended_def same_req_def split: option.splits)
  have rq': "req_ok s' (ctx_pool x) q'"
    by (rule req_ok_update [OF rq s'(1) _ x(1) refl y(2,3)])
      (use rq s'(4,5) quiet sus grow(3) in \<open>simp_all add: same_req_def rest_same_def req_ok_def\<close>)
  have cx': "ctx_ok P E' s' c y"
    using cx x q s' y nw e by (auto simp: ctx_ok_def rest_same_def same_req_def)
  show ?thesis
  proof (rule inv_update [OF inv q, where c = c and y = y and q' = q'])
    show "\<not> waiting z" if "d \<noteq> c" "ctxs s d = Some z" "ctx_pool z = ctx_pool x" for d z
      by (rule quiet_pool [OF inv q quiet that(2,3)])
    show "is_main q'" using cx q s'(5) by (simp add: ctx_ok_def same_req_def)
  qed (use s' y(2) e(2) w grow(1,2) own rq' cx' x(1) in \<open>simp_all add: rest_same_def\<close>)
qed

end
