(* ===== verification/Request_Updates.thy ===== *)
theory Request_Updates
  imports Request_Inv
begin

text \<open>
  The updates the operations of the request path are made of, as lemmas on the invariant: a
  context gives up what it holds, a context takes a handle, a new context, a change of a
  request, a change of the worker.
\<close>

lemma worker_keeps:
  assumes "worker s = Some w" and "worker_ok s" and "worker_step e (w, os s) = Some (w', os s')" and "worker s' = Some w'"
    and "inflight w = card (wait_set (ctxs s)) \<Longrightarrow> inflight w' = card (wait_set (ctxs s'))"
  shows "worker_ok s'"
  using assms worker_step_keeps [of "(w, os s)" e "(w', os s')"] by (simp add: worker_ok_def)

lemma inv_release:
  assumes inv: "sys_inv_while P E s" and x: "ctxs s c = Some x" "waiting x" "ctx_req x = Some h"
    and q: "reqs s (ctx_pool x) = Some q" and w: "worker s = Some w"
    and s': "ctxs s' = (ctxs s)(c \<mapsto> y)" "reqs s' = (reqs s)(ctx_pool x \<mapsto> q')" "handles s' = (handles s)(h := None)"
      "rest_same s s'" "checks s' = checks s" "worker s' = Some (rn_schedule_rebind (uncount_request w))"
    and q': "slot q' = slot q" "cleanups q' = cleanups q" "is_main q' = is_main q" "refcount q' = refcount q - 1"
      "own_refs q' = own_refs q" "terminated q' = terminated q"
    and y: "idle y" "ctx_pool y = ctx_pool x"
      "ctx_r y = ctx_r x \<or> ctx_r y = None \<and> terminated q \<and> Rn_request_cleanup c \<notin> set (cleanups q)"
      "\<not> timeout_completed y" "c \<in> E \<or> settled (fail_open (mcf s)) y"
  shows "sys_inv_while P E s'"
proof -
  note rq = inv_req [OF inv q] and cx = inv_ctx [OF inv x(1)]
  have nw: "\<not> waiting y" using y(1) by (simp add: idle_def)
  have slot: "slot q = Some c" and ref: "refcount q = own_refs q + 1"
    using inv_waiting [OF inv x(1,2)] q by (metis option.inject)+
  have same_checks: "checks_of t s' = checks_of t s" for t using s'(5) by (simp add: checks_of_def)
  have own: "handle_ok s' g t" if h: "handles s' g = Some t" for g t
  proof -
    from h s'(3) have g: "g \<noteq> h" "handles s g = Some t" by (auto split: if_split_asm)
    with inv_handle [OF inv, of g t] obtain d z where dz: "ctxs s d = Some z" "waiting z" "ctx_req z = Some g" "ctx_pool z = t"
      by (auto simp: handle_ok_def)
    with x g have "d \<noteq> c" by auto
    with dz s'(1) show ?thesis by (auto simp: handle_ok_def)
  qed
  have sus: "\<not> suspended s' q'" using s'(1) q'(1) slot nw by (simp add: suspended_def)
  have rq': "req_ok s' (ctx_pool x) q'"
  proof (rule req_ok_update [OF rq s'(1) _ x(1) refl y(2,3) q'(1,2,6)])
    show "next_req s' = next_req s" using s'(4) by (simp add: rest_same_def)
    show "refcount q' = own_refs q' + (if suspended s' q' then 1 else 0)" using ref q' sus by simp
    show "terminated q \<or> checks_of (ctx_pool x) s' \<le> length (own_ctxs (cleanups q))"
      using rq by (simp add: same_checks req_ok_def)
  qed
  have cx': "ctx_ok P E s' c y"
    using cx x q s' q'(3) y nw by (auto simp: ctx_ok_def rest_same_def)
  have "card (wait_set (ctxs s')) = card (wait_set (ctxs s)) - 1"
    using x nw finite_waiting [OF inv] by (simp add: s'(1) wait_set_upd) (simp add: wait_set_def)
  then have w': "worker_ok s'"
    using worker_keeps [OF w inv_worker [OF inv], of Request_finished] s'(4,6)
    by (auto simp: rest_same_def worker_fields uncount_request_def)
  show ?thesis
  proof (rule inv_update [OF inv q, where c = c and y = y and q' = q'])
    show "\<not> waiting z" if "d \<noteq> c" "ctxs s d = Some z" "ctx_pool z = ctx_pool x" for d z
      using waiting_unique [OF inv that(2) _ x(1,2) that(3)] that(1) by blast
    show "handles s' g = handles s g" if "d \<noteq> c" "ctxs s d = Some z" "waiting z" "ctx_req z = Some g" for d z g
      using handle_unique [OF inv that(2,3) x(1,2) that(4), of] that(1) x(3) s'(3) by auto
    show "is_main q'" using cx q q' by (simp add: ctx_ok_def)
    show "checks_of (ctx_pool x) s' \<le> 1"
      using inv_checks [OF inv, of "ctx_pool x"] same_checks by (simp split: if_split_asm)
  qed (use s' y(2) w' own rq' cx' x(1) same_checks in \<open>simp_all add: rest_same_def subset_insertI\<close>)
qed

text \<open>The opposite: the context in the slot of a live request starts to wait.\<close>

lemma inv_acquire:
  assumes inv: "sys_inv_while P E s" and x: "ctxs s c = Some x" "\<not> waiting x"
    and q: "reqs s (ctx_pool x) = Some q" "slot q = Some c" "Rn_request_cleanup c \<in> set (cleanups q)" "\<not> terminated q"
    and w: "worker s = Some w" and h: "handles s h = None"
    and s': "ctxs s' = (ctxs s)(c \<mapsto> y)" "reqs s' = (reqs s)(ctx_pool x \<mapsto> q')"
      "handles s' = (handles s)(h \<mapsto> ctx_pool x)"
      "rest_same s s'" "checks_grow (ctx_pool x) q s s'" "worker s' = Some (count_request w)"
    and q': "slot q' = slot q" "cleanups q' = cleanups q" "is_main q' = is_main q" "refcount q' = refcount q + 1"
      "own_refs q' = own_refs q" "terminated q' = terminated q"
    and y: "waiting y" "holding y h" "ctx_pool y = ctx_pool x" "\<not> timeout_completed y" "settled (fail_open (mcf s)) y"
    and e: "E \<subseteq> insert c E'"
  shows "sys_inv_while P E' s'"
proof -
  note rq = inv_req [OF inv q(1)] and cx = inv_ctx [OF inv x(1)]
  have quiet: "\<not> suspended s q" using x q(2) by (simp add: suspended_def)
  have r: "ctx_pool x < next_req s" using rq by (simp add: req_ok_def)
  have "checks_of (ctx_pool x) s \<le> 1" using inv_checks [OF inv, of "ctx_pool x"] r by simp
  note grow = checks_growE [OF s'(5) rq this]
  have cr: "ctx_r x = Some (ctx_pool x)" using rq q(3) x(1) by (auto simp: req_ok_def)
  have sus: "suspended s' q'" using s'(1) q'(1) q(2) y(1) by (simp add: suspended_def)
  have own: "handle_ok s' g t" if g: "handles s' g = Some t" for g t
  proof (cases "g = h")
    case True
    then show ?thesis using g s'(1,3) y(1-3) by (auto simp: handle_ok_def holding_def)
  next
    case False
    with g s'(3) inv_handle [OF inv, of g t] obtain d z where
      dz: "ctxs s d = Some z" "waiting z" "ctx_req z = Some g" "ctx_pool z = t"
      by (auto simp: handle_ok_def)
    with x have "d \<noteq> c" by auto
    with dz s'(1) show ?thesis by (auto simp: handle_ok_def)
  qed
  have rq': "req_ok s' (ctx_pool x) q'"
  proof (rule req_ok_update [OF rq s'(1) _ x(1) refl y(3) _ q'(1,2,6)])
    show "next_req s' = next_req s" using s'(4) by (simp add: rest_same_def)
    show "ctx_r y = ctx_r x \<or> ctx_r y = None \<and> terminated q \<and> Rn_request_cleanup c \<notin> set (cleanups q)"
      using cr y(2,3) by (simp add: holding_def)
    show "refcount q' = own_refs q' + (if suspended s' q' then 1 else 0)"
      using rq q' sus quiet by (simp add: req_ok_def)
  qed (rule grow(3))
  have cx': "ctx_ok P E' s' c y"
    using cx x q s' q' y by (auto simp: ctx_ok_def rest_same_def holding_def)
  have "card (wait_set (ctxs s')) = card (wait_set (ctxs s)) + 1"
    using x y(1) finite_waiting [OF inv] by (simp add: s'(1) wait_set_upd) (simp add: wait_set_def)
  then have w': "worker_ok s'"
    using worker_keeps [OF w inv_worker [OF inv], of Request_started] s'(4,6)
    by (auto simp: rest_same_def count_request_def)
  show ?thesis
  proof (rule inv_update [OF inv q(1), where c = c and y = y and q' = q'])
    show "\<not> waiting z" if "d \<noteq> c" "ctxs s d = Some z" "ctx_pool z = ctx_pool x" for d z
      by (rule quiet_pool [OF inv q(1) quiet that(2,3)])
    show "handles s' g = handles s g" if d: "d \<noteq> c" "ctxs s d = Some z" "waiting z" "ctx_req z = Some g" for d z g
    proof -
      obtain g' where "holding z g'" "handles s g' \<noteq> None"
        using inv_waiting [OF inv d(2,3)] by (metis option.distinct(1))
      with d(4) h have "g \<noteq> h" by (auto simp: holding_def)
      with s'(3) show ?thesis by simp
    qed
    show "is_main q'" using cx q q' by (simp add: ctx_ok_def)
  qed (use s' y(3) e w' own rq' cx' x(1) grow in \<open>simp_all add: rest_same_def\<close>)
qed

text \<open>A new context in the slot of a request.\<close>

lemma inv_new_ctx:
  assumes inv: "sys_inv_while P {} s" and q: "reqs s r = Some q" "is_main q" "\<not> suspended s q" "own_ctxs (cleanups q) = []"
    and s': "ctxs s' = (ctxs s)(next_ctx s \<mapsto> y)" "reqs s' = (reqs s)(r \<mapsto> q')" "handles s' = handles s"
      "checks s' = checks s" "worker s' = worker s" "os s' = os s" "next_ctx s' = next_ctx s + 1"
      "next_req s' = next_req s" "fail_open (mcf s') = fail_open (mcf s)"
    and q': "slot q' = Some (next_ctx s)" "own_ctxs (cleanups q') \<in> {[], [next_ctx s]}" "is_main q' = is_main q"
      "refcount q' = refcount q" "own_refs q' = own_refs q" "terminated q' = terminated q"
    and y: "idle y" "ctx_pool y = r" "ctx_r y = Some r" "\<not> ctx_worker y" "\<not> timeout_completed y"
    and e: "next_ctx s \<in> E' \<or> settled (fail_open (mcf s)) y"
  shows "sys_inv_while P E' s'"
proof -
  note rq = inv_req [OF inv q(1)]
  have fresh: "ctxs s (next_ctx s) = None"
  proof (rule ccontr)
    assume "ctxs s (next_ctx s) \<noteq> None"
    then show False using inv_ctx [OF inv, of "next_ctx s"] by (auto simp: ctx_ok_def)
  qed
  have nw: "\<not> waiting y" using y(1) by (simp add: idle_def)
  have same_checks: "checks_of t s' = checks_of t s" for t using s'(4) by (simp add: checks_of_def)
  have sus: "\<not> suspended s' q'" using s'(1) q'(1) nw by (simp add: suspended_def)
  have own: "handle_ok s' g t" if "handles s' g = Some t" for g t
    using inv_handle [OF inv, of g t] that s'(1,3) fresh unfolding handle_ok_def
    by (metis fun_upd_other option.distinct(1))
  have cs: "Rn_request_cleanup d \<in> set (cleanups q') \<Longrightarrow> d = next_ctx s" for d
    using q'(2) by (auto simp flip: own_ctxs_iff)
  have "length (own_ctxs (cleanups q')) \<le> 1" using q'(2) by auto
  moreover have "terminated q \<or> checks_of r s = 0" "r < next_req s" "refcount q = own_refs q"
    using rq q by (simp_all add: req_ok_def)
  ultimately have rq': "req_ok s' r q'"
    unfolding req_ok_def same_checks using q' y(2,3) sus cs s'(1,8) by (auto dest: cs)
  have cx': "ctx_ok P E' s' (next_ctx s) y"
    using s' q' q y nw e by (auto simp: ctx_ok_def)
  have "wait_set (ctxs s') = wait_set (ctxs s)"
    using fresh nw by (auto simp: s'(1) wait_set_def)
  then have w': "worker_ok s'" using inv_worker [OF inv] s' by (simp add: worker_ok_def split: option.splits)
  show ?thesis
  proof (rule inv_update [OF inv q(1), where c = "next_ctx s" and y = y and q' = q'])
    show "\<not> waiting z" if "d \<noteq> next_ctx s" "ctxs s d = Some z" "ctx_pool z = r" for d z
      by (rule quiet_pool [OF inv q(1,3) that(2,3)])
    show "checks_of r s' \<le> 1"
      using inv_checks [OF inv, of r] same_checks by (simp split: if_split_asm)
  qed (use s' q q' y(2) w' own rq' cx' fresh same_checks in simp_all)
qed

text \<open>A change of a request that leaves its suspension, and every context, alone.\<close>

lemma inv_request:
  assumes inv: "sys_inv_while P E s" and q: "reqs s r = Some q"
    and s': "ctxs s' = ctxs s" "reqs s' = (reqs s)(r \<mapsto> q')" "handles s' = handles s" "checks s' = checks s"
      "worker s' = worker s" "rest_same s s'"
    and q': "is_main q' = is_main q" "req_ok s' r q'"
    and kept: "\<And>c. slot q = Some c \<Longrightarrow> suspended s q \<Longrightarrow> slot q' = Some c \<and>
      (Rn_request_cleanup c \<in> set P' \<or> \<not> terminated q' \<and> Rn_request_cleanup c \<in> set (cleanups q'))"
    and P: "P' = P \<or> P = []"
  shows "sys_inv_while P' E s'"
  unfolding sys_inv_while_def
proof (intro conjI allI impI)
  fix c x assume "ctxs s' c = Some x"
  then have x: "ctxs s c = Some x" using s'(1) by simp
  note cx = inv_ctx [OF inv x]
  show "ctx_ok P' E s' c x"
  proof (cases "ctx_pool x = r")
    case True
    have "slot q = Some c \<and> suspended s q" if "waiting x"
      using that cx q x True by (simp add: ctx_ok_def suspended_def)
    with kept cx q s' q'(1) True show ?thesis by (auto simp: ctx_ok_def rest_same_def)
  next
    case False
    with cx s' P show ?thesis by (auto simp: ctx_ok_def rest_same_def split: option.splits)
  qed
next
  fix t u assume u: "reqs s' t = Some u"
  have checks: "checks_of t s' = checks_of t s" using s'(4) by (simp add: checks_of_def)
  show "req_ok s' t u"
  proof (cases "t = r")
    case True
    then show ?thesis using u q'(2) s'(2) by simp
  next
    case False
    then have "req_ok s t u" using u s'(2) inv_req [OF inv] by simp
    then show ?thesis by (rule req_ok_cong) (use s' checks in \<open>simp_all add: rest_same_def\<close>)
  qed
next
  fix t
  have "checks_of t s' = checks_of t s" using s'(4) by (simp add: checks_of_def)
  then show "checks_of t s' \<le> (if t < next_req s' then 1 else 0)"
    using inv_checks [OF inv, of t] s'(6) by (simp add: rest_same_def)
next
  show "worker_ok s'" using inv_worker [OF inv] s' by (simp add: worker_ok_def rest_same_def split: option.splits)
  show "handle_ok s' h t" if "handles s' h = Some t" for h t
    using inv_handle [OF inv, of h t] that s'(1,3) by (simp add: handle_ok_def)
qed

text \<open>A change of the worker alone, and the end of the relaxations.\<close>

lemma inv_worker_change:
  assumes inv: "sys_inv_while P E s"
    and s': "ctxs s' = ctxs s" "reqs s' = reqs s" "handles s' = handles s" "checks s' = checks s"
      "next_ctx s' = next_ctx s" "next_req s' = next_req s" "fail_open (mcf s') = fail_open (mcf s)"
    and w: "worker_ok s'" "worker s \<noteq> None \<longrightarrow> worker s' \<noteq> None"
  shows "sys_inv_while P E s'"
proof -
  have "checks_of t s' = checks_of t s" for t using s'(4) by (simp add: checks_of_def)
  moreover have "ctx_ok P E s' c x" if "ctx_ok P E s c x" for c x
    using that s' w(2) by (auto simp: ctx_ok_def split: option.splits)
  moreover have "req_ok s' r q" if "req_ok s r q" for r q
    using that by (rule req_ok_cong) (use s' calculation(1) in simp_all)
  ultimately show ?thesis using inv s' w(1) by (simp add: sys_inv_while_def handle_ok_def)
qed

lemma inv_done_cleanup:
  assumes inv: "sys_inv_while (Rn_request_cleanup c # P) E s" and "ctxs s c = Some x" "\<not> waiting x"
  shows "sys_inv_while P E s"
proof -
  have "ctx_ok P E s d z" if z: "ctxs s d = Some z" for d z
    using inv_ctx [OF inv z] assms(2,3) z by (cases "d = c") (auto simp: ctx_ok_def split: option.splits)
  with inv show ?thesis by (simp add: sys_inv_while_def)
qed

end
