(* ===== verification/Request_Ends.thy ===== *)
theory Request_Ends
  imports Request_Updates
begin

text \<open>
  The ends of a check: teardown, the cleanup of a terminated request, the completion callback,
  the deadline timer and the log phase keep the invariant of \<open>Request_Inv\<close>, never fault, and
  never change a decision that was reached.
\<close>

text \<open>A decision that was reached stays, and a context that was freed does not come back.\<close>

definition continues :: "sys \<Rightarrow> sys \<Rightarrow> bool" where
  "continues s s' \<longleftrightarrow> next_ctx s \<le> next_ctx s' \<and> fail_open (mcf s') = fail_open (mcf s) \<and> (\<forall>c y. c < next_ctx s \<and> ctxs s' c = Some y \<longrightarrow>
     (\<exists>x. ctxs s c = Some x \<and> ctx_pool y = ctx_pool x \<and> (ctx_done x \<longrightarrow> ctx_done y \<and> decision y = decision x)))"

lemma continues_refl [simp]: "continues s s"
  by (simp add: continues_def)

lemma continues_trans:
  assumes st: "continues s t" and tu: "continues t u"
  shows "continues s u"
  unfolding continues_def
proof (intro conjI allI impI)
  show "next_ctx s \<le> next_ctx u" "fail_open (mcf u) = fail_open (mcf s)" using st tu by (simp_all add: continues_def)
next
  fix c y assume c: "c < next_ctx s \<and> ctxs u c = Some y"
  then have "c < next_ctx t" using st by (simp add: continues_def)
  with c tu obtain x where x: "ctxs t c = Some x" "ctx_pool y = ctx_pool x"
    "ctx_done x \<longrightarrow> ctx_done y \<and> decision y = decision x" by (auto simp: continues_def)
  with c st show "\<exists>x. ctxs s c = Some x \<and> ctx_pool y = ctx_pool x
      \<and> (ctx_done x \<longrightarrow> ctx_done y \<and> decision y = decision x)"
    by (fastforce simp: continues_def)
qed

lemma continues_done:
  "continues s s' \<Longrightarrow> c < next_ctx s \<Longrightarrow> ctxs s c = Some x \<Longrightarrow> ctx_done x \<Longrightarrow> ctxs s' c = Some y
    \<Longrightarrow> ctx_done y \<and> decision y = decision x"
  by (fastforce simp: continues_def)

lemma continues_same:
  "ctxs s' = ctxs s \<Longrightarrow> next_ctx s' = next_ctx s \<Longrightarrow> fail_open (mcf s') = fail_open (mcf s) \<Longrightarrow> continues s s'"
  by (simp add: continues_def)

lemma continues_upd:
  "ctxs s' = (ctxs s)(c \<mapsto> y) \<Longrightarrow> next_ctx s' = next_ctx s \<Longrightarrow> ctxs s c = Some x \<Longrightarrow> ctx_pool y = ctx_pool x
    \<Longrightarrow> fail_open (mcf s') = fail_open (mcf s)
    \<Longrightarrow> (ctx_done x \<longrightarrow> ctx_done y \<and> decision y = decision x) \<Longrightarrow> continues s s'"
  by (auto simp: continues_def)

lemma continues_new:
  "ctxs s' = (ctxs s)(next_ctx s \<mapsto> y) \<Longrightarrow> next_ctx s' = next_ctx s + 1
    \<Longrightarrow> fail_open (mcf s') = fail_open (mcf s) \<Longrightarrow> continues s s'"
  by (auto simp: continues_def)

subsection \<open>Finding the context\<close>

lemma find_cleanup_ok:
  assumes "\<And>c. Rn_request_cleanup c \<in> set cs \<Longrightarrow> \<exists>x. ctxs s c = Some x \<and> ctx_r x = Some r"
  shows "find_cleanup r cs s = Some (case own_ctxs cs of [] \<Rightarrow> None | c # _ \<Rightarrow> Some c)"
  using assms
proof (induction r cs s rule: find_cleanup.induct)
  case (3 r c cs s)
  from 3(2) [of c] show ?case by auto
qed simp_all

lemma get_ctx_ok:
  assumes inv: "sys_inv s" and q: "reqs s r = Some q"
  obtains ctx s' where "rn_get_request_ctx r s = Some (ctx, s')" and "s' = s\<lparr>reqs := (reqs s)(r \<mapsto> q\<lparr>slot := ctx\<rparr>)\<rparr>"
    and "sys_inv s'" and "ctx = None \<Longrightarrow> own_ctxs (cleanups q) = []" and "ctx = None \<Longrightarrow> slot q = None"
proof (cases "slot q")
  case (Some c)
  have "s\<lparr>reqs := (reqs s)(r \<mapsto> q\<lparr>slot := Some c\<rparr>)\<rparr> = s" using Some q by (simp add: fun_upd_idem)
  with that [of "Some c" s] show ?thesis using Some q inv by (simp add: rn_get_request_ctx_def)
next
  case None
  note rq = inv_req [OF inv q]
  have own: "\<exists>x. ctxs s c = Some x \<and> ctx_pool x = r \<and> ctx_r x = Some r" if "Rn_request_cleanup c \<in> set (cleanups q)" for c
    using rq that by (simp add: req_ok_def)
  then have found: "find_cleanup r (cleanups q) s = Some (case own_ctxs (cleanups q) of [] \<Rightarrow> None | c # _ \<Rightarrow> Some c)"
    by (intro find_cleanup_ok) blast
  have quiet: "\<not> suspended s q" using None by (simp add: suspended_def)
  show ?thesis
  proof (cases "own_ctxs (cleanups q)")
    case Nil
    have "s\<lparr>reqs := (reqs s)(r \<mapsto> q\<lparr>slot := None\<rparr>)\<rparr> = s" using None q by (simp add: fun_upd_idem)
    with that [of None s] show ?thesis using None Nil q found inv by (simp add: rn_get_request_ctx_def)
  next
    case (Cons c cs)
    then have mem: "Rn_request_cleanup c \<in> set (cleanups q)" by (metis list.set_intros(1) own_ctxs_iff)
    obtain x where x: "ctxs s c = Some x" "ctx_pool x = r" "ctx_r x = Some r" using own [OF mem] by blast
    have "\<not> waiting x" by (rule quiet_pool [OF inv q quiet x(1,2)])
    let ?s = "s\<lparr>reqs := (reqs s)(r \<mapsto> q\<lparr>slot := Some c\<rparr>)\<rparr>"
    have "cs = []" using rq Cons by (simp add: req_ok_def)
    then have only: "d = c" if "Rn_request_cleanup d \<in> set (cleanups q)" for d
      using that Cons by (auto simp flip: own_ctxs_iff)
    have "checks_of r ?s = checks_of r s" by (simp add: checks_of_def)
    moreover have "\<not> suspended ?s (q\<lparr>slot := Some c\<rparr>)" using x(1) \<open>\<not> waiting x\<close> by (simp add: suspended_def)
    ultimately have "req_ok ?s r (q\<lparr>slot := Some c\<rparr>)"
      using rq quiet x only unfolding req_ok_def by (auto dest: only)
    then have "sys_inv ?s"
      by (intro inv_request [OF inv q]) (use quiet in \<open>simp_all add: rest_same_def\<close>)
    with that [of "Some c" ?s] show ?thesis
      using None Cons q found by (simp add: rn_get_request_ctx_def upd_req_def)
  qed
qed

subsection \<open>Teardown\<close>

definition released :: "rn_req_ctx_t \<Rightarrow> rn_req_ctx_t" where
  "released x = x\<lparr>timer := None, ctx_req := None, inflight_counted := False, nginx_counted := False, waiting := False\<rparr>"

lemma teardown_holding:
  assumes "ctxs s c = Some x" and "holding x h" and "worker s = Some w" and "client w \<noteq> None"
    and "reqs s (ctx_pool x) = Some q" and "refcount q > 0"
    and "cancel \<Longrightarrow> handles s h \<noteq> None" and "cancel \<or> cr = Some h"
  shows "rn_request_teardown c cr cancel s = Some (s\<lparr>ctxs := (ctxs s)(c \<mapsto> released x),
      handles := (if cancel then (handles s)(h := None) else handles s),
      worker := Some (rn_schedule_rebind (uncount_request w)),
      reqs := (reqs s)(ctx_pool x \<mapsto> q\<lparr>refcount := refcount q - 1\<rparr>)\<rparr>)"
  using assms
  by (auto simp: rn_request_teardown_def holding_def upd_ctx_def upd_worker_def upd_req_def cancel_request_def
      released_def Let_def split: option.splits)

lemma teardown_idle:
  assumes "ctxs s c = Some x" and "idle x" and "ctx_worker x \<longrightarrow> worker s \<noteq> None"
  shows "rn_request_teardown c None True s =
    Some (if ctx_worker x then s\<lparr>worker := map_option rn_schedule_rebind (worker s)\<rparr> else s)"
proof -
  have "x\<lparr>timer := None, ctx_req := None, waiting := False\<rparr> = x"
    using assms(2) by (cases x) (simp add: idle_def)
  with assms show ?thesis
    by (auto simp: rn_request_teardown_def idle_def upd_ctx_def upd_worker_def Let_def fun_upd_idem split: option.splits)
qed

text \<open>What every operation promises: the invariant, stability, and the timeout flag left alone.\<close>

definition keeps :: "sys \<Rightarrow> sys \<Rightarrow> bool" where
  "keeps s s' \<longleftrightarrow> sys_inv s' \<and> continues s s' \<and> completed s' = completed s"

lemma keeps_trans: "keeps s t \<Longrightarrow> keeps t u \<Longrightarrow> keeps s u"
  by (auto simp: keeps_def intro: continues_trans)

subsection \<open>Cleanup and release\<close>

lemma schedule_keeps: "worker_inv (w, h) \<Longrightarrow> worker_inv (rn_schedule_rebind w, h)"
  using schedule_arms [of w 0]
  by (auto simp: worker_inv_def worker_fields rn_schedule_rebind_def rebind_armed_def intro: owns_cong)

lemma schedule_all_ok:
  assumes "worker_ok s" and "worker s' = map_option rn_schedule_rebind (worker s)" and "os s' = os s"
    and "wait_set (ctxs s') = wait_set (ctxs s)"
  shows "worker_ok s'"
  using assms schedule_keeps by (auto simp: worker_ok_def worker_fields split: option.splits)

lemma wait_set_idle: "ctxs s c = Some x \<Longrightarrow> \<not> waiting x \<Longrightarrow> \<not> waiting y \<Longrightarrow> wait_set ((ctxs s)(c \<mapsto> y)) = wait_set (ctxs s)"
  by (auto simp: wait_set_def)

lemma released_idle: "admission_outcome x \<noteq> RN_ADMISSION_WAITING \<Longrightarrow> idle (released x)"
  by (simp add: idle_def released_def)

lemma settled_cong:
  "admission_outcome y = admission_outcome x \<Longrightarrow> completion_cause y = completion_cause x \<Longrightarrow> decision y = decision x
    \<Longrightarrow> ctx_done y = ctx_done x \<Longrightarrow> waiting y = waiting x \<Longrightarrow> ctx_r y = None \<or> ctx_r y = ctx_r x
    \<Longrightarrow> settled opn x \<Longrightarrow> settled opn y"
  by (auto simp: settled_def split: rn_admission_outcome_t.splits)

definition aborted :: "rn_req_ctx_t \<Rightarrow> rn_req_ctx_t" where
  "aborted x = (released (x\<lparr>admission_outcome := RN_ADMISSION_ABORTED,
     completion_cause := RN_COMPLETION_CLIENT_ABORT\<rparr>))\<lparr>ctx_r := None\<rparr>"

lemma cleanup_waiting:
  assumes inv: "sys_inv_while P E s" and x: "ctxs s c = Some x" "waiting x" "admission_outcome x = RN_ADMISSION_WAITING"
    and h: "holding x h" "worker s = Some w" "reqs s (ctx_pool x) = Some q"
  shows "rn_request_cleanup c s = Some (s\<lparr>handles := (handles s)(h := None),
      worker := Some (rn_schedule_rebind (uncount_request w)),
      reqs := (reqs s)(ctx_pool x \<mapsto> q\<lparr>refcount := refcount q - 1\<rparr>), ctxs := (ctxs s)(c \<mapsto> aborted x)\<rparr>)"
proof -
  let ?x = "x\<lparr>admission_outcome := RN_ADMISSION_ABORTED, completion_cause := RN_COMPLETION_CLIENT_ABORT\<rparr>"
  let ?s = "s\<lparr>ctxs := (ctxs s)(c \<mapsto> ?x)\<rparr>"
  have cl: "client w \<noteq> None" using inv_worker [OF inv] h(2) by (simp add: worker_ok_def worker_inv_def)
  obtain g q2 where "holding x g" "handles s g = Some (ctx_pool x)" "reqs s (ctx_pool x) = Some q2" "refcount q2 = own_refs q2 + 1"
    using inv_waiting [OF inv x(1,2)] by metis
  with h have hd: "handles s h \<noteq> None" "refcount q > 0" by (auto simp: holding_def)
  have "rn_request_teardown c None True ?s = Some (?s\<lparr>ctxs := (ctxs ?s)(c \<mapsto> released ?x),
      handles := (if True then (handles ?s)(h := None) else handles ?s),
      worker := Some (rn_schedule_rebind (uncount_request w)),
      reqs := (reqs ?s)(ctx_pool ?x \<mapsto> q\<lparr>refcount := refcount q - 1\<rparr>)\<rparr>)"
    by (rule teardown_holding) (use h hd cl in \<open>auto simp: holding_def\<close>)
  then show ?thesis
    using x by (simp add: rn_request_cleanup_def upd_ctx_def aborted_def released_def)
qed

lemma cleanup_idle:
  assumes inv: "sys_inv_while P E s" and x: "ctxs s c = Some x" "\<not> waiting x"
  shows "rn_request_cleanup c s = Some (s\<lparr>ctxs := (ctxs s)(c \<mapsto> x\<lparr>ctx_r := None\<rparr>),
      worker := (if ctx_worker x then map_option rn_schedule_rebind (worker s) else worker s)\<rparr>)"
proof -
  have "idle x" "ctx_worker x \<longrightarrow> worker s \<noteq> None"
    using inv_ctx [OF inv x(1)] x(2) by (auto simp: ctx_ok_def split: option.splits)
  with teardown_idle [OF x(1)] x(1) show ?thesis
    by (auto simp: rn_request_cleanup_def upd_ctx_def idle_def)
qed

lemma settled_done: "settled opn x \<Longrightarrow> \<not> waiting x \<Longrightarrow> ctx_done x \<or> ctx_r x = None"
  by (auto simp: settled_def split: rn_admission_outcome_t.splits)

lemma waiting_settled:
  "settled opn x \<Longrightarrow> waiting x \<Longrightarrow>
    admission_outcome x = RN_ADMISSION_WAITING \<and> \<not> ctx_done x \<and> completion_cause x = RN_COMPLETION_NONE"
  by (auto simp: settled_def)

lemma inv_settled: "sys_inv_while P {} s \<Longrightarrow> ctxs s c = Some x \<Longrightarrow> settled (fail_open (mcf s)) x"
  using inv_ctx [of P "{}" s c x] by (simp add: ctx_ok_def)

lemma no_cleanup_left:
  assumes inv: "sys_inv_while P {} s" and only: "own_ctxs P = []" and q: "reqs s r = Some q" "cleanups q = []"
  shows "\<not> suspended s q"
proof
  assume "suspended s q"
  then obtain d z where d: "slot q = Some d" "ctxs s d = Some z" "waiting z"
    by (auto simp: suspended_def split: option.splits)
  moreover have "ctx_pool z = r" using inv_req [OF inv q(1)] d by (auto simp: req_ok_def)
  ultimately have "Rn_request_cleanup d \<in> set P"
    using inv_ctx [OF inv d(2)] q by (simp add: ctx_ok_def)
  then have "d \<in> set (own_ctxs P)" by simp
  with only show False by (simp only: list.set empty_iff)
qed

text \<open>One entry of a terminated request's cleanup list, whose context waits or does not.\<close>

lemma cleanup_waiting_keeps:
  assumes inv: "sys_inv_while (Rn_request_cleanup c # P) {} s" and only: "own_ctxs P = []"
    and x: "ctxs s c = Some x" "ctx_pool x = r"
    and q: "reqs s r = Some q" "terminated q" "cleanups q = []"
    and wait: "waiting x"
  shows "ok_with (\<lambda>s'. sys_inv_while P {} s' \<and> continues s s' \<and> completed s' = completed s
      \<and> (\<exists>q'. reqs s' r = Some q' \<and> terminated q' \<and> cleanups q' = [])) (rn_request_cleanup c s)"
proof -
  note out = waiting_settled [OF inv_settled [OF inv x(1)] wait]
  obtain h w where hw: "holding x h" "worker s = Some w" "\<not> timeout_completed x"
    using inv_waiting [OF inv x(1) wait] by metis
  let ?q = "q\<lparr>refcount := refcount q - 1\<rparr>"
  let ?s = "s\<lparr>handles := (handles s)(h := None), worker := Some (rn_schedule_rebind (uncount_request w)),
      reqs := (reqs s)(ctx_pool x \<mapsto> ?q), ctxs := (ctxs s)(c \<mapsto> aborted x)\<rparr>"
  have run: "rn_request_cleanup c s = Some ?s"
    using cleanup_waiting [OF inv x(1) wait] out hw q(1) x(2) by simp
  have "sys_inv_while (Rn_request_cleanup c # P) {} ?s"
    using inv x(1) wait _ q(1) [folded x(2)] hw(2)
  proof (rule inv_release [where q' = ?q and y = "aborted x" and h = h])
    show "ctx_req x = Some h" using hw by (simp add: holding_def)
  qed (use q hw out in \<open>simp_all add: rest_same_def aborted_def idle_def released_def settled_def\<close>)
  then have "sys_inv_while P {} ?s"
    by (rule inv_done_cleanup [where c = c and x = "aborted x"]) (simp_all add: aborted_def released_def)
  moreover have "continues s ?s"
    by (rule continues_upd [where c = c and x = x and y = "aborted x"]) (use x out in \<open>simp_all add: aborted_def released_def\<close>)
  ultimately show ?thesis using q x(2) by (simp add: run)
qed

lemma cleanup_idle_keeps:
  assumes inv: "sys_inv_while (Rn_request_cleanup c # P) {} s" and only: "own_ctxs P = []"
    and x: "ctxs s c = Some x" "ctx_pool x = r"
    and q: "reqs s r = Some q" "terminated q" "cleanups q = []"
    and idle: "\<not> waiting x"
  shows "ok_with (\<lambda>s'. sys_inv_while P {} s' \<and> continues s s' \<and> completed s' = completed s
      \<and> (\<exists>q'. reqs s' r = Some q' \<and> terminated q' \<and> cleanups q' = [])) (rn_request_cleanup c s)"
proof -
  let ?y = "x\<lparr>ctx_r := None\<rparr>"
  let ?s = "s\<lparr>ctxs := (ctxs s)(c \<mapsto> ?y),
      worker := (if ctx_worker x then map_option rn_schedule_rebind (worker s) else worker s)\<rparr>"
  note run = cleanup_idle [OF inv x(1) idle]
  obtain q2 where i: "idle x" "\<not> timeout_completed x"
    using inv_idle [OF inv x(1) idle] by metis
  have inv': "sys_inv_while P {} s" by (rule inv_done_cleanup [OF inv x(1) idle])
  have quiet: "\<not> suspended s q" by (rule no_cleanup_left [OF inv' only q(1,3)])
  have nw: "\<not> waiting ?y" using idle by simp
  have same: "wait_set (ctxs ?s) = wait_set (ctxs s)"
    using wait_set_idle [OF x(1) idle nw] by simp
  have "worker_ok ?s"
  proof (cases "ctx_worker x")
    case True
    show ?thesis by (rule schedule_all_ok [OF inv_worker [OF inv'] _ _ same]) (use True in simp_all)
  next
    case False
    with same inv_worker [OF inv'] show ?thesis by (simp add: worker_ok_def split: option.splits)
  qed
  moreover have "settled (fail_open (mcf s)) ?y"
    by (rule settled_cong [OF _ _ _ _ _ _ inv_settled [OF inv x(1)]]) simp_all
  ultimately have "sys_inv_while P {} ?s"
    by (intro inv_idle_update [OF inv' x(1) idle q(1) [folded x(2)] quiet, where y = ?y and q' = q])
      (use i q x inv_ctx [OF inv x(1)] in
        \<open>auto simp: rest_same_def same_req_def checks_grow_def idle_def ctx_ok_def fun_upd_idem\<close>)
  moreover have "continues s ?s"
    by (rule continues_upd [where c = c and x = x and y = ?y]) (use x in simp_all)
  ultimately show ?thesis using q by (simp add: run)
qed

lemma cleanup_keeps:
  assumes inv: "sys_inv_while (Rn_request_cleanup c # P) {} s" and only: "own_ctxs P = []"
    and x: "ctxs s c = Some x" "ctx_pool x = r"
    and q: "reqs s r = Some q" "terminated q" "cleanups q = []"
  shows "ok_with (\<lambda>s'. sys_inv_while P {} s' \<and> continues s s' \<and> completed s' = completed s
      \<and> (\<exists>q'. reqs s' r = Some q' \<and> terminated q' \<and> cleanups q' = [])) (rn_request_cleanup c s)"
  using cleanup_waiting_keeps [OF assms] cleanup_idle_keeps [OF assms] by blast

lemma run_cleanups_keeps:
  assumes "sys_inv_while cs {} s" and "length (own_ctxs cs) \<le> 1"
    and "\<And>c. Rn_request_cleanup c \<in> set cs \<Longrightarrow> \<exists>x. ctxs s c = Some x \<and> ctx_pool x = r"
    and "reqs s r = Some q" "terminated q" "cleanups q = []"
  shows "ok_with (\<lambda>s'. keeps s s' \<and> (\<exists>q'. reqs s' r = Some q' \<and> terminated q')) (run_cleanups cs s)"
  using assms
proof (induction cs s arbitrary: q rule: run_cleanups.induct)
  case (1 s)
  then show ?case by (simp add: keeps_def)
next
  case (2 cs s)
  have "ctx_ok cs {} s = ctx_ok (Other_cleanup # cs) {} s" 
    by (intro ext) (simp add: ctx_ok_def split: option.split)
  then have "sys_inv_while cs {} s" using 2(2) by (simp add: sys_inv_while_def)
  with 2 show ?case by simp
next
  case (3 c cs s)
  obtain x where x: "ctxs s c = Some x" "ctx_pool x = r" using 3(4) by auto
  have only: "own_ctxs cs = []" using 3(3) by simp
  have none: "Rn_request_cleanup d \<notin> set cs" for d
    using only by (simp flip: own_ctxs_iff)
  have "ok_with (\<lambda>s'. sys_inv_while cs {} s' \<and> continues s s' \<and> completed s' = completed s
      \<and> (\<exists>q'. reqs s' r = Some q' \<and> terminated q' \<and> cleanups q' = [])) (rn_request_cleanup c s)"
    by (rule cleanup_keeps [OF 3(2) only x 3(5-7)])
  then obtain t q' where t: "rn_request_cleanup c s = Some t" "sys_inv_while cs {} t" "continues s t"
    "completed t = completed s" "reqs t r = Some q'" "terminated q'" "cleanups q' = []"
    by (auto simp: ok_iff)
  have "ok_with (\<lambda>s'. keeps t s' \<and> (\<exists>q'. reqs s' r = Some q' \<and> terminated q')) (run_cleanups cs t)"
    using 3(1) [OF t(1,2) _ _ t(5-7)] none only by simp
  with t show ?case by (auto simp: ok_iff keeps_def intro: continues_trans)
qed

lemma terminating_inv:
  assumes inv: "sys_inv s" and q: "reqs s r = Some q"
  shows "sys_inv_while (cleanups q) {} (s\<lparr>reqs := (reqs s)(r \<mapsto> q\<lparr>cleanups := [], terminated := True\<rparr>)\<rparr>)"
proof -
  let ?q = "q\<lparr>cleanups := [], terminated := True\<rparr>"
  let ?s = "s\<lparr>reqs := (reqs s)(r \<mapsto> ?q)\<rparr>"
  note rq = inv_req [OF inv q]
  have "checks_of r ?s = checks_of r s" "suspended ?s ?q = suspended s q"
    by (simp_all add: checks_of_def suspended_def split: option.splits)
  then have "req_ok ?s r ?q" using rq by (auto simp: req_ok_def)
  moreover have "Rn_request_cleanup c \<in> set (cleanups q)" if sl: "slot q = Some c" "suspended s q" for c
  proof -
    obtain x where x: "ctxs s c = Some x" "waiting x" using sl by (auto simp: suspended_def split: option.splits)
    moreover have "ctx_pool x = r" using rq sl(1) x(1) by (auto simp: req_ok_def)
    ultimately show ?thesis using inv_ctx [OF inv x(1)] q by (simp add: ctx_ok_def)
  qed
  ultimately show ?thesis
    by (intro inv_request [OF inv q, where q' = ?q]) (simp_all add: rest_same_def)
qed

lemma cleanup_request_keeps:
  assumes inv: "sys_inv s" and q: "reqs s r = Some q"
  shows "ok_with (\<lambda>s'. keeps s s' \<and> (\<exists>q'. reqs s' r = Some q' \<and> terminated q')) (cleanup_request r s)"
proof -
  let ?q = "q\<lparr>cleanups := [], terminated := True\<rparr>"
  let ?s = "s\<lparr>reqs := (reqs s)(r \<mapsto> ?q)\<rparr>"
  note rq = inv_req [OF inv q]
  have "ok_with (\<lambda>s'. keeps ?s s' \<and> (\<exists>q'. reqs s' r = Some q' \<and> terminated q')) (run_cleanups (cleanups q) ?s)"
  proof (rule run_cleanups_keeps [OF terminating_inv [OF inv q], where q = ?q])
    show "length (own_ctxs (cleanups q)) \<le> 1" using rq by (simp add: req_ok_def)
    show "\<exists>x. ctxs ?s c = Some x \<and> ctx_pool x = r" if "Rn_request_cleanup c \<in> set (cleanups q)" for c
      using rq that by (auto simp: req_ok_def)
  qed simp_all
  moreover have "keeps s u" if "keeps ?s u" for u
    using that continues_same [of ?s s] by (auto simp: keeps_def intro: continues_trans [where t = ?s])
  ultimately show ?thesis using q by (auto simp: cleanup_request_def upd_req_def ok_iff)
qed

text \<open>What termination does to each context.\<close>

definition terminated_ctx :: "cleanup list \<Rightarrow> ctx_ptr \<Rightarrow> rn_req_ctx_t \<Rightarrow> rn_req_ctx_t" where
  "terminated_ctx cs c x =
     (if Rn_request_cleanup c \<notin> set cs then x else if waiting x then aborted x else x\<lparr>ctx_r := None\<rparr>)"

lemma run_cleanups_none: "own_ctxs cs = [] \<Longrightarrow> run_cleanups cs = Some"
  by (induction cs rule: own_ctxs.induct) (simp_all add: fun_eq_iff)

lemma run_cleanups_one: "own_ctxs cs = [c] \<Longrightarrow> run_cleanups cs s = rn_request_cleanup c s"
  by (induction cs rule: own_ctxs.induct) (simp_all add: run_cleanups_none)

lemma cleanup_request_ends:
  assumes inv: "sys_inv s" and q: "reqs s r = Some q" and run: "cleanup_request r s = Some t"
    and d: "ctxs s d = Some z"
  shows "ctxs t d = Some (terminated_ctx (cleanups q) d z)"
proof -
  let ?s = "s\<lparr>reqs := (reqs s)(r \<mapsto> q\<lparr>cleanups := [], terminated := True\<rparr>)\<rparr>"
  note rq = inv_req [OF inv q]
  note inv' = terminating_inv [OF inv q]
  have run': "run_cleanups (cleanups q) ?s = Some t" using run q by (simp add: cleanup_request_def upd_req_def)
  show ?thesis
  proof (cases "own_ctxs (cleanups q)")
    case Nil
    then have "Rn_request_cleanup d \<notin> set (cleanups q)" by (metis empty_iff list.set(1) own_ctxs_iff)
    with Nil run' d show ?thesis by (auto simp: run_cleanups_none terminated_ctx_def)
  next
    case (Cons c cs)
    then have one: "own_ctxs (cleanups q) = [c]" using rq by (simp add: req_ok_def)
    then have only: "Rn_request_cleanup e \<in> set (cleanups q) \<longleftrightarrow> e = c" for e
      using own_ctxs_iff [of e "cleanups q"] by simp
    obtain x where x: "ctxs s c = Some x" "ctx_pool x = r"
      using rq only [of c] by (auto simp: req_ok_def)
    note run1 = run' [unfolded run_cleanups_one [OF one]]
    show ?thesis
    proof (cases "waiting x")
      case True
      obtain h w where hw: "holding x h" "worker s = Some w" using inv_waiting [OF inv x(1) True] by metis
      have out: "admission_outcome x = RN_ADMISSION_WAITING"
        using waiting_settled [OF inv_settled [OF inv x(1)] True] by simp
      have "ctxs t = (ctxs s)(c \<mapsto> aborted x)"
        using run1 cleanup_waiting [OF inv' _ True out hw(1)] x hw(2) by auto
      with d x True only show ?thesis by (auto simp: terminated_ctx_def)
    next
      case False
      then have "ctxs t = (ctxs s)(c \<mapsto> x\<lparr>ctx_r := None\<rparr>)"
        using run1 cleanup_idle [OF inv' _ False] x by auto
      with d x False only show ?thesis by (auto simp: terminated_ctx_def)
    qed
  qed
qed

text \<open>A terminated request has no waiting context, so its pool can be destroyed.\<close>

lemma terminated_quiet:
  assumes inv: "sys_inv s" and q: "reqs s r = Some q" "terminated q" and x: "ctxs s c = Some x" "ctx_pool x = r"
  shows "\<not> waiting x"
  using inv_ctx [OF inv x(1)] q x(2) by (auto simp: ctx_ok_def)

lemma terminated_not_suspended:
  assumes inv: "sys_inv s" and q: "reqs s r = Some q" "terminated q"
  shows "\<not> suspended s q"
proof
  assume "suspended s q"
  then obtain c x where c: "slot q = Some c" "ctxs s c = Some x" "waiting x"
    by (auto simp: suspended_def split: option.splits)
  moreover have "ctx_pool x = r" using inv_req [OF inv q(1)] c by (auto simp: req_ok_def)
  ultimately show False using terminated_quiet [OF inv q] by blast
qed

lemma free_keeps:
  assumes inv: "sys_inv s" and q: "reqs s r = Some q" "terminated q"
  shows "ok_with (keeps s) (free_pool r s)"
proof -
  let ?m = "\<lambda>c. case ctxs s c of None \<Rightarrow> None | Some x \<Rightarrow> if ctx_pool x = r then None else Some x"
  let ?s = "s\<lparr>reqs := (reqs s)(r := None), ctxs := ?m\<rparr>"
  note quiet = terminated_quiet [OF inv q]
  have timers: "no_timer_in r s"
    using quiet inv_idle [OF inv]
    by (auto simp: no_timer_in_def list_all_iff idle_def split: option.splits)
      (metis option.distinct(1))
  have m: "?m c = Some x \<longleftrightarrow> ctxs s c = Some x \<and> ctx_pool x \<noteq> r" for c x by (auto split: option.splits)
  have checks: "checks_of t ?s = checks_of t s" for t by (simp add: checks_of_def)
  have "ctx_ok [] {} ?s c x" if "ctxs ?s c = Some x" for c x
    using that m inv_ctx [OF inv, of c x] by (auto simp: ctx_ok_def split: option.splits)
  moreover have "req_ok ?s t u" if "reqs ?s t = Some u" for t u
  proof (rule req_ok_cong [OF inv_req [OF inv]])
    show u: "reqs s t = Some u" and "next_req ?s = next_req s" using that by (auto split: if_split_asm)
    show "ctxs ?s c = ctxs s c" if "slot u = Some c \<or> Rn_request_cleanup c \<in> set (cleanups u)" for c
      using that \<open>reqs ?s t = Some u\<close> inv_req [OF inv u]
      by (fastforce simp: req_ok_def split: if_split_asm)
  qed (rule checks)
  moreover have "handle_ok ?s h t" if "handles ?s h = Some t" for h t
    using that inv_handle [OF inv, of h t] quiet m by (fastforce simp: handle_ok_def)
  moreover have "wait_set ?m = wait_set (ctxs s)"
    using quiet by (auto simp: wait_set_def split: option.splits)
  then have "worker_ok ?s" using inv_worker [OF inv] by (simp add: worker_ok_def split: option.splits)
  ultimately have "sys_inv ?s"
    using inv_checks [OF inv] checks unfolding sys_inv_while_def by simp
  moreover have "continues s ?s" by (auto simp: continues_def split: option.splits if_split_asm)
  ultimately show ?thesis using timers by (simp add: free_pool_def keeps_def)
qed

lemma log_keeps:
  assumes inv: "sys_inv s" and q: "reqs s r = Some q" "terminated q"
  shows "ok_with (\<lambda>s'. keeps s s' \<and> reqs s' = reqs s) (ngx_http_rn_log_handler env r s)"
proof (cases "is_main q \<and> slot q \<noteq> None")
  case False
  then show ?thesis using q inv by (auto simp: ngx_http_rn_log_handler_def keeps_def)
next
  case True
  then obtain c where c: "slot q = Some c" by auto
  obtain x where x: "ctxs s c = Some x" "ctx_pool x = r" using inv_req [OF inv q(1)] c by (auto simp: req_ok_def)
  have nw: "\<not> waiting x" by (rule terminated_quiet [OF inv q x])
  obtain q2 where i: "idle x" "\<not> timeout_completed x" using inv_idle [OF inv x(1) nw] by metis
  note st = inv_settled [OF inv x(1)]
  have upd: "keeps s u \<and> reqs u = reqs s" if u: "u = s\<lparr>reports := rs, ctxs := (ctxs s)(c \<mapsto> y)\<rparr>"
    and y: "idle y" "settled (fail_open (mcf s)) y" "ctx_pool y = ctx_pool x" "ctx_r y = ctx_r x"
      "ctx_worker y = ctx_worker x" "timeout_completed y = timeout_completed x"
      "ctx_done y = ctx_done x" "decision y = decision x" for u y rs
  proof -
    have "\<not> waiting y" using y by (simp add: idle_def)
    have "worker_ok u" using inv_worker [OF inv] wait_set_idle [OF x(1) nw \<open>\<not> waiting y\<close>]
      by (simp add: u worker_ok_def split: option.splits)
    then have "sys_inv u"
      by (intro inv_idle_update [OF inv x(1) nw _ terminated_not_suspended [OF inv q], where q' = q and y = y])
        (use u y i q x inv_ctx [OF inv x(1)] in
          \<open>simp_all add: rest_same_def same_req_def checks_grow_def ctx_ok_def fun_upd_idem\<close>)
    moreover have "continues s u" by (rule continues_upd [OF _ _ x(1), where y = y]) (use u y in simp_all)
    ultimately show ?thesis using u by (simp add: keeps_def)
  qed
  have sent: "keeps s u \<and> reqs u = reqs s"
    if "u = s\<lparr>reports := rs, ctxs := (ctxs s)(c \<mapsto> x\<lparr>lat_report := rep, lat_report_sent := True\<rparr>)\<rparr>" for u rep rs
    by (rule upd [OF that]) (use i in \<open>simp_all add: idle_def settled_cong [OF _ _ _ _ _ _ st]\<close>)
  have flag: "keeps s u \<and> reqs u = reqs s"
    if "u = s\<lparr>ctxs := (ctxs s)(c \<mapsto> x\<lparr>lat_report_sent := True\<rparr>)\<rparr>" for u
    by (rule upd [of u "x\<lparr>lat_report_sent := True\<rparr>" "reports s"]) (use that i in \<open>simp_all add: idle_def settled_cong [OF _ _ _ _ _ _ st]\<close>)
  have abort: "keeps s u \<and> reqs u = reqs s"
    if "u = s\<lparr>ctxs := (ctxs s)(c \<mapsto> x\<lparr>admission_outcome := RN_ADMISSION_ABORTED,
      completion_cause := RN_COMPLETION_CLIENT_ABORT, lat_report_sent := True\<rparr>)\<rparr>" for u
    by (rule upd [of u "x\<lparr>admission_outcome := RN_ADMISSION_ABORTED,
      completion_cause := RN_COMPLETION_CLIENT_ABORT, lat_report_sent := True\<rparr>" "reports s"])
      (use that i settled_done [OF st nw] in \<open>simp_all add: idle_def settled_def\<close>)
  have "ctx_worker x \<longrightarrow> worker s \<noteq> None"
    using inv_ctx [OF inv x(1)] by (simp add: ctx_ok_def)
  then show ?thesis
    using q(1) c x(1) True inv sent flag abort
    by (auto simp: ngx_http_rn_log_handler_def upd_ctx_def Let_def keeps_def ok_iff split: option.splits)
qed

subsection \<open>Completion\<close>

definition decided :: "rn_main_conf_t \<Rightarrow> rclient_status \<Rightarrow> r_rate_limit_result_t option \<Rightarrow> rn_req_ctx_t \<Rightarrow> rn_req_ctx_t"
where
  "decided m status result x =
     (case rate_decision m (expected_guard_count x) (expected_resource_count x) status result of
        (rc, outcome, cause) \<Rightarrow> (released (x\<lparr>timeout_completed := False\<rparr>))\<lparr>admission_outcome := outcome,
          completion_cause := cause, decision := rc, ctx_done := True, waiting := False\<rparr>)"

lemma rate_decision_cases:
  "rate_decision m g n status result \<in>
     {(NGX_OK, RN_ADMISSION_VALID_ALLOW, RN_COMPLETION_VALID_VERDICT),
      (NGX_HTTP_TOO_MANY_REQUESTS, RN_ADMISSION_VALID_DENY, RN_COMPLETION_VALID_VERDICT)}
     \<union> {(fail_rc m, fail_outcome m, cause) |cause. cause \<in> failure_causes}"
  by (auto simp: rate_decision_def Let_def failure_causes_def split: option.splits)

lemma decided_settled: "settled (fail_open m) (decided m status result x)"
  using rate_decision_cases [of m "expected_guard_count x" "expected_resource_count x" status result]
  by (auto simp: decided_def released_def settled_def fail_rc_def fail_outcome_def split: if_splits)

lemma decided_idle: "idle (decided m status result x)"
  using rate_decision_cases [of m "expected_guard_count x" "expected_resource_count x" status result]
  by (auto simp: decided_def released_def idle_def fail_outcome_def split: if_splits)

lemma decided_fields [simp]:
  "ctx_pool (decided m status result x) = ctx_pool x" "ctx_r (decided m status result x) = ctx_r x"
  "ctx_worker (decided m status result x) = ctx_worker x" "\<not> timeout_completed (decided m status result x)"
  "ctx_done (decided m status result x)"
  by (simp_all add: decided_def released_def split: prod.split)

lemma rate_cb_run:
  assumes x: "ctxs s c = Some x" "holding x h" and q: "reqs s (ctx_pool x) = Some q" "slot q = Some c" "refcount q > 0"
    and w: "worker s = Some w" "client w \<noteq> None"
  shows "rn_rate_cb resume (Some (ctx_pool x)) h status result s =
    resume (ctx_pool x) (s\<lparr>completed := completed s \<or> timeout_completed x,
      worker := Some (rn_schedule_rebind (uncount_request w)),
      ctxs := (ctxs s)(c \<mapsto> decided (mcf s) status result x),
      reqs := (reqs s)(ctx_pool x \<mapsto> q\<lparr>refcount := refcount q - 1, write_handler := Ngx_http_core_run_phases\<rparr>)\<rparr>)"
proof -
  let ?x = "x\<lparr>timeout_completed := False\<rparr>"
  let ?s = "s\<lparr>completed := completed s \<or> timeout_completed x, ctxs := (ctxs s)(c \<mapsto> ?x)\<rparr>"
  have flag: "(if timeout_completed x then upd_ctx c (timeout_completed_update (\<lambda>_. False)) (s\<lparr>completed := True\<rparr>)
      else Some s) = Some ?s"
    using x(1) by (cases x) (auto simp: upd_ctx_def fun_upd_idem)
  have down: "rn_request_teardown c (Some h) False ?s = Some (?s\<lparr>ctxs := (ctxs ?s)(c \<mapsto> released ?x),
      handles := (if False then (handles ?s)(h := None) else handles ?s),
      worker := Some (rn_schedule_rebind (uncount_request w)),
      reqs := (reqs ?s)(ctx_pool ?x \<mapsto> q\<lparr>refcount := refcount q - 1\<rparr>)\<rparr>)"
    by (rule teardown_holding) (use assms in \<open>auto simp: holding_def\<close>)
  obtain rc out cause where d: "rate_decision (mcf s) (expected_guard_count x) (expected_resource_count x) status result
      = (rc, out, cause)" by (metis prod_cases3)
  show ?thesis
    using x q unfolding rn_rate_cb_def
    by (simp add: holding_def flag down d decided_def upd_ctx_def upd_req_def Let_def)
qed

lemma rate_cb_keeps:
  assumes inv: "sys_inv s" and x: "ctxs s c = Some x" "holding x h" "waiting x"
    and t: "ctxs t = (ctxs s)(c \<mapsto> x\<lparr>timer := tm, timeout_completed := b\<rparr>)" "reqs t = reqs s"
      "handles t = (handles s)(h := None)" "worker t = worker s" "rest_same s t" "checks t = checks s" "mcf t = mcf s"
    and resume: "\<And>u. sys_inv u \<Longrightarrow> ok_with (keeps u) (resume (ctx_pool x) u)"
  shows "ok_with (\<lambda>u. sys_inv u \<and> continues s u \<and> completed u = (completed t \<or> b)
      \<and> (\<forall>y. ctxs u c = Some y \<longrightarrow> ctx_done y)) (rn_rate_cb resume (Some (ctx_pool x)) h status result t)"
proof -
  let ?x = "x\<lparr>timer := tm, timeout_completed := b\<rparr>"
  obtain q w where q: "reqs s (ctx_pool x) = Some q" "slot q = Some c" "refcount q = own_refs q + 1" and w: "worker s = Some w"
    using inv_waiting [OF inv x(1,3)] by metis
  have cl: "client w \<noteq> None" using inv_worker [OF inv] w by (simp add: worker_ok_def worker_inv_def)
  have out: "\<not> ctx_done x" using waiting_settled [OF inv_settled [OF inv x(1)] x(3)] by simp
  let ?q = "q\<lparr>refcount := refcount q - 1, write_handler := Ngx_http_core_run_phases\<rparr>"
  let ?y = "decided (mcf t) status result ?x"
  let ?u = "t\<lparr>completed := completed t \<or> b, worker := Some (rn_schedule_rebind (uncount_request w)),
      ctxs := (ctxs t)(c \<mapsto> ?y), reqs := (reqs t)(ctx_pool x \<mapsto> ?q)\<rparr>"
  have run: "rn_rate_cb resume (Some (ctx_pool x)) h status result t = resume (ctx_pool x) ?u"
    using rate_cb_run [of t c ?x h q w resume status result] t x q w cl by (simp add: holding_def)
  have "sys_inv ?u"
    using inv x(1,3) _ q(1) w
  proof (rule inv_release [where q' = ?q and y = ?y and h = h])
    show "ctx_req x = Some h" using x(2) by (simp add: holding_def)
    show "idle ?y" by (rule decided_idle)
    show "c \<in> {} \<or> settled (fail_open (mcf s)) ?y" using decided_settled [of "mcf t" status result ?x] t(7) by simp
  qed (use t q in \<open>simp_all add: rest_same_def\<close>)
  moreover have "continues s ?u"
    by (rule continues_upd [OF _ _ x(1), where y = ?y]) (use t out in \<open>simp_all add: rest_same_def\<close>)
  moreover have "ctx_done y" if "continues ?u v" "ctxs v c = Some y" for v y
  proof -
    have "c < next_ctx ?u" using inv_ctx [OF inv x(1)] t(5) by (simp add: ctx_ok_def rest_same_def)
    from continues_done [OF that(1) this _ _ that(2), of ?y] show ?thesis by simp
  qed
  ultimately show ?thesis
    using resume [of ?u] by (auto simp: run ok_iff keeps_def intro: continues_trans)
qed

subsection \<open>The deadline timer\<close>

lemma inv_timer:
  assumes inv: "sys_inv s" and x: "ctxs s c = Some x" "waiting x"
    and t: "t = s\<lparr>completed := b, ctxs := (ctxs s)(c \<mapsto> x\<lparr>timer := tm\<rparr>)\<rparr>"
  shows "sys_inv t \<and> continues s t"
proof -
  let ?y = "x\<lparr>timer := tm\<rparr>"
  obtain q where q: "reqs s (ctx_pool x) = Some q" "slot q = Some c" using inv_waiting [OF inv x] by metis
  have ct: "ctxs t = (ctxs s)(c \<mapsto> ?y)" and rest: "reqs t = reqs s" "handles t = handles s" "worker t = worker s"
    "os t = os s" "checks t = checks s" "rest_same s t"
    using t by (simp_all add: rest_same_def)
  have "wait_set (ctxs t) = wait_set (ctxs s)" using x by (auto simp: ct wait_set_def)
  then have w: "worker_ok t" using inv_worker [OF inv] rest by (simp add: worker_ok_def split: option.splits)
  have checks: "checks_of r t = checks_of r s" for r using rest by (simp add: checks_of_def)
  have st: "settled (fail_open (mcf s)) ?y" by (rule settled_cong [OF _ _ _ _ _ _ inv_settled [OF inv x(1)]]) simp_all
  have "sys_inv t"
  proof (rule inv_update [OF inv q(1), where c = c and y = ?y and q' = q])
    show "\<not> waiting z" if "d \<noteq> c" "ctxs s d = Some z" "ctx_pool z = ctx_pool x" for d z
      using waiting_unique [OF inv that(2) _ x that(3)] that(1) by blast
    show "handle_ok t g r" if g: "handles t g = Some r" for g r
    proof -
      obtain d z where d: "ctxs s d = Some z" "waiting z" "ctx_req z = Some g" "ctx_pool z = r"
        using inv_handle [OF inv, of g r] g rest(2) by (auto simp: handle_ok_def)
      show ?thesis unfolding handle_ok_def ct
        by (rule exI [of _ d], cases "d = c") (use d x in auto)
    qed
    show "ctx_ok [] {} t c ?y"
      using inv_ctx [OF inv x(1)] x(2) rest st q by (auto simp: ctx_ok_def rest_same_def holding_def)
    show "req_ok t (ctx_pool x) q"
      by (rule req_ok_update [OF inv_req [OF inv q(1)] ct _ x(1)])
        (use inv_req [OF inv q(1)] rest checks x q ct in \<open>auto simp: rest_same_def req_ok_def suspended_def\<close>)
    show "is_main q" using inv_ctx [OF inv x(1)] q by (simp add: ctx_ok_def)
    show "checks_of (ctx_pool x) t \<le> 1"
      using inv_checks [OF inv, of "ctx_pool x"] checks by (simp split: if_split_asm)
  qed (use x q rest ct w checks in \<open>simp_all add: rest_same_def fun_upd_idem\<close>)
  moreover have "continues s t" by (rule continues_upd [OF ct _ x(1)]) (use rest in \<open>simp_all add: rest_same_def\<close>)
  ultimately show ?thesis by blast
qed

text \<open>What the timeout handler leaves of its context: decided, or waiting with a timer.\<close>

definition settled_or_armed :: "sys \<Rightarrow> ctx_ptr \<Rightarrow> sys \<Rightarrow> bool" where
  "settled_or_armed s c u \<longleftrightarrow> sys_inv u \<and> continues s u
     \<and> (\<forall>y. ctxs u c = Some y \<longrightarrow> ctx_done y \<or> waiting y \<and> timer y \<noteq> None)"

lemma timeout_completes:
  assumes inv: "sys_inv s" and x: "ctxs s c = Some x" and wait: "waiting x" and h: "holding x h"
    and resume: "\<And>r u. sys_inv u \<Longrightarrow> ok_with (keeps u) (resume r u)"
  shows "ok_with (\<lambda>u. settled_or_armed s c u \<and> (b \<longrightarrow> completed u))
    (rn_rate_cb resume (Some (ctx_pool x)) h status result
      (s\<lparr>completed := False, ctxs := (ctxs s)(c \<mapsto> x\<lparr>timeout_completed := b\<rparr>), handles := (handles s)(h := None)\<rparr>))"
proof -
  let ?t = "s\<lparr>completed := False, ctxs := (ctxs s)(c \<mapsto> x\<lparr>timer := timer x, timeout_completed := b\<rparr>),
    handles := (handles s)(h := None)\<rparr>"
  have "ok_with (\<lambda>u. sys_inv u \<and> continues s u \<and> completed u = (completed ?t \<or> b)
      \<and> (\<forall>y. ctxs u c = Some y \<longrightarrow> ctx_done y)) (rn_rate_cb resume (Some (ctx_pool x)) h status result ?t)"
    by (rule rate_cb_keeps [OF inv x h wait, where tm = "timer x"]) (use resume in \<open>simp_all add: rest_same_def\<close>)
  then show ?thesis by (auto simp: settled_or_armed_def elim!: ok_mono)
qed

lemma after_timeout_keeps:
  assumes inv: "sys_inv s" and x: "ctxs s c = Some x" and wait: "waiting x" and h: "holding x h"
    and live: "handles s h \<noteq> None" and t: "\<not> timeout_completed x"
    and resume: "\<And>r u. sys_inv u \<Longrightarrow> ok_with (keeps u) (resume r u)"
  shows "ok_with (settled_or_armed s c) (after_timeout env resume c (Some (ctx_pool x)) h
    (s\<lparr>completed := False, ctxs := (ctxs s)(c \<mapsto> x\<lparr>timeout_completed := True\<rparr>)\<rparr>))"
proof -
  let ?u = "s\<lparr>completed := False, ctxs := (ctxs s)(c \<mapsto> x\<lparr>timeout_completed := False\<rparr>)\<rparr>"
  have reset: "upd_ctx c (timeout_completed_update (\<lambda>_. False))
      (s\<lparr>completed := False, ctxs := (ctxs s)(c \<mapsto> x\<lparr>timeout_completed := True\<rparr>)\<rparr>) = Some ?u"
    by (simp add: upd_ctx_def)
  have fail: "ok_with (settled_or_armed s c)
      (do { s \<leftarrow> cancel_request h ?u; rn_rate_cb resume (Some (ctx_pool x)) h rc None s })" for rc
    using timeout_completes [where resume = resume and b = False and status = rc and result = None, OF inv x wait h resume] live by (auto simp: cancel_request_def)
  have rearm: "ok_with (settled_or_armed s c) (upd_ctx c (timer_update (\<lambda>_. Some tm)) ?u)" for tm
  proof -
    have "x\<lparr>timeout_completed := False, timer := Some tm\<rparr> = x\<lparr>timer := Some tm\<rparr>" using t by (cases x) simp
    then show ?thesis
      using inv_timer [OF inv x wait, where b = False and tm = "Some tm"] wait
      by (simp add: upd_ctx_def settled_or_armed_def)
  qed
  show ?thesis
    unfolding after_timeout_def reset bind.bind_lunit using fail rearm by (simp add: Let_def split: option.split)
qed

lemma timeout_keeps:
  assumes inv: "sys_inv s" and x: "ctxs s c = Some x"
    and resume: "\<And>r u. sys_inv u \<Longrightarrow> ok_with (keeps u) (resume r u)"
  shows "ok_with (\<lambda>u. sys_inv u \<and> continues s u
      \<and> (waiting x \<longrightarrow> (\<forall>y. ctxs u c = Some y \<longrightarrow> ctx_done y \<or> waiting y \<and> timer y \<noteq> None)))
    (rn_request_timeout_handler env resume c s)"
proof (cases "waiting x")
  case False
  then have "ctx_req x = None" using inv_idle [OF inv x] by (auto simp: idle_def)
  then show ?thesis using inv x False by (simp add: rn_request_timeout_handler_def)
next
  case True
  obtain h q w where h: "holding x h" "handles s h = Some (ctx_pool x)" and w: "worker s = Some w"
    and t: "\<not> timeout_completed x"
    using inv_waiting [OF inv x True] by metis
  have cl: "client w \<noteq> None" using inv_worker [OF inv] w by (simp add: worker_ok_def worker_inv_def)
  have cr: "ctx_r x = Some (ctx_pool x)" "ctx_req x = Some h" "ctx_worker x" using h by (simp_all add: holding_def)
  let ?now = "rn_now_ms (first_time env)"
  let ?t = "s\<lparr>completed := False, ctxs := (ctxs s)(c \<mapsto> x\<lparr>timeout_completed := True\<rparr>)\<rparr>"
  let ?Q = "settled_or_armed s c"
  have "ok_with ?Q (rn_request_timeout_handler env resume c s)"
  proof (cases "case first_deadline env of Some d \<Rightarrow> d > ?now | None \<Rightarrow> False")
    case early: True
    let ?u = "s\<lparr>ctxs := (ctxs s)(c \<mapsto> x\<lparr>timer := Some (the (first_deadline env) - ?now)\<rparr>)\<rparr>"
    have "sys_inv ?u \<and> continues s ?u" by (rule inv_timer [OF inv x True, where b = "completed s"]) simp
    with early cr w cl x True show ?thesis
      by (auto simp: rn_request_timeout_handler_def upd_ctx_def Let_def settled_or_armed_def)
  next
    case late: False
    then have start: "rn_request_timeout_handler env resume c s =
      do { s \<leftarrow> client_on_timeout env resume h ?t;
           if completed s then Some s else after_timeout env resume c (Some (ctx_pool x)) h s }"
      using w cl x unfolding cr(1) [symmetric] by (auto simp: cr(2,3) rn_request_timeout_handler_def upd_ctx_def Let_def)
    show ?thesis
    proof (cases "on_timeout_completion env")
      case (Some answer)
      then have "client_on_timeout env resume h ?t =
          rn_rate_cb resume (Some (ctx_pool x)) h (fst answer) (snd answer) (?t\<lparr>handles := (handles s)(h := None)\<rparr>)"
        using h by (simp add: client_on_timeout_def split: prod.split)
      with timeout_completes [where resume = resume and b = True and status = "fst answer" and result = "snd answer", OF inv x True h(1) resume]
      show ?thesis by (auto simp: start ok_iff)
    next
      case None
      then have "client_on_timeout env resume h ?t = Some ?t" using h by (simp add: client_on_timeout_def)
      with after_timeout_keeps [where resume = resume and env = env, OF inv x True h(1) _ t resume] h(2) show ?thesis by (simp add: start)
    qed
  qed
  then show ?thesis by (rule ok_mono) (simp add: settled_or_armed_def)
qed

end
