(* ===== verification/Request_Handler.thy ===== *)
theory Request_Handler
  imports Request_Ends
begin

text \<open>
  The pre-content handler and the verdict variable keep the invariant of \<open>Request_Inv\<close>: the
  lazy creation of the worker, a new context, and each of its ends.
\<close>

subsection \<open>The handler\<close>

lemma quiet_inflight:
  assumes inv: "sys_inv_while P E s" and w: "worker s = None"
  shows "wait_set (ctxs s) = {}"
proof -
  have "\<not> waiting x" if "ctxs s c = Some x" for c x
    using inv_waiting [OF inv that] w by (metis option.distinct(1))
  then show ?thesis by (auto simp: wait_set_def split: option.splits)
qed

text \<open>The lazy creation of the worker.\<close>

lemma ensure_keeps:
  assumes inv: "sys_inv_while P E s"
    and run: "(if worker s = None then rn_worker_ensure env now (mcf s) None (os s) else (NGX_OK, mcf s, worker s, os s))
      = (rc, m, w, h)"
    and s': "s' = s\<lparr>mcf := m, worker := w, os := h\<rparr>"
  shows "sys_inv_while P E s'" and "fail_open m = fail_open (mcf s)"
    and "rc = NGX_OK \<Longrightarrow> (\<exists>wk. w = Some wk \<and> client wk \<noteq> None)"
proof -
  have *: "sys_inv_while P E s' \<and> fail_open m = fail_open (mcf s) \<and> (rc = NGX_OK \<longrightarrow> (\<exists>wk. w = Some wk \<and> client wk \<noteq> None))"
  proof (cases "worker s")
    case (Some wk)
    then have "s' = s" using run s' by simp
    moreover have "client wk \<noteq> None" using inv_worker [OF inv] Some by (simp add: worker_ok_def worker_inv_def)
    moreover have "w = Some wk" "m = mcf s" using Some run by simp_all
    ultimately show ?thesis using inv by simp
  next
    case None
    have ok: "heap_ok (os s)" using inv_worker [OF inv] None by (simp add: worker_ok_def)
    have empty: "card (wait_set (ctxs s)) = 0" using quiet_inflight [OF inv None] by simp
    have run': "rn_worker_ensure env now (mcf s) None (os s) = (rc, m, w, h)" using run None by simp
    have out: "fail_open m = fail_open (mcf s) \<and> (case w of None \<Rightarrow> rc \<noteq> NGX_OK \<and> heap_ok h
        | Some wk \<Rightarrow> worker_inv (wk, h) \<and> inflight wk = 0)"
    proof (cases "init_retry_at (mcf s) \<noteq> 0 \<and> sint (init_retry_at (mcf s) - now) > 0")
      case True
      with run' ok show ?thesis by (auto simp: rn_worker_ensure_def)
    next
      case False
      obtain rc1 w1 h1 where i: "rn_worker_init env ((mcf s)\<lparr>init_retry_at := 0\<rparr>) None (os s) = (rc1, w1, h1)"
        by (metis prod_cases3)
      note io = init_step [OF ok i]
      have res: "w = w1" "h = h1" "fail_open m = fail_open (mcf s)" "rc = NGX_OK \<longleftrightarrow> rc1 = NGX_OK"
        using run' i False by (auto simp: rn_worker_ensure_def Let_def split: if_split_asm)
      with io show ?thesis
        by (auto simp: init_outcome_def ready_def intro: ready_inv split: option.splits if_split_asm)
    qed
    have "worker_ok s'"
      using out empty by (auto simp: s' worker_ok_def split: option.splits)
    then have "sys_inv_while P E s'"
      by (intro inv_worker_change [OF inv]) (use out None in \<open>simp_all add: s'\<close>)
    with out show ?thesis by (auto simp: worker_inv_def split: option.splits)
  qed
  then show "sys_inv_while P E s'" and "fail_open m = fail_open (mcf s)"
    and "rc = NGX_OK \<Longrightarrow> (\<exists>wk. w = Some wk \<and> client wk \<noteq> None)" by auto
qed

text \<open>
  The state in which the handler fills in a new context \<open>c\<close> of request \<open>r\<close>: everything but this
  context is in order, it holds nothing, and no check has been sent for the request.
\<close>

definition filling :: "request_ptr \<Rightarrow> ctx_ptr \<Rightarrow> bool \<Rightarrow> sys \<Rightarrow> bool" where
  "filling r c adm s \<longleftrightarrow> sys_inv_while [] {c} s \<and> checks_of r s = 0 \<and>
     (\<exists>x q. ctxs s c = Some x \<and> reqs s r = Some q \<and> slot q = Some c \<and> cleanups q \<noteq> []
       \<and> Rn_request_cleanup c \<in> set (cleanups q) \<and> \<not> terminated q \<and> is_main q
       \<and> ctx_pool x = r \<and> idle x \<and> \<not> ctx_done x \<and> completion_cause x = RN_COMPLETION_NONE
       \<and> decision x = NGX_DECLINED
       \<and> admission_outcome x = (if adm then fail_outcome (mcf s) else RN_ADMISSION_NONE))"

text \<open>The handler ends with the context idle and its outcome settled.\<close>

lemma fill_end:
  assumes f: "filling r c adm s" and x: "ctxs s c = Some x"
    and t: "ctxs t = (ctxs s)(c \<mapsto> y)" "reqs t = reqs s" "handles t = handles s" "rest_same s t"
      "worker t = worker s \<or> worker t = map_option rn_schedule_rebind (worker s)"
      "completed t = completed s" "checks t = checks s \<or> (\<exists>e. checks t = checks s @ [(r, e)])"
    and y: "idle y" "ctx_pool y = r" "ctx_r y = ctx_r x" "ctx_worker y \<longrightarrow> worker s \<noteq> None" "\<not> timeout_completed y"
      "settled (fail_open (mcf s)) y"
  shows "keeps s t"
proof -
  obtain q where q: "reqs s r = Some q" "slot q = Some c" "Rn_request_cleanup c \<in> set (cleanups q)" "ctx_pool x = r"
    "idle x" "\<not> ctx_done x" "checks_of r s = 0" and inv: "sys_inv_while [] {c} s"
    using f x by (auto simp: filling_def)
  have nw: "\<not> waiting x" "\<not> waiting y" using q(5) y(1) by (simp_all add: idle_def)
  have quiet: "\<not> suspended s q" using q x nw by (simp add: suspended_def)
  have same: "wait_set (ctxs t) = wait_set (ctxs s)" using wait_set_idle [OF x nw] t(1) by simp
  have "worker_ok t"
    using t(5)
  proof
    assume "worker t = worker s"
    then show ?thesis using inv_worker [OF inv] same t(4)
      by (simp add: worker_ok_def rest_same_def split: option.splits)
  next
    assume "worker t = map_option rn_schedule_rebind (worker s)"
    then show ?thesis using t(4) by (intro schedule_all_ok [OF inv_worker [OF inv] _ _ same]) (simp_all add: rest_same_def)
  qed
  moreover have "worker s \<noteq> None \<longrightarrow> worker t \<noteq> None" using t(5) by auto
  moreover have "own_ctxs (cleanups q) \<noteq> []"
    using q(3) by (metis empty_iff list.set(1) own_ctxs_iff)
  then have "checks_grow r q s t" using t(7) q(7) by (auto simp: checks_grow_def)
  ultimately have "sys_inv t"
    by (intro inv_idle_update [OF inv x nw(1) _ quiet, where q' = q and y = y])
      (use q t(1-4) y in \<open>auto simp: same_req_def fun_upd_idem\<close>)
  moreover have "continues s t"
    by (rule continues_upd [OF t(1) _ x]) (use t q y in \<open>simp_all add: rest_same_def\<close>)
  ultimately show ?thesis using t(6) by (simp add: keeps_def)
qed

lemma fill_step:
  assumes f: "filling r c adm s" and x: "ctxs s c = Some x"
    and t: "t = s\<lparr>ctxs := (ctxs s)(c \<mapsto> y)\<rparr>"
    and y: "idle y" "ctx_pool y = r" "ctx_r y = ctx_r x" "ctx_worker y \<longrightarrow> worker s \<noteq> None" "\<not> timeout_completed y"
      "ctx_done y = ctx_done x" "decision y = decision x" "completion_cause y = completion_cause x"
      "admission_outcome y = admission_outcome x"
  shows "filling r c adm t" and "continues s t"
proof -
  obtain q where q: "reqs s r = Some q" "slot q = Some c" "Rn_request_cleanup c \<in> set (cleanups q)" "ctx_pool x = r"
    "idle x" "\<not> ctx_done x" "checks_of r s = 0" and inv: "sys_inv_while [] {c} s"
    using f x by (auto simp: filling_def)
  have nw: "\<not> waiting x" "\<not> waiting y" using q(5) y(1) by (simp_all add: idle_def)
  have quiet: "\<not> suspended s q" using q x nw by (simp add: suspended_def)
  have "worker_ok t" using inv_worker [OF inv] wait_set_idle [OF x nw] t
    by (simp add: worker_ok_def split: option.splits)
  then have "sys_inv_while [] {c} t"
    by (intro inv_idle_update [OF inv x nw(1) _ quiet, where q' = q and y = y])
      (use q t y in \<open>simp_all add: same_req_def fun_upd_idem rest_same_def checks_grow_def\<close>)
  then show "filling r c adm t" using f x t y by (auto simp: filling_def checks_of_def)
  show "continues s t" by (rule continues_upd [OF _ _ x, where y = y]) (use t q y in simp_all)
qed

definition answers :: "ctx_ptr \<Rightarrow> ngx_rc \<Rightarrow> sys \<Rightarrow> bool" where
  "answers c rc t \<longleftrightarrow> (\<exists>y. ctxs t c = Some y \<and> (if waiting y then rc = NGX_AGAIN else ctx_done y \<and> decision y = rc))"

lemma filling_ctx:
  assumes "filling r c adm s"
  obtains x q where "ctxs s c = Some x" "reqs s r = Some q" "slot q = Some c" "Rn_request_cleanup c \<in> set (cleanups q)"
    "\<not> terminated q" "ctx_pool x = r" "ctx_r x = Some r" "idle x" "\<not> timeout_completed x" "\<not> ctx_done x"
    "completion_cause x = RN_COMPLETION_NONE" "decision x = NGX_DECLINED"
    "admission_outcome x = (if adm then fail_outcome (mcf s) else RN_ADMISSION_NONE)"
    "ctx_worker x \<longrightarrow> worker s \<noteq> None" "sys_inv_while [] {c} s" "checks_of r s = 0"
proof -
  obtain x q where xq: "ctxs s c = Some x" "reqs s r = Some q" "slot q = Some c" "Rn_request_cleanup c \<in> set (cleanups q)"
    "\<not> terminated q" "ctx_pool x = r" "idle x" "\<not> ctx_done x"
    "completion_cause x = RN_COMPLETION_NONE" "decision x = NGX_DECLINED"
    "admission_outcome x = (if adm then fail_outcome (mcf s) else RN_ADMISSION_NONE)" and inv: "sys_inv_while [] {c} s"
    "checks_of r s = 0"
    using assms by (auto simp: filling_def)
  moreover have "ctx_r x = Some r"
    using inv_req [OF inv(1) xq(2)] xq(1,4) by (auto simp: req_ok_def)
  moreover have "\<not> timeout_completed x" "ctx_worker x \<longrightarrow> worker s \<noteq> None"
    using inv_ctx [OF inv(1) xq(1)] by (simp_all add: ctx_ok_def)
  ultimately show ?thesis using that by blast
qed

lemma end_idle:
  assumes f: "filling r c adm s" and x: "ctxs s c = Some x"
    and t: "t = s\<lparr>ctxs := (ctxs s)(c \<mapsto> y)\<rparr>"
    and y: "y = x\<lparr>admission_outcome := out, completion_cause := cause, decision := rc, ctx_done := True\<rparr>"
    and st: "settled (fail_open (mcf s)) y" "out \<noteq> RN_ADMISSION_WAITING"
  shows "keeps s t \<and> answers c rc t"
proof -
  have i: "idle x" "\<not> timeout_completed x" "ctx_pool x = r" "ctx_worker x \<longrightarrow> worker s \<noteq> None"
    using filling_ctx [OF f] x by (metis option.inject)+
  have "keeps s t"
    by (rule fill_end [OF f x, where y = y]) (use t y i st in \<open>simp_all add: rest_same_def idle_def\<close>)
  then show ?thesis using t y i by (simp add: answers_def idle_def)
qed

lemma end_preflight:
  assumes f: "filling r c adm s" and "cause \<in> failure_causes"
  shows "ok_with (\<lambda>(rc, t). keeps s t \<and> answers c rc t) (rn_finish_preflight_failure c (mcf s) cause s)"
proof -
  obtain x where x: "ctxs s c = Some x" "idle x" using filling_ctx [OF f] by metis
  let ?y = "x\<lparr>decision := fail_rc (mcf s), admission_outcome := fail_outcome (mcf s),
            completion_cause := cause, ctx_done := True\<rparr>"
  have y: "?y = x\<lparr>admission_outcome := fail_outcome (mcf s), completion_cause := cause, decision := fail_rc (mcf s),
      ctx_done := True\<rparr>" by (cases x) simp
  have "keeps s (s\<lparr>ctxs := (ctxs s)(c \<mapsto> ?y)\<rparr>) \<and> answers c (fail_rc (mcf s)) (s\<lparr>ctxs := (ctxs s)(c \<mapsto> ?y)\<rparr>)"
    by (rule end_idle [OF f x(1) refl y]) (use assms(2) x(2) in \<open>auto simp: settled_def fail_outcome_def fail_rc_def idle_def\<close>)
  then show ?thesis using x by (simp add: rn_finish_preflight_failure_def upd_ctx_def)
qed

lemma end_internal:
  assumes f: "filling r c adm s"
  shows "ok_with (\<lambda>(rc, t). keeps s t \<and> answers c rc t) (rn_finish_internal_error c s)"
proof -
  obtain x where x: "ctxs s c = Some x" "idle x" using filling_ctx [OF f] by metis
  let ?y = "x\<lparr>decision := NGX_HTTP_INTERNAL_SERVER_ERROR, admission_outcome := RN_ADMISSION_INTERNAL_ERROR,
            completion_cause := RN_COMPLETION_NGINX_ERROR, ctx_done := True\<rparr>"
  have y: "?y = x\<lparr>admission_outcome := RN_ADMISSION_INTERNAL_ERROR, completion_cause := RN_COMPLETION_NGINX_ERROR,
      decision := NGX_HTTP_INTERNAL_SERVER_ERROR, ctx_done := True\<rparr>" by (cases x) simp
  have "keeps s (s\<lparr>ctxs := (ctxs s)(c \<mapsto> ?y)\<rparr>)
      \<and> answers c NGX_HTTP_INTERNAL_SERVER_ERROR (s\<lparr>ctxs := (ctxs s)(c \<mapsto> ?y)\<rparr>)"
    by (rule end_idle [OF f x(1) refl y]) (use x(2) in \<open>auto simp: settled_def idle_def\<close>)
  then show ?thesis using x by (simp add: rn_finish_internal_error_def upd_ctx_def)
qed

lemma end_unprotected:
  assumes f: "filling r c adm s"
  shows "ok_with (\<lambda>(rc, t). keeps s t \<and> answers c rc t) (finish_unprotected c s)"
proof -
  obtain x where x: "ctxs s c = Some x" "idle x" "completion_cause x = RN_COMPLETION_NONE" using filling_ctx [OF f] by metis
  let ?y = "x\<lparr>admission_outcome := RN_ADMISSION_NONE, decision := NGX_DECLINED, ctx_done := True\<rparr>"
  have y: "?y = x\<lparr>admission_outcome := RN_ADMISSION_NONE, completion_cause := RN_COMPLETION_NONE,
      decision := NGX_DECLINED, ctx_done := True\<rparr>" using x(3) by (cases x) simp
  have "keeps s (s\<lparr>ctxs := (ctxs s)(c \<mapsto> ?y)\<rparr>) \<and> answers c NGX_DECLINED (s\<lparr>ctxs := (ctxs s)(c \<mapsto> ?y)\<rparr>)"
    by (rule end_idle [OF f x(1) refl y]) (use x(2,3) in \<open>auto simp: settled_def idle_def\<close>)
  then show ?thesis using x by (simp add: finish_unprotected_def upd_ctx_def)
qed

lemma end_report_only:
  assumes f: "filling r c False s" and out: "\<And>x. ctxs s c = Some x \<Longrightarrow> cause \<in> {completion_cause x, RN_COMPLETION_DEPENDENCY_ERROR}"
    and t: "t = s\<lparr>ctxs := (ctxs s)(c \<mapsto> x\<lparr>ctx_done := True, completion_cause := cause, decision := NGX_DECLINED\<rparr>)\<rparr>"
    and x: "ctxs s c = Some x"
  shows "keeps s t \<and> answers c NGX_DECLINED t"
proof -
  have i: "idle x" "completion_cause x = RN_COMPLETION_NONE" "admission_outcome x = RN_ADMISSION_NONE"
    using filling_ctx [OF f] x by (metis option.inject)+
  let ?y = "x\<lparr>ctx_done := True, completion_cause := cause, decision := NGX_DECLINED\<rparr>"
  have y: "?y = x\<lparr>admission_outcome := RN_ADMISSION_NONE, completion_cause := cause,
      decision := NGX_DECLINED, ctx_done := True\<rparr>" using i(3) by (cases x) simp
  show ?thesis
    by (rule end_idle [OF f x t y]) (use i out [OF x] in \<open>auto simp: settled_def idle_def\<close>)
qed

lemma end_no_worker:
  assumes f: "filling r c adm s"
  shows "ok_with (\<lambda>(rc, t). keeps s t \<and> answers c rc t) (no_worker c adm s)"
proof -
  obtain x where x: "ctxs s c = Some x" "idle x"
    "admission_outcome x = (if adm then fail_outcome (mcf s) else RN_ADMISSION_NONE)" using filling_ctx [OF f] by metis
  let ?rc = "if adm then fail_rc (mcf s) else NGX_DECLINED"
  let ?y = "x\<lparr>ctx_done := True, completion_cause := RN_COMPLETION_DEPENDENCY_ERROR, decision := ?rc\<rparr>"
  have y: "?y = x\<lparr>admission_outcome := admission_outcome x, completion_cause := RN_COMPLETION_DEPENDENCY_ERROR,
      decision := ?rc, ctx_done := True\<rparr>" by (cases x) simp
  have "keeps s (s\<lparr>ctxs := (ctxs s)(c \<mapsto> ?y)\<rparr>) \<and> answers c ?rc (s\<lparr>ctxs := (ctxs s)(c \<mapsto> ?y)\<rparr>)"
    by (rule end_idle [OF f x(1) refl y])
      (use x(2,3) in \<open>auto simp: settled_def fail_outcome_def fail_rc_def idle_def failure_causes_def\<close>)
  then show ?thesis using x by (auto simp: no_worker_def upd_ctx_def Let_def)
qed

text \<open>The client has accepted the check: the context waits, or it is released again at once.\<close>

definition waits :: "client_req \<Rightarrow> u64 option \<Rightarrow> rn_req_ctx_t \<Rightarrow> rn_req_ctx_t" where
  "waits h tm x = x\<lparr>ctx_req := Some h, inflight_counted := True, timer := tm, waiting := True,
     admission_outcome := RN_ADMISSION_WAITING, nginx_counted := True\<rparr>"

definition armed_with :: "handler_env \<Rightarrow> rn_req_ctx_t \<Rightarrow> u64 option" where
  "armed_with env x = (case deadline env of None \<Rightarrow> timer x
     | Some d \<Rightarrow> Some (if d > rn_now_ms (wall_time env) then d - rn_now_ms (wall_time env) else 0))"

lemma start_waiting_run:
  assumes x: "ctxs s c = Some x" and w: "worker s = Some w" and q: "reqs s r = Some q"
  shows "start_waiting env r c h s =
    (let u = s\<lparr>worker := Some (count_request w), reqs := (reqs s)(r \<mapsto> q\<lparr>refcount := refcount q + 1\<rparr>),
           ctxs := (ctxs s)(c \<mapsto> waits h (armed_with env x) x)\<rparr> in
     if \<not> read_ready env \<and> \<not> read_event_ok env
     then do { s \<leftarrow> rn_request_teardown c None True u; rn_finish_internal_error c s }
     else Some (NGX_AGAIN, u\<lparr>reqs := (reqs u)(r \<mapsto> q\<lparr>refcount := refcount q + 1, read_handler := Ngx_http_test_reading\<rparr>)\<rparr>))"
proof (cases "deadline env")
  case None
  have "waits h (timer x) x = x\<lparr>ctx_req := Some h, inflight_counted := True, waiting := True,
     admission_outcome := RN_ADMISSION_WAITING, nginx_counted := True\<rparr>" by (cases x) (simp add: waits_def)
  with None assms show ?thesis
    by (simp add: start_waiting_def upd_ctx_def upd_worker_def upd_req_def Let_def armed_with_def)
next
  case (Some d)
  with assms show ?thesis
    by (simp add: start_waiting_def upd_ctx_def upd_worker_def upd_req_def Let_def armed_with_def waits_def)
qed

lemma start_waiting_keeps:
  assumes f: "filling r c adm s0" and x0: "ctxs s0 c = Some x0" and x: "x = x0\<lparr>expected_guard_count := g, expected_resource_count := n\<rparr>"
    and cw: "ctx_worker x0" and h: "handles s0 h = None"
    and s: "s = s0\<lparr>ctxs := (ctxs s0)(c \<mapsto> x), checks := checks s0 @ [(r, e)], handles := (handles s0)(h \<mapsto> r)\<rparr>"
  shows "ok_with (\<lambda>(rc, t). keeps s0 t \<and> answers c rc t) (start_waiting env r c h s)"
proof -
  obtain q where q: "reqs s0 r = Some q" "slot q = Some c" "Rn_request_cleanup c \<in> set (cleanups q)" "\<not> terminated q"
    and x1: "ctx_pool x0 = r" "ctx_r x0 = Some r" "idle x0" "\<not> timeout_completed x0" "\<not> ctx_done x0"
      "completion_cause x0 = RN_COMPLETION_NONE" "worker s0 \<noteq> None"
    and inv: "sys_inv_while [] {c} s0" "checks_of r s0 = 0"
    using filling_ctx [OF f] x0 cw by (metis option.inject)
  then obtain w where w: "worker s0 = Some w" by blast
  let ?tm = "armed_with env x"
  let ?y = "waits h ?tm x"
  let ?q = "q\<lparr>refcount := refcount q + 1\<rparr>"
  let ?u = "s\<lparr>worker := Some (count_request w), reqs := (reqs s)(r \<mapsto> ?q), ctxs := (ctxs s)(c \<mapsto> ?y)\<rparr>"
  have run: "start_waiting env r c h s = (if \<not> read_ready env \<and> \<not> read_event_ok env
     then do { s \<leftarrow> rn_request_teardown c None True ?u; rn_finish_internal_error c s }
     else Some (NGX_AGAIN, ?u\<lparr>reqs := (reqs ?u)(r \<mapsto> q\<lparr>refcount := refcount q + 1, read_handler := Ngx_http_test_reading\<rparr>)\<rparr>))"
    using start_waiting_run [of s c x w r q env h] s w q by (simp add: Let_def)
  have nw: "\<not> waiting x0" using x1(3) by (simp add: idle_def)
  have "own_ctxs (cleanups q) \<noteq> []" using q(3) by (metis empty_iff list.set(1) own_ctxs_iff)
  then have grow: "checks_grow r q s0 ?u" using inv(2) by (cases e) (simp add: checks_grow_def s)
  have hold: "holding ?y h" using x1 cw by (simp add: holding_def waits_def x)
  show ?thesis
  proof (cases "\<not> read_ready env \<and> \<not> read_event_ok env")
    case False
    let ?q' = "q\<lparr>refcount := refcount q + 1, read_handler := Ngx_http_test_reading\<rparr>"
    let ?t = "?u\<lparr>reqs := (reqs ?u)(r \<mapsto> ?q')\<rparr>"
    have "checks_grow (ctx_pool x0) q s0 ?t" using grow x1(1) by (simp add: checks_grow_def)
    then have "sys_inv ?t"
      using x1 q hold
      by (intro inv_acquire [OF inv(1) x0 nw _ q(2-4) w h, where y = ?y and q' = ?q'])
        (simp_all add: s rest_same_def waits_def x settled_def)
    moreover have "continues s0 ?t"
      by (rule continues_upd [OF _ _ x0, where y = ?y]) (use x1 in \<open>simp_all add: s waits_def x\<close>)
    moreover have "answers c NGX_AGAIN ?t" by (simp add: answers_def waits_def)
    ultimately show ?thesis unfolding run if_not_P [OF False] by (simp add: keeps_def s)
  next
    case True
    have cl: "client w \<noteq> None" using inv_worker [OF inv(1)] w by (simp add: worker_ok_def worker_inv_def)
    let ?v = "?u\<lparr>ctxs := (ctxs ?u)(c \<mapsto> released ?y), handles := (if True then (handles ?u)(h := None) else handles ?u),
      worker := Some (rn_schedule_rebind (uncount_request (count_request w))),
      reqs := (reqs ?u)(ctx_pool ?y \<mapsto> ?q\<lparr>refcount := refcount ?q - 1\<rparr>)\<rparr>"
    have down: "rn_request_teardown c None True ?u = Some ?v"
      by (rule teardown_holding) (use hold cl x1 in \<open>simp_all add: s waits_def x count_request_def\<close>)
    let ?z = "(released ?y)\<lparr>decision := NGX_HTTP_INTERNAL_SERVER_ERROR,
            admission_outcome := RN_ADMISSION_INTERNAL_ERROR,
            completion_cause := RN_COMPLETION_NGINX_ERROR, ctx_done := True\<rparr>"
    let ?t = "?v\<lparr>ctxs := (ctxs ?v)(c \<mapsto> ?z)\<rparr>"
    have fin: "rn_finish_internal_error c ?v = Some (NGX_HTTP_INTERNAL_SERVER_ERROR, ?t)"
      by (simp add: rn_finish_internal_error_def upd_ctx_def)
    have back_q: "q\<lparr>refcount := refcount q\<rparr> = q" by simp
    have back_w: "uncount_request (count_request w) = w" by (cases w) (simp add: uncount_request_def count_request_def)
    have "\<exists>e. checks ?t = checks s0 @ [(r, e)]" by (rule exI [of _ e]) (simp add: s)
    then have "keeps s0 ?t"
      by (intro fill_end [OF f x0, where y = ?z])
        (use x1 q w h back_w in \<open>simp_all add: s rest_same_def fun_upd_idem idle_def released_def waits_def x settled_def\<close>)
    moreover have "answers c NGX_HTTP_INTERNAL_SERVER_ERROR ?t" by (simp add: answers_def released_def)
    ultimately show ?thesis unfolding run if_P [OF True] down bind.bind_lunit fin by (simp del: fun_upd_apply)
  qed
qed

lemma start_check_keeps:
  assumes f: "filling r c adm s" and cw: "\<And>x. ctxs s c = Some x \<Longrightarrow> ctx_worker x"
    and h: "handles s (snd (start_answer env)) = None"
  shows "ok_with (\<lambda>(rc, t). keeps s t \<and> answers c rc t) (start_check env r c resources guard_entries label s)"
proof -
  obtain x where x: "ctxs s c = Some x" "idle x" "ctx_pool x = r" "\<not> timeout_completed x" "ctx_worker x \<longrightarrow> worker s \<noteq> None"
    using filling_ctx [OF f] by metis
  let ?x = "x\<lparr>expected_guard_count := length guard_entries, expected_resource_count := length resources\<rparr>"
  let ?s = "s\<lparr>ctxs := (ctxs s)(c \<mapsto> ?x), checks := checks s @ [(r, resources, guard_entries, label)]\<rparr>"
  obtain rc h' where a: "start_answer env = (rc, h')" by fastforce
  have ok: "ok_with (\<lambda>(rc, t). keeps s t \<and> answers c rc t) (start_waiting env r c h' (?s\<lparr>handles := (handles s)(h' \<mapsto> r)\<rparr>))"
    by (rule start_waiting_keeps [OF f x(1) refl cw [OF x(1)]]) (use h a in simp_all)
  let ?y = "?x\<lparr>decision := fail_rc (mcf s), admission_outcome := fail_outcome (mcf s),
            completion_cause := RN_COMPLETION_START_FAILURE, ctx_done := True\<rparr>"
  let ?t = "?s\<lparr>ctxs := (ctxs ?s)(c \<mapsto> ?y)\<rparr>"
  have "rn_finish_preflight_failure c (mcf s) RN_COMPLETION_START_FAILURE ?s = Some (fail_rc (mcf s), ?t)"
    by (simp add: rn_finish_preflight_failure_def upd_ctx_def)
  moreover have "keeps s ?t"
    by (rule fill_end [OF f x(1), where y = ?y])
      (use x in \<open>auto simp: rest_same_def idle_def settled_def fail_outcome_def fail_rc_def failure_causes_def\<close>)
  moreover have "answers c (fail_rc (mcf s)) ?t" using x(2) by (simp add: answers_def idle_def)
  ultimately have bad: "ok_with (\<lambda>(rc, t). keeps s t \<and> answers c rc t)
      (rn_finish_preflight_failure c (mcf s) RN_COMPLETION_START_FAILURE ?s)"
    by simp
  have start: "start_check env r c resources guard_entries label s =
      (if rc = RCLIENT_OK then start_waiting env r c h' (?s\<lparr>handles := (handles s)(h' \<mapsto> r)\<rparr>)
       else rn_finish_preflight_failure c (mcf s) RN_COMPLETION_START_FAILURE ?s)"
    using x a by (cases rc) (simp_all add: start_check_def upd_ctx_def Let_def)
  show ?thesis
    using ok bad by (simp add: start del: fun_upd_apply)
qed

lemma report_step:
  assumes f: "filling r c adm s" and cw: "\<And>x. ctxs s c = Some x \<Longrightarrow> ctx_worker x"
  shows "ok_with (\<lambda>t. filling r c adm t \<and> continues s t \<and> mcf t = mcf s \<and> handles t = handles s \<and> completed t = completed s
    \<and> (\<forall>x. ctxs t c = Some x \<longrightarrow> ctx_worker x)) (prepare_report env l c s)"
proof -
  obtain x where x: "ctxs s c = Some x" "idle x" "ctx_pool x = r" "\<not> timeout_completed x" "ctx_worker x \<longrightarrow> worker s \<noteq> None"
    using filling_ctx [OF f] by metis
  have stay: "ok_with (\<lambda>t. filling r c adm t \<and> continues s t \<and> mcf t = mcf s \<and> handles t = handles s
      \<and> completed t = completed s \<and> (\<forall>x. ctxs t c = Some x \<longrightarrow> ctx_worker x)) (Some s)"
    using f cw by simp
  have "filling r c adm t \<and> continues s t \<and> mcf t = mcf s \<and> handles t = handles s \<and> completed t = completed s
      \<and> (\<forall>x. ctxs t c = Some x \<longrightarrow> ctx_worker x)"
    if t: "t = s\<lparr>ctxs := (ctxs s)(c \<mapsto> x\<lparr>lat_report := rep, lat_report_enabled := True\<rparr>)\<rparr>" for rep t
    using fill_step [OF f x(1) t] x cw [OF x(1)] t by (simp add: idle_def)
  then show ?thesis using x(1) stay
    by (auto simp: prepare_report_def upd_ctx_def split: option.split sum.split)
qed

lemma keeps_from:
  assumes "continues s u" and "completed u = completed s" and "ok_with (\<lambda>(rc, t). keeps u t \<and> answers c rc t) m"
  shows "ok_with (\<lambda>(rc, t). keeps s t \<and> answers c rc t) m"
  using assms(3) by (rule ok_mono) (use assms(1,2) in \<open>auto simp: keeps_def intro: continues_trans\<close>)

lemma run_check_keeps:
  assumes f: "filling r c adm t" and h: "handles t (snd (start_answer env)) = None"
    and cw: "\<And>x. ctxs t c = Some x \<Longrightarrow> ctx_worker x"
  shows "ok_with (\<lambda>(rc, t'). keeps t t' \<and> answers c rc t') (run_check env r l adm c t)"
proof (cases adm)
  case False
  obtain y where y: "ctxs t c = Some y" "completion_cause y = RN_COMPLETION_NONE" "decision y = NGX_DECLINED"
    using filling_ctx [OF f] by metis
  have e: "y\<lparr>ctx_done := True, completion_cause := RN_COMPLETION_NONE, decision := NGX_DECLINED\<rparr> = y\<lparr>ctx_done := True\<rparr>"
    using y(2,3) by (cases y) simp
  have "filling r c False t" using f False by simp
  from end_report_only [OF this _ refl y(1), of RN_COMPLETION_NONE] y
  have "keeps t (t\<lparr>ctxs := (ctxs t)(c \<mapsto> y\<lparr>ctx_done := True\<rparr>)\<rparr>)
      \<and> answers c NGX_DECLINED (t\<lparr>ctxs := (ctxs t)(c \<mapsto> y\<lparr>ctx_done := True\<rparr>)\<rparr>)"
    unfolding e by simp
  then show ?thesis using False y(1) by (simp add: run_check_def upd_ctx_def)
next
  case True
  have "RN_COMPLETION_DEPENDENCY_ERROR \<in> failure_causes" by (simp add: failure_causes_def)
  then show ?thesis
    using True end_preflight [OF f] end_internal [OF f] end_unprotected [OF f] start_check_keeps [OF f cw] h
    by (auto simp: run_check_def split: check_request.split build_error.split)
qed

text \<open>With a worker whose client exists.\<close>

lemma admit_with_worker_keeps:
  assumes f: "filling r c adm s" and h: "handles s (snd (start_answer env)) = None"
    and w: "worker s \<noteq> None"
  shows "ok_with (\<lambda>(rc, t). keeps s t \<and> answers c rc t)
    (do { s \<leftarrow> upd_ctx c (ctx_worker_update (\<lambda>_. True)) s;
          s \<leftarrow> prepare_report env l c s;
          run_check env r l adm c s })"
proof -
  obtain x where x: "ctxs s c = Some x" "idle x" "ctx_pool x = r" "\<not> timeout_completed x"
    using filling_ctx [OF f] by metis
  let ?u = "s\<lparr>ctxs := (ctxs s)(c \<mapsto> x\<lparr>ctx_worker := True\<rparr>)\<rparr>"
  have f2: "filling r c adm ?u" and st: "continues s ?u"
    by (rule fill_step [OF f x(1) refl]; use x w in \<open>simp add: idle_def\<close>)+
  have up: "upd_ctx c (ctx_worker_update (\<lambda>_. True)) s = Some ?u" using x by (simp add: upd_ctx_def)
  have "ok_with (\<lambda>t. filling r c adm t \<and> continues ?u t \<and> mcf t = mcf ?u \<and> handles t = handles ?u
      \<and> completed t = completed ?u \<and> (\<forall>x. ctxs t c = Some x \<longrightarrow> ctx_worker x)) (prepare_report env l c ?u)"
    by (rule report_step [OF f2]) auto
  then obtain t where t: "prepare_report env l c ?u = Some t" "filling r c adm t" "continues ?u t"
    "handles t = handles ?u" "completed t = completed ?u" "\<And>x. ctxs t c = Some x \<Longrightarrow> ctx_worker x"
    by (auto simp: ok_iff)
  have lift: "continues s t" using st t(3) by (blast intro: continues_trans)
  have flag: "completed t = completed s" using t(5) by simp
  have "ok_with (\<lambda>(rc, t'). keeps t t' \<and> answers c rc t') (run_check env r l adm c t)"
    by (rule run_check_keeps [OF t(2) _ t(6)]) (use h t(4) in simp_all)
  from keeps_from [OF lift flag this] show ?thesis unfolding up bind.bind_lunit t(1) .
qed

lemma admit_keeps:
  assumes f: "filling r c adm s" and h: "handles s (snd (start_answer env)) = None"
  shows "ok_with (\<lambda>(rc, t). keeps s t \<and> answers c rc t) (admit env r l adm c s)"
proof -
  obtain rc m w g where run: "(if worker s = None
      then rn_worker_ensure (init_env env) (current_msec env) (mcf s) None (os s)
      else (NGX_OK, mcf s, worker s, os s)) = (rc, m, w, g)" by (metis prod_cases4)
  let ?s = "s\<lparr>mcf := m, worker := w, os := g\<rparr>"
  have inv: "sys_inv_while [] {c} s" using f by (simp add: filling_def)
  note e = ensure_keeps [OF inv run refl]
  have f1: "filling r c adm ?s" using f e(1,2) by (auto simp: filling_def checks_of_def fail_outcome_def)
  have st: "continues s ?s" by (rule continues_same) (simp_all add: e(2))
  show ?thesis
  proof (cases "rc = NGX_OK")
    case False
    have "ok_with (\<lambda>(rc, t). keeps s t \<and> answers c rc t) (no_worker c adm ?s)"
      by (rule keeps_from [OF st _ end_no_worker [OF f1]]) simp
    with False show ?thesis unfolding admit_def run by (simp add: Let_def)
  next
    case True
    then obtain wk where wk: "w = Some wk" "client wk \<noteq> None" using e(3) by blast
    have "ok_with (\<lambda>(rc, t). keeps ?s t \<and> answers c rc t)
      (do { s \<leftarrow> upd_ctx c (ctx_worker_update (\<lambda>_. True)) ?s; s \<leftarrow> prepare_report env l c s;
            run_check env r l adm c s })"
      by (rule admit_with_worker_keeps [OF f1]) (use h wk in simp_all)
    from keeps_from [OF st _ this] have "ok_with (\<lambda>(rc, t). keeps s t \<and> answers c rc t)
      (do { s \<leftarrow> upd_ctx c (ctx_worker_update (\<lambda>_. True)) ?s; s \<leftarrow> prepare_report env l c s;
            run_check env r l adm c s })" by simp
    with True wk show ?thesis unfolding admit_def run by (auto simp: Let_def)
  qed
qed

lemma new_admission_keeps:
  assumes inv: "sys_inv s" and q: "reqs s r = Some q" "is_main q" "\<not> terminated q" "slot q = None" "own_ctxs (cleanups q) = []"
    and h: "handles s (snd (start_answer env)) = None"
  shows "ok_with (\<lambda>(rc, t). keeps s t \<and>
      (pcalloc_ok (build_env env) 0 \<and> cleanup_add_ok env \<longrightarrow> answers (next_ctx s) rc t)) (new_admission env r l adm s)"
proof (cases "pcalloc_ok (build_env env) 0")
  case False
  then show ?thesis using inv by (simp add: new_admission_def keeps_def)
next
  case True
  let ?c = "next_ctx s"
  let ?x = "new_ctx r adm (mcf s)"
  have quiet: "\<not> suspended s q" using q(4) by (simp add: suspended_def)
  show ?thesis
  proof (cases "cleanup_add_ok env")
    case False
    let ?y = "?x\<lparr>admission_outcome := RN_ADMISSION_INTERNAL_ERROR,
                 completion_cause := RN_COMPLETION_NGINX_ERROR, ctx_done := True\<rparr>"
    let ?t = "s\<lparr>next_ctx := ?c + 1, reqs := (reqs s)(r \<mapsto> q\<lparr>slot := Some ?c\<rparr>), ctxs := (ctxs s)(?c \<mapsto> ?y)\<rparr>"
    have "new_admission env r l adm s = Some (NGX_HTTP_INTERNAL_SERVER_ERROR, ?t)"
      using True False q by (simp add: new_admission_def upd_req_def upd_ctx_def Let_def)
    moreover have "sys_inv ?t"
      by (rule inv_new_ctx [OF inv q(1,2) quiet q(5), where y = ?y and q' = "q\<lparr>slot := Some ?c\<rparr>"])
        (use q in \<open>simp_all add: idle_def new_ctx_def settled_def\<close>)
    moreover have "continues s ?t" by (rule continues_new [where y = ?y]) simp_all
    ultimately show ?thesis using False by (simp add: keeps_def)
  next
    case ok: True
    let ?q = "q\<lparr>slot := Some ?c, cleanups := Rn_request_cleanup ?c # cleanups q\<rparr>"
    let ?t = "s\<lparr>next_ctx := ?c + 1, ctxs := (ctxs s)(?c \<mapsto> ?x), reqs := (reqs s)(r \<mapsto> ?q)\<rparr>"
    have run: "new_admission env r l adm s = admit env r l adm ?c ?t"
      using True ok q by (simp add: new_admission_def upd_req_def Let_def)
    have "checks_of r s = 0" using inv_req [OF inv q(1)] q(3,5) by (simp add: req_ok_def)
    moreover have "sys_inv_while [] {?c} ?t"
      by (rule inv_new_ctx [OF inv q(1,2) quiet q(5), where y = ?x and q' = ?q])
        (use q in \<open>simp_all add: idle_def new_ctx_def fail_outcome_def\<close>)
    ultimately have f: "filling r ?c adm ?t"
      using q by (auto simp: filling_def checks_of_def new_ctx_def idle_def fail_outcome_def)
    have "continues s ?t" by (rule continues_new [where y = ?x]) simp_all
    moreover have "ok_with (\<lambda>(rc, t). keeps ?t t \<and> answers ?c rc t) (admit env r l adm ?c ?t)"
      by (rule admit_keeps [OF f]) (use h in \<open>simp_all add: new_ctx_def\<close>)
    ultimately have "ok_with (\<lambda>(rc, t). keeps s t \<and> answers ?c rc t) (admit env r l adm ?c ?t)"
      by (intro keeps_from [of s ?t]) simp_all
    then show ?thesis unfolding run by (rule ok_mono) auto
  qed
qed

lemma handler_keeps:
  assumes inv: "sys_inv s" and q: "reqs s r = Some q" "\<not> terminated q"
    and h: "handles s (snd (start_answer env)) = None"
  shows "ok_with (\<lambda>(rc, t). keeps s t) (ngx_http_rn_handler env r s)"
proof (cases "is_main q")
  case False
  then show ?thesis using inv q by (simp add: ngx_http_rn_handler_def keeps_def)
next
  case True
  obtain ctx u where g: "rn_get_request_ctx r s = Some (ctx, u)" "u = s\<lparr>reqs := (reqs s)(r \<mapsto> q\<lparr>slot := ctx\<rparr>)\<rparr>"
    "sys_inv u" "ctx = None \<Longrightarrow> own_ctxs (cleanups q) = []" "ctx = None \<Longrightarrow> slot q = None"
    by (rule get_ctx_ok [OF inv q(1)]) blast
  have su: "keeps s u" using g(3) continues_same [of u s] g(2) by (simp add: keeps_def)
  have uq: "reqs u r = Some (q\<lparr>slot := ctx\<rparr>)" using g(2) by simp
  have lift: "ok_with (\<lambda>(rc, t). keeps s t) m" if "ok_with (\<lambda>(rc, t). keeps u t) m" for m :: "(ngx_rc \<times> sys) option"
    using that by (rule ok_mono) (use su keeps_trans in blast)
  let ?l = "loc_conf q"
  let ?adm = "enabled ?l \<noteq> Some False"
  have new: "ok_with (\<lambda>(rc, t). keeps u t) (new_admission env r ?l ?adm u)" if "ctx = None"
    using new_admission_keeps [OF g(3) uq, of env ?l ?adm] True q(2) g(2,4) h that
    by (auto elim!: ok_mono)
  have known: "ok_with (\<lambda>(rc, t). keeps u t) (do { x \<leftarrow> ctxs u c;
                     if ctx_done x then Some (decision x, u)
                     else if waiting x then Some (NGX_AGAIN, u)
                     else new_admission env r ?l ?adm u })" if c: "ctx = Some c" for c
  proof -
    obtain x where x: "ctxs u c = Some x" "ctx_r x = Some r"
      using inv_req [OF g(3) uq] c q(2) by (auto simp: req_ok_def)
    have "ctx_done x \<or> waiting x"
      using settled_done [OF inv_settled [OF g(3) x(1)]] x(2) by auto
    with x g(3) show ?thesis by (auto simp: keeps_def)
  qed
  have "ok_with (\<lambda>(rc, t). keeps s t) (if \<not> ?adm \<and> \<not> report_enabled ?l then Some (NGX_DECLINED, u)
            else if \<not> main_enabled (mcf u) then Some (NGX_DECLINED, u)
            else case ctx of
              None \<Rightarrow> new_admission env r ?l ?adm u
            | Some c \<Rightarrow>
                do { x \<leftarrow> ctxs u c;
                     if ctx_done x then Some (decision x, u)
                     else if waiting x then Some (NGX_AGAIN, u)
                     else new_admission env r ?l ?adm u })"
    using lift new known su by (cases ctx) simp_all
  then show ?thesis
    using True q g(1) by (simp add: ngx_http_rn_handler_def Let_def)
qed

lemma verdict_keeps:
  assumes inv: "sys_inv s" and q: "reqs s r = Some q"
  shows "ok_with (\<lambda>(v, t). keeps s t) (ngx_http_rn_verdict_variable r s)"
proof -
  obtain ctx u where g: "rn_get_request_ctx r s = Some (ctx, u)" "u = s\<lparr>reqs := (reqs s)(r \<mapsto> q\<lparr>slot := ctx\<rparr>)\<rparr>" "sys_inv u"
    by (rule get_ctx_ok [OF inv q]) blast
  have su: "keeps s u" using g(3) continues_same [of u s] g(2) by (simp add: keeps_def)
  have "\<exists>x. ctxs u c = Some x" if "ctx = Some c" for c
    using inv_req [OF g(3), of r] that g(2) by (auto simp: req_ok_def)
  with su g(1) show ?thesis
    by (cases ctx) (auto simp: ngx_http_rn_verdict_variable_def)
qed

end
