(* ===== verification/Request_Safety.thy ===== *)
theory Request_Safety
  imports Request_Handler
begin

text \<open>
  Every event of the process keeps the invariant and none faults; the properties of the request
  path that follow for every reachable state.
\<close>

subsection \<open>Every phase event\<close>

lemma redirect_keeps:
  assumes inv: "sys_inv s" and q: "reqs s r = Some q" and quiet: "\<not> suspended s q"
    and t: "t = s\<lparr>reqs := (reqs s)(r \<mapsto> q\<lparr>slot := None, loc_conf := l\<rparr>)\<rparr>"
  shows "keeps s t"
proof -
  have "checks_of r t = checks_of r s" "\<not> suspended t (q\<lparr>slot := None, loc_conf := l\<rparr>)"
    by (simp_all add: t checks_of_def suspended_def)
  then have "req_ok t r (q\<lparr>slot := None, loc_conf := l\<rparr>)"
    using inv_req [OF inv q] quiet by (auto simp: req_ok_def t)
  then have "sys_inv t"
    by (intro inv_request [OF inv q]) (use t quiet in \<open>simp_all add: rest_same_def\<close>)
  then show ?thesis using continues_same [of t s] t by (simp add: keeps_def)
qed

text \<open>nginx's own references and the connection's flags.\<close>

lemma counting_keeps:
  assumes inv: "sys_inv s" and q: "reqs s r = Some q" and t: "t = s\<lparr>reqs := (reqs s)(r \<mapsto> q')\<rparr>"
    and q': "slot q' = slot q" "cleanups q' = cleanups q" "is_main q' = is_main q" "terminated q' = terminated q"
      "refcount q' + own_refs q = refcount q + own_refs q'" "own_refs q' \<le> refcount q'"
  shows "keeps s t"
proof -
  have sus: "suspended t q' = suspended s q" and checks: "checks_of r t = checks_of r s"
    using q' by (simp_all add: t checks_of_def suspended_def split: option.split)
  have "req_ok t r q'"
    using inv_req [OF inv q] q' sus checks by (simp add: req_ok_def t)
  moreover have "Rn_request_cleanup c \<in> set (cleanups q) \<and> \<not> terminated q" if c: "slot q = Some c" "suspended s q" for c
  proof -
    obtain x where x: "ctxs s c = Some x" "waiting x" using c by (auto simp: suspended_def split: option.splits)
    moreover have "ctx_pool x = r" using inv_req [OF inv q] c x by (auto simp: req_ok_def)
    ultimately show ?thesis using inv_ctx [OF inv x(1)] q by (simp add: ctx_ok_def)
  qed
  ultimately have "sys_inv t"
    by (intro inv_request [OF inv q, where q' = q']) (use t q' in \<open>simp_all add: rest_same_def\<close>)
  then show ?thesis using continues_same [of t s] t by (simp add: keeps_def)
qed

lemma phase_keeps:
  assumes inv: "sys_inv s" and en: "phase_enabled r e s"
  shows "ok_with (keeps s) (phase_exec r e s)"
proof -
  obtain q where q: "reqs s r = Some q" and al: "phase_allowed e q s"
    using en by (auto simp: phase_enabled_def split: option.splits)
  have ref: "own_refs q \<le> refcount q" using inv_req [OF inv q] by (simp add: req_ok_def)
  show ?thesis
  proof (cases e)
    case (Enter env)
    with handler_keeps [OF inv q, of env] al show ?thesis by (auto intro!: ok_map elim!: ok_mono)
  next
    case Read_verdict
    with verdict_keeps [OF inv q] show ?thesis by (auto intro!: ok_map elim!: ok_mono)
  next
    case (Redirect l)
    with redirect_keeps [OF inv q _ refl] al q show ?thesis by (simp add: upd_req_def)
  next
    case (Connection_flags t e d)
    with counting_keeps [OF inv q refl, of "q\<lparr>conn_timedout := t, conn_error := e, conn_destroyed := d\<rparr>"] q ref
    show ?thesis by (simp add: upd_req_def)
  next
    case (Write_handler w)
    with counting_keeps [OF inv q refl, of "q\<lparr>write_handler := w\<rparr>"] q ref show ?thesis by (simp add: upd_req_def)
  next
    case Take_ref
    with counting_keeps [OF inv q refl, of "q\<lparr>refcount := refcount q + 1, own_refs := own_refs q + 1\<rparr>"] q ref
    show ?thesis by (simp add: upd_req_def)
  next
    case Drop_ref
    with counting_keeps [OF inv q refl, of "q\<lparr>refcount := refcount q - 1, own_refs := own_refs q - 1\<rparr>"] q ref al
    show ?thesis by (simp add: upd_req_def)
  next
    case Terminate
    with cleanup_request_keeps [OF inv q] show ?thesis by (auto elim!: ok_mono)
  next
    case (Free_request env)
    obtain t q' where t: "cleanup_request r s = Some t" "keeps s t" "reqs t r = Some q'" "terminated q'"
      using cleanup_request_keeps [OF inv q] by (auto simp: ok_iff)
    have it: "sys_inv t" using t(2) by (simp add: keeps_def)
    obtain u where u: "ngx_http_rn_log_handler env r t = Some u" "keeps t u" "reqs u = reqs t"
      using log_keeps [OF it t(3,4), of env] by (auto simp: ok_iff)
    have "ok_with (keeps u) (free_pool r u)"
      by (rule free_keeps) (use u t in \<open>simp_all add: keeps_def\<close>)
    with t u Free_request show ?thesis by (auto simp: ok_iff intro: keeps_trans)
  qed
qed

lemma resume_keeps: "sys_inv s \<Longrightarrow> ok_with (keeps s) (resume_phases es r s)"
proof (induction es arbitrary: s)
  case Nil
  then show ?case by (simp add: keeps_def)
next
  case (Cons e es)
  show ?case
  proof (cases "phase_enabled r e s")
    case True
    obtain t where t: "phase_exec r e s = Some t" "keeps s t"
      using phase_keeps [OF Cons.prems True] by (auto simp: ok_iff)
    then have "ok_with (keeps t) (resume_phases es r t)" by (intro Cons.IH) (simp add: keeps_def)
    with t True show ?thesis by (auto simp: ok_iff intro: keeps_trans)
  qed (use Cons in simp)
qed

subsection \<open>Every event\<close>

lemma new_request_keeps:
  assumes inv: "sys_inv s" and q: "slot q = None" "cleanups q = []" "refcount q = own_refs q"
    and t: "t = s\<lparr>next_req := next_req s + 1, reqs := (reqs s)(next_req s \<mapsto> q)\<rparr>"
  shows "sys_inv t \<and> continues s t"
proof -
  have fresh: "reqs s (next_req s) = None"
  proof (rule ccontr)
    assume "reqs s (next_req s) \<noteq> None"
    then show False using inv_req [OF inv, of "next_req s"] by (auto simp: req_ok_def)
  qed
  have checks: "checks_of r t = checks_of r s" for r by (simp add: t checks_of_def)
  have none: "checks_of (next_req s) s = 0" using inv_checks [OF inv, of "next_req s"] by simp
  have "ctx_ok [] {} t c x" if "ctxs t c = Some x" for c x
    using that inv_ctx [OF inv, of c x] fresh by (auto simp: ctx_ok_def t split: option.splits)
  moreover have "req_ok t r u" if u: "reqs t r = Some u" for r u
  proof (cases "r = next_req s")
    case True
    then have "u = q" using u by (simp add: t)
    moreover have "\<not> suspended t q" using q by (simp add: suspended_def)
    ultimately show ?thesis using True q none checks by (simp add: req_ok_def t)
  next
    case False
    then have "req_ok s r u" using u inv_req [OF inv] by (simp add: t)
    moreover have "suspended t u = suspended s u" by (simp add: suspended_def t split: option.split)
    ultimately show ?thesis using checks by (auto simp: req_ok_def t)
  qed
  moreover have "handle_ok t h r" if "handles t h = Some r" for h r
    using that inv_handle [OF inv, of h r] by (simp add: handle_ok_def t)
  moreover have "worker_ok t" using inv_worker [OF inv] by (simp add: worker_ok_def t split: option.splits)
  moreover have "checks_of r t \<le> (if r < next_req t then 1 else 0)" for r
    using checks [of r] inv_checks [OF inv, of r] none by (cases "r < next_req s") (auto simp: t)
  ultimately have "sys_inv t" by (simp add: sys_inv_while_def)
  then show ?thesis using continues_same [of t s] by (simp add: t)
qed

text \<open>The events that only touch the worker.\<close>

lemma worker_event_keeps:
  assumes inv: "sys_inv s" and w: "worker s = Some w" and step: "worker_step e (w, os s) = Some (w', h')"
    and same: "inflight w' = inflight w" and t: "t = s\<lparr>worker := Some w', os := h'\<rparr>"
  shows "sys_inv t \<and> continues s t"
proof -
  have "worker_ok t"
    using worker_keeps [OF w inv_worker [OF inv], of e w' t] step same by (simp add: t)
  then have "sys_inv t" by (intro inv_worker_change [OF inv]) (simp_all add: t)
  then show ?thesis using continues_same [of t s] by (simp add: t)
qed

lemma exec_keeps:
  assumes inv: "sys_inv s" and en: "enabled_event e s"
  shows "ok_with (\<lambda>t. sys_inv t \<and> continues s t) (exec e s)"
proof (cases e)
  case (New_request main_request l sec msec)
  with new_request_keeps [OF inv _ _ _ refl] show ?thesis by simp
next
  case (Phase r pe)
  with phase_keeps [OF inv, of r pe] en show ?thesis by (auto simp: keeps_def elim!: ok_mono)
next
  case (Complete h status result es)
  obtain r where r: "handles s h = Some r" using en Complete by auto
  obtain c x where x: "ctxs s c = Some x" "waiting x" "ctx_req x = Some h" "ctx_pool x = r"
    using inv_handle [OF inv r] by (auto simp: handle_ok_def)
  have hold: "holding x h" and tc: "\<not> timeout_completed x"
    using inv_waiting [OF inv x(1,2)] x(3) by (metis holding_def option.inject)+
  have same: "x\<lparr>timer := timer x, timeout_completed := False\<rparr> = x" using tc by (cases x) simp
  let ?t = "s\<lparr>handles := (handles s)(h := None)\<rparr>"
  have "ok_with (\<lambda>u. sys_inv u \<and> continues s u \<and> completed u = (completed ?t \<or> False)
      \<and> (\<forall>y. ctxs u c = Some y \<longrightarrow> ctx_done y))
    (rn_rate_cb (resume_phases es) (Some (ctx_pool x)) h status result ?t)"
    by (rule rate_cb_keeps [OF inv x(1) hold x(2), where tm = "timer x"])
      (use resume_keeps x(1) same in \<open>simp_all add: rest_same_def fun_upd_idem\<close>)
  with Complete r x(4) show ?thesis by (auto elim!: ok_mono)
next
  case (Timer_fires c env es)
  obtain x where x: "ctxs s c = Some x" "timer x \<noteq> None" using en Timer_fires by (auto split: option.splits)
  have w: "waiting x" using inv_idle [OF inv x(1)] x(2) by (auto simp: idle_def)
  let ?t = "s\<lparr>ctxs := (ctxs s)(c \<mapsto> x\<lparr>timer := None\<rparr>)\<rparr>"
  have t: "sys_inv ?t \<and> continues s ?t"
    by (rule inv_timer [OF inv x(1) w, where b = "completed s" and tm = None]) simp
  have "ok_with (\<lambda>u. sys_inv u \<and> continues ?t u
      \<and> (waiting (x\<lparr>timer := None\<rparr>) \<longrightarrow> (\<forall>y. ctxs u c = Some y \<longrightarrow> ctx_done y \<or> waiting y \<and> timer y \<noteq> None)))
    (rn_request_timeout_handler env (resume_phases es) c ?t)"
    by (rule timeout_keeps) (use t resume_keeps in simp_all)
  with t x(1) Timer_fires show ?thesis by (auto simp: upd_ctx_def elim!: ok_mono intro: continues_trans)
next
  case (Feedback keep_port)
  obtain w where w: "worker s = Some w" using en Feedback by auto
  have "inflight (rn_on_steering_feedback keep_port w) = inflight w"
    by (simp add: rn_on_steering_feedback_def worker_fields)
  with worker_event_keeps [OF inv w, of "Steering_feedback keep_port"] w Feedback show ?thesis
    by (simp add: upd_worker_def)
next
  case (Rebind_fires env)
  obtain w where w: "worker s = Some w" "rebind_event w \<noteq> None" using en Rebind_fires by (auto split: option.splits)
  obtain w' h' where run: "rn_rebind_handler env (w\<lparr>rebind_event := None\<rparr>) (os s) = (w', h')" by fastforce
  have "worker_inv (w, os s)" using inv_worker [OF inv] w by (simp add: worker_ok_def)
  then have "inflight w' = inflight w" using rebind_handler_step run by blast
  with worker_event_keeps [OF inv w(1), of "Rebind_timer env" w' h'] w run Rebind_fires show ?thesis by simp
next
  case (Read_mark b)
  obtain w where w: "worker s = Some w" using en Read_mark by auto
  with worker_event_keeps [OF inv w, of "Read_active b"] Read_mark show ?thesis by (simp add: upd_worker_def)
qed

definition guarded_exec :: "event \<Rightarrow> sys \<Rightarrow> sys option" where
  "guarded_exec e s = (if enabled_event e s then exec e s else None)"

interpretation request_run: step_invariant guarded_exec sys_inv
  by unfold_locales (use exec_keeps in \<open>fastforce simp: guarded_exec_def ok_iff split: if_split_asm\<close>)

lemma initial_inv: "initial m s \<Longrightarrow> sys_inv s"
  by (simp add: initial_def sys_inv_while_def worker_ok_def checks_of_def heap_ok_empty)

lemma reachable_inv: "reachable m s \<Longrightarrow> sys_inv s"
proof (induction rule: reachable.induct)
  case (start s)
  then show ?case by (rule initial_inv)
next
  case (next_step s e s')
  then have "guarded_exec e s = Some s'" by (simp add: guarded_exec_def step_iff)
  with next_step show ?case by (blast intro: request_run.step_keeps)
qed

end
