(* ===== verification/Request_Properties.thy ===== *)
theory Request_Properties
  imports Request_Safety
begin

text \<open>
  What the invariant of \<open>Request_Inv\<close> gives for every reachable state of a worker process, and
  what each operation of the request path does there.  The witnesses are runs of the model on a
  protected location with two zone rules and on a report-only location.
\<close>

lemma step_inv: "reachable m s \<Longrightarrow> step s e s' \<Longrightarrow> sys_inv s' \<and> continues s s'"
  using exec_keeps [OF reachable_inv, of m s e] by (auto simp: step_iff ok_iff)

lemma enabled_steps: "reachable m s \<Longrightarrow> enabled_event e s \<Longrightarrow> \<exists>s'. step s e s'"
  using exec_keeps [OF reachable_inv, of m s e] by (auto simp: step_iff ok_iff)

lemma reachable_policy: "reachable m s \<Longrightarrow> fail_open (mcf s) = fail_open m"
proof (induction rule: reachable.induct)
  case (start s)
  then show ?case by (simp add: initial_def)
next
  case (next_step s e s')
  then show ?case using step_inv by (simp add: continues_def)
qed

lemma waiting_of_request:
  assumes inv: "sys_inv s" and q: "reqs s r = Some q"
  shows "card {c. \<exists>x. ctxs s c = Some x \<and> waiting x \<and> ctx_pool x = r} = (if suspended s q then 1 else 0)"
proof (cases "suspended s q")
  case True
  then obtain c x where c: "slot q = Some c" "ctxs s c = Some x" "waiting x"
    by (auto simp: suspended_def split: option.splits)
  have "ctx_pool x = r" using inv_req [OF inv q] c by (auto simp: req_ok_def)
  then have "d = c" if "ctxs s d = Some y" "waiting y" "ctx_pool y = r" for d y
    using waiting_unique [OF inv that(1,2) c(2,3)] that(3) by simp
  with c \<open>ctx_pool x = r\<close> have "{c. \<exists>x. ctxs s c = Some x \<and> waiting x \<and> ctx_pool x = r} = {c}" by blast
  then show ?thesis using True by simp
next
  case False
  then have "{c. \<exists>x. ctxs s c = Some x \<and> waiting x \<and> ctx_pool x = r} = {}"
    using quiet_pool [OF inv q] by blast
  with False show ?thesis by (simp only: card.empty if_False)
qed

text \<open>
  C1. No event of the process makes the module fail: in every reachable state each event that
  nginx or the client may deliver is carried out without an access to a freed context, request
  or worker, without a use of a client handle that is not live, and without destroying a pool
  under an armed timer, whatever nginx does with the requests that are resumed on the way.
\<close>

theorem no_event_faults:
  assumes "reachable m s" and "enabled_event e s"
  shows "\<exists>s'. step s e s'"
  by (rule enabled_steps [OF assms])

text \<open>
  C4. The accounting is exact in every reachable state: the client's live handles are those of
  the waiting contexts, one each; the worker's in-flight count is the number of waiting
  contexts; and a request's reference count exceeds nginx's own references by the number of its
  waiting contexts.
\<close>

theorem ownership_exact:
  assumes "reachable m s"
  shows "(\<forall>h r. handles s h = Some r \<longleftrightarrow>
      (\<exists>c x. ctxs s c = Some x \<and> waiting x \<and> ctx_req x = Some h \<and> ctx_pool x = r))
    \<and> (\<forall>w. worker s = Some w \<longrightarrow> inflight w = card (wait_set (ctxs s)))
    \<and> (\<forall>r q. reqs s r = Some q \<longrightarrow>
        refcount q = own_refs q + card {c. \<exists>x. ctxs s c = Some x \<and> waiting x \<and> ctx_pool x = r})"
proof (intro conjI allI impI)
  note inv = reachable_inv [OF assms]
  show "handles s h = Some r \<longleftrightarrow>
      (\<exists>c x. ctxs s c = Some x \<and> waiting x \<and> ctx_req x = Some h \<and> ctx_pool x = r)" for h r
  proof
    show "handles s h = Some r \<Longrightarrow> \<exists>c x. ctxs s c = Some x \<and> waiting x \<and> ctx_req x = Some h \<and> ctx_pool x = r"
      using inv_handle [OF inv, of h r] by (simp add: handle_ok_def)
    assume "\<exists>c x. ctxs s c = Some x \<and> waiting x \<and> ctx_req x = Some h \<and> ctx_pool x = r"
    then obtain c x where x: "ctxs s c = Some x" "waiting x" "ctx_req x = Some h" "ctx_pool x = r" by blast
    then show "handles s h = Some r" using inv_waiting [OF inv x(1,2)] by (metis holding_def option.inject)
  qed
  show "inflight w = card (wait_set (ctxs s))" if "worker s = Some w" for w
    using inv_worker [OF inv] that by (simp add: worker_ok_def)
  show "refcount q = own_refs q + card {c. \<exists>x. ctxs s c = Some x \<and> waiting x \<and> ctx_pool x = r}"
    if q: "reqs s r = Some q" for r q
    using inv_req [OF inv q] waiting_of_request [OF inv q] by (simp add: req_ok_def)
qed

text \<open>
  C2. A request causes at most one rate check in its whole life, across internal redirects,
  re-entries of the handler, failures and retries.
\<close>

theorem at_most_one_check:
  assumes "reachable m s"
  shows "length (filter (\<lambda>(q, _). q = r) (checks s)) \<le> 1"
  using inv_checks [OF reachable_inv [OF assms], of r] by (simp add: checks_of_def split: if_split_asm)

text \<open>
  C11. Outcome, completion cause and return code of every context always fit together, and the
  failure outcomes follow the configured policy: an allow returns \<open>NGX_OK\<close> and a deny 429 with
  the cause of a valid verdict; a failure returns \<open>NGX_OK\<close> exactly when the policy is to fail
  open, and 429 otherwise.
\<close>

theorem outcome_consistent:
  assumes "reachable m s" and "ctxs s c = Some x"
  shows "settled (fail_open m) x"
  using inv_settled [OF reachable_inv [OF assms(1)] assms(2)] reachable_policy [OF assms(1)] by simp

text \<open>C15. A decision is final: no event changes it as long as its context exists.\<close>

theorem decision_final:
  assumes "reachable m s" and "step s e s'" and "ctxs s c = Some x" and "ctx_done x" and "ctxs s' c = Some y"
  shows "ctx_done y \<and> decision y = decision x"
proof -
  have "c < next_ctx s" using inv_ctx [OF reachable_inv [OF assms(1)] assms(3)] by (simp add: ctx_ok_def)
  then show ?thesis using continues_done [of s s' c x y] step_inv [OF assms(1,2)] assms(3-5) by blast
qed

text \<open>
  C12. An admission that was obtained for a main request is reused after internal redirects: when a
  request that nginx has not terminated reaches the handler in a location with admission enabled, and
  a context in its cleanup list is done with an outcome other than none (a verdict, a failure or an
  internal error), the handler recovers that context, also when the redirect has cleared the module
  context, and returns the decision reached before, without another check.
\<close>

theorem redirect_reuses_decision:
  assumes "reachable m s" and "reqs s r = Some q" and "is_main q" and "\<not> terminated q"
    and "Rn_request_cleanup c \<in> set (cleanups q)" and "ctxs s c = Some x" and "ctx_done x"
    and "admission_outcome x \<noteq> RN_ADMISSION_NONE"
    and "enabled (loc_conf q) \<noteq> Some False" and "main_enabled (mcf s)"
  shows "\<exists>s'. ngx_http_rn_handler env r s = Some (decision x, s') \<and> checks s' = checks s \<and> ctxs s' = ctxs s"
proof -
  note inv = reachable_inv [OF assms(1)]
  obtain ctx u where g: "rn_get_request_ctx r s = Some (ctx, u)" "u = s\<lparr>reqs := (reqs s)(r \<mapsto> q\<lparr>slot := ctx\<rparr>)\<rparr>"
    "sys_inv u" "ctx = None \<Longrightarrow> own_ctxs (cleanups q) = []"
    by (rule get_ctx_ok [OF inv assms(2)]) blast
  have "own_ctxs (cleanups q) \<noteq> []" using assms(5) by (metis empty_iff list.set(1) own_ctxs_iff)
  then obtain d where d: "ctx = Some d" using g(4) by (cases ctx) auto
  have "req_ok u r (q\<lparr>slot := ctx\<rparr>)" by (rule inv_req [OF g(3)]) (simp add: g(2))
  then have "d = c" using assms(5) d by (auto simp: req_ok_def)
  with assms g(1,2) d show ?thesis by (simp add: ngx_http_rn_handler_def Let_def)
qed

text \<open>
  C5. The completion of a live check always finds its context and decides it, and then resumes the
  request: the callback reaches a state in which the context has exactly the return code, outcome
  and cause of \<open>rate_decision\<close> and is done, its handle and timer are gone, and the request has given
  back the reference it held and has its phase engine as write handler again, whichever it had
  before; from that state, and not from an earlier one, the phases of the request are run, whatever
  they do (\<open>es\<close>), and they do not fail.
\<close>

theorem completion_decides:
  assumes "reachable m s" and "handles s h = Some r"
  shows "\<exists>c x y q q' t. ctxs s c = Some x \<and> ctx_pool x = r \<and> reqs s r = Some q
    \<and> (\<forall>es. exec (Complete h status result es) s = resume_phases es r t \<and> resume_phases es r t \<noteq> None)
    \<and> ctxs t c = Some y \<and> ctx_done y \<and> \<not> waiting y \<and> ctx_req y = None \<and> timer y = None
    \<and> (decision y, admission_outcome y, completion_cause y)
      = rate_decision (mcf s) (expected_guard_count x) (expected_resource_count x) status result
    \<and> handles t h = None \<and> reqs t r = Some q' \<and> refcount q = refcount q' + 1
    \<and> write_handler q' = Ngx_http_core_run_phases"
proof -
  note inv = reachable_inv [OF assms(1)]
  obtain c x where x: "ctxs s c = Some x" "waiting x" "ctx_req x = Some h" "ctx_pool x = r"
    using inv_handle [OF inv assms(2)] by (auto simp: handle_ok_def)
  obtain g q w where q: "holding x g" "reqs s (ctx_pool x) = Some q" "slot q = Some c" "worker s = Some w"
    "refcount q = own_refs q + 1" using inv_waiting [OF inv x(1,2)] by metis
  have hold: "holding x h" using q(1) x(3) by (simp add: holding_def)
  have cl: "client w \<noteq> None" using inv_worker [OF inv] q(4) by (simp add: worker_ok_def worker_inv_def)
  let ?s = "s\<lparr>handles := (handles s)(h := None)\<rparr>"
  let ?q = "q\<lparr>refcount := refcount q - 1, write_handler := Ngx_http_core_run_phases\<rparr>"
  let ?t = "?s\<lparr>completed := completed ?s \<or> timeout_completed x, worker := Some (rn_schedule_rebind (uncount_request w)),
      ctxs := (ctxs ?s)(c \<mapsto> decided (mcf ?s) status result x), reqs := (reqs ?s)(ctx_pool x \<mapsto> ?q)\<rparr>"
  have run: "rn_rate_cb resume (Some (ctx_pool x)) h status result ?s = resume (ctx_pool x) ?t" for resume
    by (rule rate_cb_run) (use x hold q cl in simp_all)
  have "exec (Complete h status result es) s = resume_phases es r ?t \<and> resume_phases es r ?t \<noteq> None" for es
    using run [of "resume_phases es"] assms(2) x(4) exec_keeps [OF inv, of "Complete h status result es"]
    by (auto simp: ok_iff)
  with assms(2) x q show ?thesis
    by (intro exI [of _ c] exI [of _ x] exI [of _ "decided (mcf ?s) status result x"] exI [of _ q] exI [of _ ?q] exI [of _ ?t])
      (auto simp: decided_def released_def split: prod.split)
qed

text \<open>
  C3. The decision of a completed check is the published contract: a result that belongs to the
  check, that is, a successful status with exactly as many guard and resource results as were
  sent, is admitted if and only if it is successful, every guard passed and no resource has a
  deficit, and is denied with 429 otherwise; anything else follows the configured policy.
\<close>

definition belongs :: "nat \<Rightarrow> nat \<Rightarrow> rclient_status \<Rightarrow> r_rate_limit_result_t option \<Rightarrow> bool" where
  "belongs g n status result \<longleftrightarrow> status = RCLIENT_OK \<and>
     (\<exists>res. result = Some res \<and> length (guard_passed res) = g \<and> length (tokens_deficit res) = n)"

definition admits :: "r_rate_limit_result_t \<Rightarrow> bool" where
  "admits res \<longleftrightarrow> success res \<and> (\<forall>p \<in> set (guard_passed res). p) \<and> (\<forall>d \<in> set (tokens_deficit res). d = 0)"

lemma all_passed_iff: "all_passed ps \<longleftrightarrow> (\<forall>p \<in> set ps. p)"
  by (induction ps) auto

lemma no_deficit_iff: "no_deficit ds \<longleftrightarrow> (\<forall>d \<in> set ds. d = 0)"
  by (induction ds) auto

theorem rate_decision_contract:
  "rate_decision m g n status result =
    (if belongs g n status result
     then (if admits (the result)
           then (NGX_OK, RN_ADMISSION_VALID_ALLOW, RN_COMPLETION_VALID_VERDICT)
           else (NGX_HTTP_TOO_MANY_REQUESTS, RN_ADMISSION_VALID_DENY, RN_COMPLETION_VALID_VERDICT))
     else (if fail_open m then NGX_OK else NGX_HTTP_TOO_MANY_REQUESTS,
           if fail_open m then RN_ADMISSION_FAIL_OPEN else RN_ADMISSION_FAIL_CLOSE,
           if status = RCLIENT_ERR_TIMEOUT then RN_COMPLETION_TIMEOUT
           else if status = RCLIENT_OK \<and> result \<noteq> None then RN_COMPLETION_CARDINALITY_MISMATCH
           else RN_COMPLETION_DEPENDENCY_ERROR))"
proof (cases result)
  case (Some res)
  then show ?thesis
    by (auto simp: rate_decision_def belongs_def admits_def all_passed_iff no_deficit_iff fail_rc_def fail_outcome_def
        Let_def)
qed (simp add: rate_decision_def belongs_def fail_rc_def fail_outcome_def)

text \<open>
  C13. The deadline timer never loses a check: when it fires, the check is decided, the request
  is gone, or the timer is set again.
\<close>

theorem timer_progress:
  assumes "reachable m s" and "ctxs s c = Some x" and "timer x \<noteq> None"
  shows "\<exists>s'. exec (Timer_fires c env es) s = Some s' \<and>
    (case ctxs s' c of None \<Rightarrow> True | Some y \<Rightarrow> ctx_done y \<or> waiting y \<and> timer y \<noteq> None)"
proof -
  note inv = reachable_inv [OF assms(1)]
  have w: "waiting x" using inv_idle [OF inv assms(2)] assms(3) by (auto simp: idle_def)
  let ?t = "s\<lparr>ctxs := (ctxs s)(c \<mapsto> x\<lparr>timer := None\<rparr>)\<rparr>"
  have t: "sys_inv ?t \<and> continues s ?t"
    by (rule inv_timer [OF inv assms(2) w, where b = "completed s" and tm = None]) simp
  have "ok_with (\<lambda>u. sys_inv u \<and> continues ?t u
      \<and> (waiting (x\<lparr>timer := None\<rparr>) \<longrightarrow> (\<forall>y. ctxs u c = Some y \<longrightarrow> ctx_done y \<or> waiting y \<and> timer y \<noteq> None)))
    (rn_request_timeout_handler env (resume_phases es) c ?t)"
    by (rule timeout_keeps) (use t resume_keeps in simp_all)
  with w assms(2) show ?thesis by (auto simp: upd_ctx_def ok_iff split: option.splits)
qed

text \<open>
  C14. The endpoint is never replaced under a check in flight: while the client has a live
  handle, the rebind event leaves the socket, its connection and every other object alone.
\<close>

theorem endpoint_kept_in_flight:
  assumes "reachable m s" and "handles s h \<noteq> None" and "worker s = Some w" and "step s (Rebind_fires env) s'"
  shows "\<exists>w'. worker s' = Some w' \<and> endpoint_of w' = endpoint_of w \<and> blocks (os s') = blocks (os s)"
proof -
  note inv = reachable_inv [OF assms(1)]
  obtain r where "handles s h = Some r" using assms(2) by auto
  then obtain c x where "ctxs s c = Some x" "waiting x"
    using inv_handle [OF inv, of h r] by (auto simp: handle_ok_def)
  then have "c \<in> wait_set (ctxs s)" by (simp add: wait_set_def)
  then have "card (wait_set (ctxs s)) \<noteq> 0" using finite_waiting [OF inv] by auto
  moreover have wk: "worker_inv (w, os s)" "inflight w = card (wait_set (ctxs s))"
    using inv_worker [OF inv] assms(3) by (simp_all add: worker_ok_def)
  moreover obtain w' h' where run: "rn_rebind_handler env (w\<lparr>rebind_event := None\<rparr>) (os s) = (w', h')" by fastforce
  ultimately have "endpoint_of w' = endpoint_of w \<and> blocks h' = blocks (os s)"
    using rebind_handler_step [OF wk(1) run] by simp
  moreover have "worker s' = Some w'" "os s' = h'" using assms(3,4) run by (auto simp: step_iff)
  ultimately show ?thesis by blast
qed

text \<open>
  C16. Terminating a request releases everything it holds with the client and the worker: no
  live handle of it is left, its timers are stopped, and its reference count is nginx's own.  The
  context of a check that was waiting ends with the outcome aborted and the cause client abort;
  every other context of the request keeps its outcome, cause and decision.
\<close>

theorem termination_releases:
  assumes "reachable m s" and "step s (Phase r Terminate) s'"
  shows "(\<forall>h. handles s' h \<noteq> Some r) \<and> (\<exists>q. reqs s' r = Some q \<and> refcount q = own_refs q)
    \<and> (\<forall>c x. ctxs s' c = Some x \<and> ctx_pool x = r \<longrightarrow> timer x = None \<and> admission_outcome x \<noteq> RN_ADMISSION_WAITING)
    \<and> (\<forall>c x. ctxs s c = Some x \<and> ctx_pool x = r \<longrightarrow> (\<exists>y. ctxs s' c = Some y \<and>
        (if waiting x
         then admission_outcome y = RN_ADMISSION_ABORTED \<and> completion_cause y = RN_COMPLETION_CLIENT_ABORT
         else admission_outcome y = admission_outcome x \<and> completion_cause y = completion_cause x
           \<and> ctx_done y = ctx_done x \<and> decision y = decision x)))"
proof -
  note inv = reachable_inv [OF assms(1)]
  obtain q where q: "reqs s r = Some q" using assms(2) by (auto simp: step_iff phase_enabled_def split: option.splits)
  have run: "cleanup_request r s = Some s'" using assms(2) by (auto simp: step_iff)
  from cleanup_request_keeps [OF inv q] run obtain q' where
    t: "sys_inv s'" "reqs s' r = Some q'" "terminated q'" by (auto simp: keeps_def)
  note quiet = terminated_quiet [OF t]
  have "handles s' h \<noteq> Some r" for h
    using inv_handle [OF t(1), of h r] quiet by (auto simp: handle_ok_def)
  moreover have "refcount q' = own_refs q'"
    using inv_req [OF t(1,2)] terminated_not_suspended [OF t] by (simp add: req_ok_def)
  moreover have "timer x = None \<and> admission_outcome x \<noteq> RN_ADMISSION_WAITING"
    if x: "ctxs s' c = Some x" "ctx_pool x = r" for c x
    using inv_idle [OF t(1) x(1) quiet [OF x]] by (auto simp: idle_def)
  moreover have "\<exists>y. ctxs s' c = Some y \<and>
        (if waiting x
         then admission_outcome y = RN_ADMISSION_ABORTED \<and> completion_cause y = RN_COMPLETION_CLIENT_ABORT
         else admission_outcome y = admission_outcome x \<and> completion_cause y = completion_cause x
           \<and> ctx_done y = ctx_done x \<and> decision y = decision x)"
    if x: "ctxs s c = Some x" "ctx_pool x = r" for c x
  proof -
    have "waiting x \<Longrightarrow> Rn_request_cleanup c \<in> set (cleanups q)"
      using inv_ctx [OF inv x(1)] x(2) q by (simp add: ctx_ok_def)
    with cleanup_request_ends [OF inv q run x(1)] show ?thesis
      by (auto simp: terminated_ctx_def aborted_def released_def)
  qed
  ultimately show ?thesis using t(2) by blast
qed

text \<open>
  C17. The verdict variable speaks only of valid verdicts: when it says allow or deny, the
  request's admission ended with a valid result, whose return code is \<open>NGX_OK\<close> and 429.
\<close>

theorem verdict_is_valid:
  assumes "reachable m s" and "ngx_http_rn_verdict_variable r s = Some (v, s')" and "v \<noteq> Not_found"
  shows "\<exists>c x. ctxs s c = Some x \<and> ctx_pool x = r \<and> completion_cause x = RN_COMPLETION_VALID_VERDICT
    \<and> decision x = (if v = Allow then NGX_OK else NGX_HTTP_TOO_MANY_REQUESTS)"
proof -
  note inv = reachable_inv [OF assms(1)]
  obtain q where q: "reqs s r = Some q"
    using assms(2) by (auto simp: ngx_http_rn_verdict_variable_def rn_get_request_ctx_def split: Option.bind_splits)
  obtain ctx u where g: "rn_get_request_ctx r s = Some (ctx, u)" "u = s\<lparr>reqs := (reqs s)(r \<mapsto> q\<lparr>slot := ctx\<rparr>)\<rparr>" "sys_inv u"
    by (rule get_ctx_ok [OF inv q]) blast
  obtain c x where c: "ctx = Some c" "ctxs u c = Some x"
    "v = (if admission_outcome x = RN_ADMISSION_VALID_ALLOW then Allow
          else if admission_outcome x = RN_ADMISSION_VALID_DENY then Deny else Not_found)"
    using assms(2,3) g(1) by (auto simp: ngx_http_rn_verdict_variable_def split: Option.bind_splits option.splits)
  have "req_ok u r (q\<lparr>slot := ctx\<rparr>)" by (rule inv_req [OF g(3)]) (simp add: g(2))
  then have "ctx_pool x = r" using c by (auto simp: req_ok_def)
  moreover have "settled (fail_open (mcf u)) x" by (rule inv_settled [OF g(3) c(2)])
  ultimately show ?thesis using c assms(3) g(2) by (auto simp: settled_def split: if_split_asm)
qed

lemma prepare_report_run:
  assumes "ctxs t c = Some x"
  shows "\<exists>rep en. prepare_report env l c t = Some (t\<lparr>ctxs := (ctxs t)(c \<mapsto> x\<lparr>lat_report := rep, lat_report_enabled := en\<rparr>)\<rparr>)"
proof -
  define upd where "upd rep en = Some (t\<lparr>ctxs := (ctxs t)(c \<mapsto> x\<lparr>lat_report := rep, lat_report_enabled := en\<rparr>)\<rparr>)" for rep en
  have "x\<lparr>lat_report := lat_report x, lat_report_enabled := lat_report_enabled x\<rparr> = x" by (cases x) simp
  then have stay: "Some t = upd (lat_report x) (lat_report_enabled x)"
    using assms by (simp add: upd_def fun_upd_idem)
  have "prepare_report env l c t = Some t \<or> (\<exists>rep. prepare_report env l c t = upd rep True)"
    using assms by (auto simp: prepare_report_def upd_ctx_def upd_def split: option.split sum.split)
  then show ?thesis using stay unfolding upd_def [symmetric] by metis
qed

text \<open>
  C10. The handler sends the check it has built: for a protected main request that has no
  admission yet, with a worker and enough memory, it suspends the request with exactly one
  check holding the resources, guards and label of \<open>build_check\<close>, and the request owns the
  handle that the client returned, one more reference and one unit of the in-flight count.
\<close>

theorem handler_sends_check:
  assumes "reachable m s" and "reqs s r = Some q" and "is_main q" and "slot q = None"
    and "own_ctxs (cleanups q) = []" and "enabled (loc_conf q) \<noteq> Some False" and "main_enabled (mcf s)"
    and "worker s = Some w" and "pcalloc_ok (build_env env) 0" and "cleanup_add_ok env"
    and "build_check (build_env env) (mcf s) (loc_conf q) = Check res gs label"
    and "start_answer env = (RCLIENT_OK, h)" and "read_ready env \<or> read_event_ok env"
  shows "\<exists>s' c y w' q'. ngx_http_rn_handler env r s = Some (NGX_AGAIN, s') \<and> checks s' = checks s @ [(r, res, gs, label)]
    \<and> handles s' = (handles s)(h \<mapsto> r) \<and> worker s' = Some w' \<and> inflight w' = inflight w + 1
    \<and> reqs s' r = Some q' \<and> refcount q' = refcount q + 1 \<and> slot q' = Some c \<and> Rn_request_cleanup c \<in> set (cleanups q')
    \<and> ctxs s' c = Some y \<and> waiting y \<and> ctx_req y = Some h \<and> expected_guard_count y = length gs
    \<and> expected_resource_count y = length res
    \<and> timer y = (case deadline env of None \<Rightarrow> None
        | Some d \<Rightarrow> Some (if d > rn_now_ms (wall_time env) then d - rn_now_ms (wall_time env) else 0))"
proof -
  note inv = reachable_inv [OF assms(1)]
  have cl: "client w \<noteq> None" using inv_worker [OF inv] assms(8) by (simp add: worker_ok_def worker_inv_def)
  have none: "find_cleanup r (cleanups q) s = Some None"
    using find_cleanup_ok [of "cleanups q" s r] assms(5) by (metis list.simps(4) own_ctxs_iff list.set(1) empty_iff)
  have get: "rn_get_request_ctx r s = Some (None, s)" using assms(2,4) none by (simp add: rn_get_request_ctx_def)
  let ?l = "loc_conf q"
  let ?c = "next_ctx s"
  let ?x = "(new_ctx r True (mcf s))\<lparr>ctx_worker := True\<rparr>"
  let ?q = "q\<lparr>slot := Some ?c, cleanups := Rn_request_cleanup ?c # cleanups q\<rparr>"
  let ?t = "s\<lparr>next_ctx := ?c + 1, reqs := (reqs s)(r \<mapsto> ?q), worker := Some w, ctxs := (ctxs s)(?c \<mapsto> ?x)\<rparr>"
  obtain rep en where rep: "prepare_report env ?l ?c ?t
      = Some (?t\<lparr>ctxs := (ctxs ?t)(?c \<mapsto> ?x\<lparr>lat_report := rep, lat_report_enabled := en\<rparr>)\<rparr>)"
    using prepare_report_run [of ?t ?c ?x env ?l] by auto
  have "ngx_http_rn_handler env r s = new_admission env r ?l True s"
    using assms(2,3,6,7) get by (simp add: ngx_http_rn_handler_def Let_def)
  also have "\<dots> = do { s \<leftarrow> prepare_report env ?l ?c ?t; start_check env r ?c res gs label s }"
    using assms(2,8-11) cl rep by (auto simp: new_admission_def upd_req_def Let_def admit_def run_check_def upd_ctx_def)
  also have "\<dots> = start_check env r ?c res gs label (?t\<lparr>ctxs := (ctxs ?t)(?c \<mapsto> ?x\<lparr>lat_report := rep, lat_report_enabled := en\<rparr>)\<rparr>)"
    unfolding rep by simp
  finally show ?thesis
    using assms(2,8,12,13)
    by (auto simp: start_check_def upd_ctx_def Let_def start_waiting_run waits_def armed_with_def new_ctx_def
        count_request_def split: option.split)
qed

lemma ensure_main_enabled:
  "rn_worker_ensure env now m w h = (rc, m', w', h') \<Longrightarrow> main_enabled m' = main_enabled m"
  by (auto simp: rn_worker_ensure_def Let_def split: if_split_asm prod.splits)

lemma admit_report_only:
  assumes "ctxs s c = Some x" and "admit env r l False c s = Some (rc, t)"
  shows "rc = NGX_DECLINED \<and> checks t = checks s \<and> reqs t = reqs s \<and> main_enabled (mcf t) = main_enabled (mcf s)"
proof -
  obtain rc1 m w h where run: "(if worker s = None
      then rn_worker_ensure (init_env env) (current_msec env) (mcf s) None (os s)
      else (NGX_OK, mcf s, worker s, os s)) = (rc1, m, w, h)" by (metis prod_cases4)
  then have m: "main_enabled m = main_enabled (mcf s)"
    by (auto dest: ensure_main_enabled split: if_split_asm)
  let ?s = "s\<lparr>mcf := m, worker := w, os := h\<rparr>"
  have no: "rc = NGX_DECLINED \<and> checks t = checks s \<and> reqs t = reqs s \<and> main_enabled (mcf t) = main_enabled (mcf s)"
    if "no_worker c False ?s = Some (rc, t)"
    using that assms(1) m by (auto simp: no_worker_def upd_ctx_def)
  obtain rep en where p: "prepare_report env l c (?s\<lparr>ctxs := (ctxs s)(c \<mapsto> x\<lparr>ctx_worker := True\<rparr>)\<rparr>)
      = Some (?s\<lparr>ctxs := (ctxs s)(c \<mapsto> x\<lparr>ctx_worker := True, lat_report := rep, lat_report_enabled := en\<rparr>)\<rparr>)"
    using prepare_report_run [of "?s\<lparr>ctxs := (ctxs s)(c \<mapsto> x\<lparr>ctx_worker := True\<rparr>)\<rparr>" c "x\<lparr>ctx_worker := True\<rparr>" env l] by auto
  show ?thesis
    using assms(2) no m assms(1) p
    by (auto simp: admit_def run_check_def run Let_def upd_ctx_def split: if_split_asm option.splits)
qed

text \<open>
  C9. An admission bypass: a main request that first reaches the handler in a location with a
  report but no rules is recorded as done with \<open>NGX_DECLINED\<close>, although no admission was asked
  for; when nginx then redirects it internally into a protected location, the handler takes
  that record for the admission of the request and lets it pass without any check.
\<close>

theorem report_first_bypasses:
  assumes "reachable m s" and "reqs s r = Some q" and "is_main q" and "\<not> terminated q" and "slot q = None"
    and "own_ctxs (cleanups q) = []" and "enabled (loc_conf q) = Some False" and "report_enabled (loc_conf q)"
    and "main_enabled (mcf s)" and "pcalloc_ok (build_env env1) 0" and "cleanup_add_ok env1"
    and "handles s (snd (start_answer env1)) = None" and "enabled l = Some True"
  shows "\<exists>s1 s2 s3. ngx_http_rn_handler env1 r s = Some (NGX_DECLINED, s1) \<and> phase_exec r (Redirect l) s1 = Some s2
    \<and> ngx_http_rn_handler env2 r s2 = Some (NGX_DECLINED, s3) \<and> checks s3 = checks s"
proof -
  note inv = reachable_inv [OF assms(1)]
  let ?l = "loc_conf q"
  let ?c = "next_ctx s"
  have none: "find_cleanup r (cleanups q) s = Some None"
    using find_cleanup_ok [of "cleanups q" s r] assms(6) by (metis list.simps(4) own_ctxs_iff list.set(1) empty_iff)
  have get: "rn_get_request_ctx r s = Some (None, s)" using assms(2,5) none by (simp add: rn_get_request_ctx_def)
  let ?q = "q\<lparr>slot := Some ?c, cleanups := Rn_request_cleanup ?c # cleanups q\<rparr>"
  let ?t = "s\<lparr>next_ctx := ?c + 1, ctxs := (ctxs s)(?c \<mapsto> new_ctx r False (mcf s)), reqs := (reqs s)(r \<mapsto> ?q)\<rparr>"
  have run: "ngx_http_rn_handler env1 r s = new_admission env1 r ?l False s"
    using assms(2,3,7-9) get by (simp add: ngx_http_rn_handler_def Let_def)
  also have new: "\<dots> = admit env1 r ?l False ?c ?t"
    using assms(2,10,11) by (simp add: new_admission_def upd_req_def Let_def)
  finally have body: "ngx_http_rn_handler env1 r s = admit env1 r ?l False ?c ?t" .
  obtain rc s1 where s1: "new_admission env1 r ?l False s = Some (rc, s1)" "keeps s s1" "answers ?c rc s1"
    using new_admission_keeps [OF inv assms(2-6,12), of ?l False] assms(10,11) by (auto simp: ok_iff)
  have "rc = NGX_DECLINED \<and> checks s1 = checks ?t \<and> reqs s1 = reqs ?t \<and> main_enabled (mcf s1) = main_enabled (mcf ?t)"
    by (rule admit_report_only [of ?t ?c "new_ctx r False (mcf s)" env1 r ?l]) (use s1(1) new in simp_all)
  then have out: "rc = NGX_DECLINED" "checks s1 = checks s" "reqs s1 r = Some ?q" "main_enabled (mcf s1)"
    using assms(9) by simp_all
  obtain y where y: "ctxs s1 ?c = Some y" "ctx_done y" "decision y = NGX_DECLINED"
    using s1(3) out(1) by (auto simp: answers_def split: if_split_asm)
  have inv1: "sys_inv s1" using s1(2) by (simp add: keeps_def)
  have cr: "ctx_r y = Some r"
    using inv_req [OF inv1 out(3)] y(1) by (auto simp: req_ok_def)
  let ?q2 = "?q\<lparr>slot := None, loc_conf := l\<rparr>"
  let ?s2 = "s1\<lparr>reqs := (reqs s1)(r \<mapsto> ?q2)\<rparr>"
  let ?s3 = "?s2\<lparr>reqs := (reqs ?s2)(r \<mapsto> ?q2\<lparr>slot := Some ?c\<rparr>)\<rparr>"
  have "phase_exec r (Redirect l) s1 = Some ?s2" using out(3) by (simp add: upd_req_def)
  moreover have "rn_get_request_ctx r ?s2 = Some (Some ?c, ?s3)"
    using y(1) cr by (simp add: rn_get_request_ctx_def upd_req_def)
  then have "ngx_http_rn_handler env2 r ?s2 = Some (NGX_DECLINED, ?s3)"
    using assms(3,13) out(4) y by (simp add: ngx_http_rn_handler_def Let_def)
  ultimately show ?thesis using s1(1) run out(1,2) by auto
qed

text \<open>
  C18. The log phase reports a latency at most once for a context, and only for a main request
  whose work was done for the client: no admission rule, a valid allow or a fail-open, and no
  error, timeout or destruction of the connection; the reported value lies between 1 and the
  largest 32-bit number.
\<close>

theorem report_conditions:
  assumes "ngx_http_rn_log_handler env r s = Some s'" and "reports s' \<noteq> reports s"
  shows "\<exists>q c x rep. reqs s r = Some q \<and> is_main q \<and> slot q = Some c \<and> ctxs s c = Some x
    \<and> lat_report_enabled x \<and> \<not> lat_report_sent x \<and> \<not> conn_timedout q \<and> \<not> conn_error q \<and> \<not> conn_destroyed q
    \<and> admission_outcome x \<in> {RN_ADMISSION_NONE, RN_ADMISSION_VALID_ALLOW, RN_ADMISSION_FAIL_OPEN}
    \<and> reports s' = reports s @ [(r, rep)] \<and> rep = (lat_report x)\<lparr>observed_latency := observed_latency rep\<rparr>
    \<and> 1 \<le> unat (observed_latency rep)
    \<and> map_option reports (ngx_http_rn_log_handler env r s') = Some (reports s')"
proof -
  obtain q where q: "reqs s r = Some q"
    using assms(1) by (cases "reqs s r") (simp_all add: ngx_http_rn_log_handler_def)
  obtain c where c: "is_main q" "slot q = Some c"
    using assms q by (cases "is_main q"; cases "slot q") (simp_all add: ngx_http_rn_log_handler_def)
  obtain x where x: "ctxs s c = Some x"
    using assms(1) q c by (cases "ctxs s c") (simp_all add: ngx_http_rn_log_handler_def)
  note run = assms(1) [unfolded ngx_http_rn_log_handler_def q c(2) Option.bind.bind_lunit option.case x]
  have only: "lat_report_enabled x" "\<not> lat_report_sent x" "\<not> conn_timedout q" "\<not> conn_error q" "\<not> conn_destroyed q"
    "admission_outcome x \<in> {RN_ADMISSION_NONE, RN_ADMISSION_VALID_ALLOW, RN_ADMISSION_FAIL_OPEN}" "ctx_worker x"
    using run assms(2) c(1) x by (auto simp: upd_ctx_def split: if_split_asm)
  obtain w where w: "worker s = Some w"
    using run only c(1) x by (cases "worker s") (auto simp: upd_ctx_def)
  obtain tp where s': "s' = s\<lparr>reports := reports s @ [(r, (lat_report x)\<lparr>observed_latency := observed_ms q tp\<rparr>)],
      ctxs := (ctxs s)(c \<mapsto> x\<lparr>lat_report := (lat_report x)\<lparr>observed_latency := observed_ms q tp\<rparr>, lat_report_sent := True\<rparr>)\<rparr>"
    using run only c(1) x w assms(2)
    by (cases "client w"; cases "log_time env") (auto simp: upd_ctx_def Let_def)
  note qc = q c x only
  have pos: "1 \<le> unat (observed_ms q tp)"
  proof -
    define o1 where "o1 = (let
        start_ms = start_sec q * 1000 + start_msec q; end_ms = fst tp * 1000 + snd tp;
        observed = (if end_ms > start_ms then end_ms - start_ms else 0);
        observed = (if observed = 0 then 1 else observed)
      in if observed > 0xFFFFFFFF then 0xFFFFFFFF else (observed :: u64))"
    have "observed_ms q tp = ucast o1" by (simp add: observed_ms_def o1_def Let_def)
    moreover have "o1 \<noteq> 0" "o1 \<le> 0xFFFFFFFF" by (auto simp: o1_def Let_def)
    then have "0 < unat o1" "unat o1 \<le> 0xFFFFFFFF" by (simp_all add: word_le_nat_alt unat_gt_0)
    ultimately show ?thesis by (simp add: unat_ucast_u32_u64)
  qed
  have again: "map_option reports (ngx_http_rn_log_handler env r s') = Some (reports s')"
    using qc by (simp add: ngx_http_rn_log_handler_def s')
  from qc s' pos again show ?thesis by (intro exI [of _ q] exI [of _ c] exI [of _ x]) auto
qed

subsection \<open>A sample run\<close>

text \<open>
  A protected location with two zone rules.  The first request starts a check with handle 7 and
  is allowed; steering feedback then arms the rebind event, and a second request arrives.
\<close>

definition start_sys :: "rn_main_conf_t \<Rightarrow> sys" where
  "start_sys m = \<lparr>mcf = m, worker = None, os = empty_heap, ctxs = (\<lambda>_. None), next_ctx = 0, next_req = 0,
     reqs = (\<lambda>_. None), handles = (\<lambda>_. None), completed = False, checks = [], reports = []\<rparr>"

definition sample_handler_env :: "client_req \<Rightarrow> handler_env" where
  "sample_handler_env h = \<lparr>build_env = sample_render, cleanup_add_ok = True, init_env = sample_worker_env True,
     current_msec = 5, start_answer = (RCLIENT_OK, h), deadline = Some 60, wall_time = Some (0, 10),
     read_ready = True, read_event_ok = True\<rparr>"

definition sample_protected :: rn_main_conf_t where
  "sample_protected = (sample_rule_conf sample_main)\<lparr>main_enabled := True,
     trackers := [\<lparr>tracker_name = ''t'', service_template = ''s'', service_cv = Compiled ''s'', ttl_ms = 1000,
       max_samples = 4, min_sample_threshold = 1\<rparr>]\<rparr>"

definition sample_report_loc :: rn_loc_conf_t where
  "sample_report_loc = sample_rule_loc\<lparr>enabled := Some False, report_set := True, report_enabled := True,
     report_tracker_name := ''t''\<rparr>"

definition sample_allow :: "r_rate_limit_result_t option" where
  "sample_allow = Some \<lparr>success = True, guard_passed = [], tokens_deficit = [0, 0]\<rparr>"

definition waiting_run :: "event list" where
  "waiting_run = [New_request True sample_rule_loc 0 0, Phase 0 (Enter (sample_handler_env 7))]"

definition decided_run :: "event list" where
  "decided_run = waiting_run @ [Complete 7 RCLIENT_OK sample_allow []]"

definition second_run :: "event list" where
  "second_run = decided_run @ [Feedback False, New_request True sample_rule_loc 0 0]"

definition sample_run :: "event list \<Rightarrow> sys option" where
  "sample_run es = run_steps guarded_exec es (start_sys sample_protected)"

lemma run_reachable: "run_steps guarded_exec es s = Some t \<Longrightarrow> reachable m s \<Longrightarrow> reachable m t"
proof (induction es arbitrary: s)
  case (Cons e es)
  then obtain u where u: "guarded_exec e s = Some u" "run_steps guarded_exec es u = Some t"
    by (auto split: option.splits)
  then have "step s e u" by (auto simp: guarded_exec_def step_iff split: if_split_asm)
  with Cons.prems(2) have "reachable m u" by (rule reachable.next_step)
  with Cons.IH u(2) show ?case by blast
qed simp

lemma sample_reachable: "sample_run es = Some s \<Longrightarrow> reachable sample_protected s"
  unfolding sample_run_def
  by (rule run_reachable) (auto intro: reachable.start simp: initial_def start_sys_def)

lemma holdsE:
  assumes "case sample_run es of None \<Rightarrow> False | Some s \<Rightarrow> Q s"
  obtains s where "sample_run es = Some s" and "reachable sample_protected s" and "Q s"
  using assms that sample_reachable by (cases "sample_run es") auto

lemma sample_waiting:
  "case sample_run waiting_run of None \<Rightarrow> False | Some s \<Rightarrow>
     handles s 7 = Some 0 \<and> map fst (checks s) = [0] \<and> inflight (the (worker s)) = 1
     \<and> (case ctxs s 0 of None \<Rightarrow> False | Some x \<Rightarrow> timer x = Some 50 \<and> waiting x)"
  by code_simp

lemma sample_decided:
  "case sample_run decided_run of None \<Rightarrow> False | Some s \<Rightarrow>
     handles s 7 = None \<and> main_enabled (mcf s) \<and> worker s \<noteq> None
     \<and> (case ctxs s 0 of None \<Rightarrow> False | Some x \<Rightarrow> ctx_done x \<and> decision x = NGX_OK
         \<and> admission_outcome x = RN_ADMISSION_VALID_ALLOW)
     \<and> (case reqs s 0 of None \<Rightarrow> False | Some q \<Rightarrow> slot q = Some 0 \<and> is_main q \<and> \<not> terminated q
         \<and> cleanups q = [Rn_request_cleanup 0] \<and> enabled (loc_conf q) = Some True)"
  by code_simp

lemma sample_second:
  "case sample_run second_run of None \<Rightarrow> False | Some s \<Rightarrow>
     handles s 8 = None \<and> main_enabled (mcf s) \<and> mcf s = sample_protected\<lparr>init_retry_at := 0, init_retry_delay := 0\<rparr>
     \<and> worker s \<noteq> None
     \<and> (case reqs s 1 of None \<Rightarrow> False | Some q \<Rightarrow> slot q = None \<and> is_main q \<and> \<not> terminated q
         \<and> cleanups q = [] \<and> loc_conf q = sample_rule_loc)"
  by code_simp

lemma sample_in_flight:
  "case sample_run (second_run @ [Phase 1 (Enter (sample_handler_env 8))]) of None \<Rightarrow> False | Some s \<Rightarrow>
     handles s 8 \<noteq> None \<and> enabled_event (Rebind_fires sample_sock) s \<and> worker s \<noteq> None"
  by code_simp

lemma sample_report_only:
  "case sample_run [New_request True sample_report_loc 0 0] of None \<Rightarrow> False | Some s \<Rightarrow>
     main_enabled (mcf s) \<and> handles s 7 = None
     \<and> (case reqs s 0 of None \<Rightarrow> False | Some q \<Rightarrow> slot q = None \<and> is_main q \<and> \<not> terminated q
         \<and> cleanups q = [] \<and> loc_conf q = sample_report_loc)"
  by code_simp

lemma sample_reporting:
  "case sample_run [New_request True sample_report_loc 0 0, Phase 0 (Enter (sample_handler_env 7))] of None \<Rightarrow> False
   | Some s \<Rightarrow> (case ngx_http_rn_log_handler \<lparr>log_time = Some (0, 20)\<rparr> 0 s of None \<Rightarrow> False
       | Some s' \<Rightarrow> reports s = [] \<and> map fst (reports s') = [0])"
  by code_simp

subsection \<open>Witnesses\<close>

lemma no_event_faults_witness:
  "\<exists>s s'. sample_run waiting_run = Some s \<and> step s (Complete 7 RCLIENT_OK sample_allow [Terminate, Read_verdict]) s'"
  using sample_waiting by (rule holdsE) (use no_event_faults in fastforce)

lemma ownership_exact_witness:
  "\<exists>s w. sample_run waiting_run = Some s \<and> worker s = Some w \<and> inflight w = card (wait_set (ctxs s))
    \<and> (\<exists>c x. ctxs s c = Some x \<and> waiting x \<and> ctx_req x = Some 7)"
proof (rule holdsE [OF sample_waiting])
  fix s assume s: "sample_run waiting_run = Some s" "reachable sample_protected s"
    "handles s 7 = Some 0 \<and> map fst (checks s) = [0] \<and> inflight (the (worker s)) = 1
     \<and> (case ctxs s 0 of None \<Rightarrow> False | Some x \<Rightarrow> timer x = Some 50 \<and> waiting x)"
  obtain x where "ctxs s 0 = Some x" "waiting x" using s(3) by (auto split: option.splits)
  then obtain w where "worker s = Some w" using inv_waiting [OF reachable_inv [OF s(2)]] by metis
  with ownership_exact [OF s(2)] s show ?thesis by blast
qed

lemma at_most_one_check_witness:
  "\<exists>s. sample_run waiting_run = Some s \<and> length (filter (\<lambda>(q, _). q = 0) (checks s)) \<le> 1"
  using sample_waiting by (rule holdsE) (use at_most_one_check in blast)

lemma outcome_consistent_witness:
  "\<exists>s x. sample_run decided_run = Some s \<and> ctxs s 0 = Some x \<and> settled (fail_open sample_protected) x"
proof (rule holdsE [OF sample_decided])
  fix s assume s: "sample_run decided_run = Some s" "reachable sample_protected s"
  assume "handles s 7 = None \<and> main_enabled (mcf s) \<and> worker s \<noteq> None
     \<and> (case ctxs s 0 of None \<Rightarrow> False | Some x \<Rightarrow> ctx_done x \<and> decision x = NGX_OK
         \<and> admission_outcome x = RN_ADMISSION_VALID_ALLOW)
     \<and> (case reqs s 0 of None \<Rightarrow> False | Some q \<Rightarrow> slot q = Some 0 \<and> is_main q \<and> \<not> terminated q
         \<and> cleanups q = [Rn_request_cleanup 0] \<and> enabled (loc_conf q) = Some True)"
  then obtain x where "ctxs s 0 = Some x" by (auto split: option.splits)
  with outcome_consistent [OF s(2)] s(1) show ?thesis by blast
qed

text \<open>The state after the first decision, as the later witnesses use it.\<close>

lemma decided_state:
  obtains s x q where "sample_run decided_run = Some s" and "reachable sample_protected s" and "main_enabled (mcf s)"
    and "ctxs s 0 = Some x" and "ctx_done x" and "decision x = NGX_OK" and "admission_outcome x = RN_ADMISSION_VALID_ALLOW"
    and "reqs s 0 = Some q" and "slot q = Some 0" and "is_main q" and "\<not> terminated q"
    and "cleanups q = [Rn_request_cleanup 0]" and "enabled (loc_conf q) = Some True"
  using sample_decided by (rule holdsE) (use that in \<open>auto split: option.splits\<close>)

lemma decision_final_witness:
  "\<exists>s s' x y. sample_run decided_run = Some s \<and> ctxs s 0 = Some x \<and> step s (Phase 0 Terminate) s'
    \<and> ctxs s' 0 = Some y \<and> decision y = NGX_OK"
proof -
  obtain s x q where s: "sample_run decided_run = Some s" "reachable sample_protected s" "ctxs s 0 = Some x" "ctx_done x"
    "decision x = NGX_OK" "reqs s 0 = Some q" by (rule decided_state)
  have "enabled_event (Phase 0 Terminate) s" using s(6) by (simp add: phase_enabled_def)
  then obtain s' where st: "step s (Phase 0 Terminate) s'"
    using enabled_steps [OF s(2)] by blast
  have "case sample_run (decided_run @ [Phase 0 Terminate]) of None \<Rightarrow> False | Some s \<Rightarrow> ctxs s 0 \<noteq> None" by code_simp
  moreover have "sample_run (decided_run @ [Phase 0 Terminate]) = Some s'"
    using s(1) st by (simp add: sample_run_def run_steps_append guarded_exec_def step_iff)
  ultimately obtain y where "ctxs s' 0 = Some y" by auto
  with decision_final [OF s(2) st s(3,4)] s st show ?thesis by auto
qed

lemma redirect_reuses_decision_witness:
  "\<exists>s s' env. sample_run (decided_run @ [Phase 0 (Redirect sample_rule_loc)]) = Some s
    \<and> ngx_http_rn_handler env 0 s = Some (NGX_OK, s') \<and> checks s' = checks s"
proof -
  have "case sample_run (decided_run @ [Phase 0 (Redirect sample_rule_loc)]) of None \<Rightarrow> False | Some s \<Rightarrow>
     main_enabled (mcf s)
     \<and> (case ctxs s 0 of None \<Rightarrow> False | Some x \<Rightarrow> ctx_done x \<and> decision x = NGX_OK
         \<and> admission_outcome x \<noteq> RN_ADMISSION_NONE)
     \<and> (case reqs s 0 of None \<Rightarrow> False | Some q \<Rightarrow> slot q = None \<and> is_main q \<and> \<not> terminated q
         \<and> cleanups q = [Rn_request_cleanup 0] \<and> enabled (loc_conf q) = Some True)"
    by code_simp
  then show ?thesis
  proof (rule holdsE)
    fix s assume s: "sample_run (decided_run @ [Phase 0 (Redirect sample_rule_loc)]) = Some s" "reachable sample_protected s"
    assume "main_enabled (mcf s)
     \<and> (case ctxs s 0 of None \<Rightarrow> False | Some x \<Rightarrow> ctx_done x \<and> decision x = NGX_OK
         \<and> admission_outcome x \<noteq> RN_ADMISSION_NONE)
     \<and> (case reqs s 0 of None \<Rightarrow> False | Some q \<Rightarrow> slot q = None \<and> is_main q \<and> \<not> terminated q
         \<and> cleanups q = [Rn_request_cleanup 0] \<and> enabled (loc_conf q) = Some True)"
    then obtain x q where xq: "main_enabled (mcf s)" "ctxs s 0 = Some x" "ctx_done x" "decision x = NGX_OK" "admission_outcome x \<noteq> RN_ADMISSION_NONE"
      "reqs s 0 = Some q"
      "is_main q" "\<not> terminated q" "cleanups q = [Rn_request_cleanup 0]" "enabled (loc_conf q) = Some True"
      by (auto split: option.splits)
    from redirect_reuses_decision [OF s(2) xq(6-8) _ xq(2,3,5) _ xq(1)] xq(4,9,10) s(1)
    show ?thesis by fastforce
  qed
qed

lemma completion_decides_witness:
  "\<exists>s s' t y. sample_run waiting_run = Some s
    \<and> exec (Complete 7 RCLIENT_OK sample_allow [Write_handler Other_handler, Terminate]) s = Some s'
    \<and> resume_phases [Write_handler Other_handler, Terminate] 0 t = Some s' \<and> handles t 7 = None
    \<and> (\<exists>c. ctxs t c = Some y \<and> ctx_done y)"
proof (rule holdsE [OF sample_waiting])
  fix s assume s: "sample_run waiting_run = Some s" "reachable sample_protected s"
  assume "handles s 7 = Some 0 \<and> map fst (checks s) = [0] \<and> inflight (the (worker s)) = 1
     \<and> (case ctxs s 0 of None \<Rightarrow> False | Some x \<Rightarrow> timer x = Some 50 \<and> waiting x)"
  then have h: "handles s 7 = Some 0" by simp
  let ?es = "[Write_handler Other_handler, Terminate]"
  from completion_decides [OF s(2) h, of RCLIENT_OK sample_allow] obtain c y t where
    t: "\<And>es. exec (Complete 7 RCLIENT_OK sample_allow es) s = resume_phases es 0 t \<and> resume_phases es 0 t \<noteq> None"
      "ctxs t c = Some y" "ctx_done y" "handles t 7 = None" by blast
  then obtain s' where "resume_phases ?es 0 t = Some s'" by blast
  with t(1) [of ?es] t(2-4) s(1) show ?thesis by metis
qed

lemma timer_progress_witness:
  "\<exists>s s' env. sample_run waiting_run = Some s \<and> exec (Timer_fires 0 env [Terminate]) s = Some s'"
proof (rule holdsE [OF sample_waiting])
  fix s assume s: "sample_run waiting_run = Some s" "reachable sample_protected s"
  assume "handles s 7 = Some 0 \<and> map fst (checks s) = [0] \<and> inflight (the (worker s)) = 1
     \<and> (case ctxs s 0 of None \<Rightarrow> False | Some x \<Rightarrow> timer x = Some 50 \<and> waiting x)"
  then obtain x where "ctxs s 0 = Some x" "timer x \<noteq> None" by (auto split: option.splits)
  from timer_progress [OF s(2) this] s(1) show ?thesis by blast
qed

lemma endpoint_kept_in_flight_witness:
  "\<exists>s s' w w'. worker s = Some w \<and> step s (Rebind_fires sample_sock) s' \<and> worker s' = Some w'
    \<and> endpoint_of w' = endpoint_of w"
proof (rule holdsE [OF sample_in_flight])
  fix s assume s: "reachable sample_protected s"
    "handles s 8 \<noteq> None \<and> enabled_event (Rebind_fires sample_sock) s \<and> worker s \<noteq> None"
  obtain w where w: "worker s = Some w" using s(2) by auto
  obtain s' where st: "step s (Rebind_fires sample_sock) s'"
    using enabled_steps [OF s(1)] s(2) by blast
  from endpoint_kept_in_flight [OF s(1) _ w st, of 8] s(2) w st show ?thesis by blast
qed

lemma termination_releases_witness:
  "\<exists>s s'. sample_run waiting_run = Some s \<and> step s (Phase 0 Terminate) s' \<and> (\<forall>h. handles s' h \<noteq> Some 0)
    \<and> (\<exists>c y. ctxs s' c = Some y \<and> admission_outcome y = RN_ADMISSION_ABORTED)"
proof (rule holdsE [OF sample_waiting])
  fix s assume s: "sample_run waiting_run = Some s" "reachable sample_protected s"
  assume "handles s 7 = Some 0 \<and> map fst (checks s) = [0] \<and> inflight (the (worker s)) = 1
     \<and> (case ctxs s 0 of None \<Rightarrow> False | Some x \<Rightarrow> timer x = Some 50 \<and> waiting x)"
  then have h: "handles s 7 = Some 0" by simp
  then obtain c x where x: "ctxs s c = Some x" "waiting x" "ctx_pool x = 0"
    using inv_handle [OF reachable_inv [OF s(2)]] by (fastforce simp: handle_ok_def)
  then have "reqs s 0 \<noteq> None"
    using inv_ctx [OF reachable_inv [OF s(2)] x(1)] by (auto simp: ctx_ok_def split: option.splits)
  then have "enabled_event (Phase 0 Terminate) s" by (auto simp: phase_enabled_def)
  then obtain s' where "step s (Phase 0 Terminate) s'"
    using enabled_steps [OF s(2)] by blast
  with termination_releases [OF s(2)] s(1) x show ?thesis by metis
qed

lemma verdict_is_valid_witness:
  "\<exists>s s' c x. sample_run decided_run = Some s \<and> ngx_http_rn_verdict_variable 0 s = Some (Allow, s')
    \<and> ctxs s c = Some x \<and> completion_cause x = RN_COMPLETION_VALID_VERDICT \<and> decision x = NGX_OK"
proof -
  obtain s x q where s: "sample_run decided_run = Some s" "reachable sample_protected s" "ctxs s 0 = Some x"
    "admission_outcome x = RN_ADMISSION_VALID_ALLOW" "reqs s 0 = Some q" "slot q = Some 0" by (rule decided_state)
  then have "ngx_http_rn_verdict_variable 0 s = Some (Allow, s)"
    by (simp add: ngx_http_rn_verdict_variable_def rn_get_request_ctx_def)
  with verdict_is_valid [OF s(2) this] s(1) show ?thesis by auto
qed

lemma handler_sends_check_witness:
  "\<exists>s s'. sample_run second_run = Some s \<and> ngx_http_rn_handler (sample_handler_env 8) 1 s = Some (NGX_AGAIN, s')
    \<and> checks s' = checks s @ [(1, replicate 2 sample_resource, [], [])]"
proof (rule holdsE [OF sample_second])
  fix s assume s: "sample_run second_run = Some s" "reachable sample_protected s"
  assume "handles s 8 = None \<and> main_enabled (mcf s) \<and> mcf s = sample_protected\<lparr>init_retry_at := 0, init_retry_delay := 0\<rparr>
     \<and> worker s \<noteq> None
     \<and> (case reqs s 1 of None \<Rightarrow> False | Some q \<Rightarrow> slot q = None \<and> is_main q \<and> \<not> terminated q
         \<and> cleanups q = [] \<and> loc_conf q = sample_rule_loc)"
  then obtain w q where f: "mcf s = sample_protected\<lparr>init_retry_at := 0, init_retry_delay := 0\<rparr>" "main_enabled (mcf s)"
    "worker s = Some w" "reqs s 1 = Some q" "slot q = None" "is_main q" "cleanups q = []" "loc_conf q = sample_rule_loc"
    by (auto split: option.splits)
  have "mcf s = sample_rule_conf (mcf s)" by (simp add: f(1) sample_protected_def sample_rule_conf_def sample_main_def)
  then have c: "build_check (build_env (sample_handler_env 8)) (mcf s) (loc_conf q) = Check (replicate 2 sample_resource) [] []"
    using sample_rule_check [of "mcf s"] f(8) by (simp add: sample_handler_env_def)
  have "enabled (loc_conf q) \<noteq> Some False" by (simp add: f(8) sample_rule_loc_def)
  from handler_sends_check [OF s(2) f(4,6,5) _ this f(2,3) _ _ c] f(7) s(1)
  show ?thesis by (fastforce simp: sample_handler_env_def sample_render_def)
qed

lemma report_first_bypasses_witness:
  "\<exists>s s1 s2 s3. sample_run [New_request True sample_report_loc 0 0] = Some s
    \<and> ngx_http_rn_handler (sample_handler_env 7) 0 s = Some (NGX_DECLINED, s1)
    \<and> phase_exec 0 (Redirect sample_rule_loc) s1 = Some s2
    \<and> ngx_http_rn_handler (sample_handler_env 7) 0 s2 = Some (NGX_DECLINED, s3) \<and> checks s3 = checks s"
proof (rule holdsE [OF sample_report_only])
  fix s assume s: "sample_run [New_request True sample_report_loc 0 0] = Some s" "reachable sample_protected s"
  assume "main_enabled (mcf s) \<and> handles s 7 = None
     \<and> (case reqs s 0 of None \<Rightarrow> False | Some q \<Rightarrow> slot q = None \<and> is_main q \<and> \<not> terminated q
         \<and> cleanups q = [] \<and> loc_conf q = sample_report_loc)"
  then obtain q where f: "main_enabled (mcf s)" "handles s 7 = None" "reqs s 0 = Some q" "slot q = None" "is_main q"
    "\<not> terminated q" "cleanups q = []" "loc_conf q = sample_report_loc" by (auto split: option.splits)
  from report_first_bypasses [OF s(2) f(3,5,6,4) _ _ _ f(1), of "sample_handler_env 7" sample_rule_loc "sample_handler_env 7"] f s(1)
  show ?thesis by (simp add: sample_handler_env_def sample_render_def sample_report_loc_def sample_rule_loc_def)
qed

lemma report_conditions_witness:
  "\<exists>s s' rep. ngx_http_rn_log_handler \<lparr>log_time = Some (0, 20)\<rparr> 0 s = Some s' \<and> reports s = []
    \<and> reports s' = [(0, rep)] \<and> 1 \<le> unat (observed_latency rep)"
proof (rule holdsE [OF sample_reporting])
  fix s assume "case ngx_http_rn_log_handler \<lparr>log_time = Some (0, 20)\<rparr> 0 s of None \<Rightarrow> False
       | Some s' \<Rightarrow> reports s = [] \<and> map fst (reports s') = [0]"
  then obtain s' where s': "ngx_http_rn_log_handler \<lparr>log_time = Some (0, 20)\<rparr> 0 s = Some s'" "reports s = []"
    "map fst (reports s') = [0]" by (auto split: option.splits)
  then have "reports s' \<noteq> reports s" by auto
  from report_conditions [OF s'(1) this] s' show ?thesis by auto
qed

end
