(* ===== verification/Srv_Records.thy ===== *)
theory Srv_Records
  imports Heap
begin

text \<open>
  \<open>src/rn_srv_records.c\<close>: the conversion of nginx's SRV answers into the C client's records,
  with the three kinds of heap blocks it builds (the record array, the array of target
  pointers, one NUL-terminated target per answer), and the release of all of them.  The
  lemmas live in the interface \<open>allocator\<close> and reach the module's own callbacks
  \<open>rn_srv_ngx_alloc\<close> and \<open>rn_srv_ngx_free\<close> by interpretation.

  \<open>rec_size\<close> is \<open>sizeof (r_srv_record_t)\<close>, a type of the client.  A pointer parameter the
  code tests is an option.
\<close>

subsection \<open>Data\<close>

definition SIZE_MAX :: nat where "SIZE_MAX = 2 ^ 64 - 1"

definition sizeof_ptr :: nat where "sizeof_ptr = 8"

record rn_srv_source_t =
  src_target :: "string option"
  src_port :: u16
  src_priority :: u16
  src_weight :: u16
  src_ttl_ms :: u32

record r_srv_record_t =
  rec_target :: "ptr option"
  rec_port :: u16
  rec_priority :: u16
  rec_weight :: u16
  rec_ttl_ms :: u32

record rn_srv_records_t =
  records :: "ptr option"
  targets :: "ptr option"
  count :: nat

text \<open>The blocks of the module's heap; \<open>Other\<close> holds what the callers of this file keep there.\<close>

datatype 'x srv_block =
    Uninit
  | Records "r_srv_record_t list"
  | Targets "ptr option list"
  | Cstr string
  | Other 'x

type_synonym 'x srv_heap = "'x srv_block heap"
type_synonym 'x rn_srv_alloc_pt = "nat \<Rightarrow> 'x srv_block \<Rightarrow> 'x srv_heap \<Rightarrow> ptr option \<times> 'x srv_heap"
type_synonym 'x rn_srv_free_pt = "ptr \<Rightarrow> 'x srv_heap \<Rightarrow> 'x srv_heap"

definition zero_records :: rn_srv_records_t where
  "zero_records = \<lparr>records = None, targets = None, count = 0\<rparr>"

definition zero_record :: r_srv_record_t where
  "zero_record = \<lparr>rec_target = None, rec_port = 0, rec_priority = 0, rec_weight = 0, rec_ttl_ms = 0\<rparr>"

text \<open>Reads and writes of one array element; anything but the array there is a misuse.\<close>

fun read_targets :: "ptr \<Rightarrow> 'x srv_heap \<Rightarrow> ptr option list" where
  "read_targets t h = (case blocks h t of Some (Targets ts) \<Rightarrow> ts | _ \<Rightarrow> [])"

fun write_target :: "ptr \<Rightarrow> nat \<Rightarrow> ptr option \<Rightarrow> 'x srv_heap \<Rightarrow> 'x srv_heap" where
  "write_target t i p h =
     (case blocks h t of
        Some (Targets ts) \<Rightarrow> if i < length ts then store t (Targets (ts[i := p])) h else h\<lparr>misused := True\<rparr>
      | _ \<Rightarrow> h\<lparr>misused := True\<rparr>)"

fun write_record :: "ptr \<Rightarrow> nat \<Rightarrow> r_srv_record_t \<Rightarrow> 'x srv_heap \<Rightarrow> 'x srv_heap" where
  "write_record r i x h =
     (case blocks h r of
        Some (Records rs) \<Rightarrow> if i < length rs then store r (Records (rs[i := x])) h else h\<lparr>misused := True\<rparr>
      | _ \<Rightarrow> h\<lparr>misused := True\<rparr>)"

subsection \<open>Operations\<close>

fun free_targets :: "'x rn_srv_free_pt \<Rightarrow> ptr option list \<Rightarrow> 'x srv_heap \<Rightarrow> 'x srv_heap" where
  "free_targets free_fn [] h = h"
| "free_targets free_fn (None # ts) h = free_targets free_fn ts h"
| "free_targets free_fn (Some p # ts) h = free_targets free_fn ts (free_fn p h)"

definition rn_srv_records_free ::
  "rn_srv_records_t option \<Rightarrow> 'x rn_srv_free_pt option \<Rightarrow> 'x srv_heap \<Rightarrow> rn_srv_records_t option \<times> 'x srv_heap" where
  "rn_srv_records_free recs free_pt h0 =
     (case (recs, free_pt) of
        (Some rec, Some free_fn) \<Rightarrow>
          (let
             h1 = (case targets rec of
                 None \<Rightarrow> h0
               | Some t \<Rightarrow> free_fn t (free_targets free_fn (take (count rec) (read_targets t h0)) h0));
             h2 = (case records rec of None \<Rightarrow> h1 | Some r \<Rightarrow> free_fn r h1)
           in (Some zero_records, h2))
      | _ \<Rightarrow> (recs, h0))"

definition release :: "rn_srv_records_t \<Rightarrow> 'x rn_srv_free_pt \<Rightarrow> 'x srv_heap \<Rightarrow> rn_srv_records_t \<times> 'x srv_heap" where
  "release out free_fn h =
     (case rn_srv_records_free (Some out) (Some free_fn) h of (rec, h') \<Rightarrow> (the rec, h'))"

text \<open>The loop over the answers from index \<open>i\<close>; \<open>r\<close> and \<open>t\<close> are \<open>out->records\<close> and \<open>out->targets\<close>.\<close>

fun build_loop :: "'x rn_srv_alloc_pt \<Rightarrow> 'x rn_srv_free_pt \<Rightarrow> ptr \<Rightarrow> ptr \<Rightarrow> nat \<Rightarrow> rn_srv_source_t list
    \<Rightarrow> rn_srv_records_t \<Rightarrow> 'x srv_heap \<Rightarrow> int \<times> rn_srv_records_t \<times> 'x srv_heap" where
  "build_loop alloc free_fn r t i [] out h = (0, out, h)"
| "build_loop alloc free_fn r t i (src # srcs) out h =
     (case src_target src of
        None \<Rightarrow> (-1, release out free_fn h)
      | Some name \<Rightarrow>
          if length name = 0 \<or> length name = SIZE_MAX then (-1, release out free_fn h)
          else case alloc (length name + 1) Uninit h of
            (None, h1) \<Rightarrow> (-1, release out free_fn (write_target t i None h1))
          | (Some p, h1) \<Rightarrow>
              let
                h2 = write_target t i (Some p) h1;
                h3 = store p (Cstr (name @ [nul])) h2;
                h4 = write_record r i \<lparr>rec_target = Some p, rec_port = src_port src,
                  rec_priority = src_priority src, rec_weight = src_weight src,
                  rec_ttl_ms = src_ttl_ms src\<rparr> h3
              in build_loop alloc free_fn r t (i + 1) srcs out h4)"

definition rn_srv_records_build ::
  "nat \<Rightarrow> rn_srv_source_t list option \<Rightarrow> 'x rn_srv_alloc_pt option \<Rightarrow> 'x rn_srv_free_pt option
     \<Rightarrow> rn_srv_records_t option \<Rightarrow> 'x srv_heap \<Rightarrow> int \<times> rn_srv_records_t option \<times> 'x srv_heap" where
  "rn_srv_records_build rec_size sources alloc_pt free_pt out h =
     (case out of
        None \<Rightarrow> (-1, None, h)
      | Some _ \<Rightarrow>
          (case (sources, alloc_pt, free_pt) of
             (Some srcs, Some alloc, Some free_fn) \<Rightarrow>
               let n = length srcs in
               if n = 0 \<or> n > SIZE_MAX div rec_size \<or> n > SIZE_MAX div sizeof_ptr
               then (-1, Some zero_records, h)
               else
                 (case alloc (n * rec_size) Uninit h of
                    (None, h1) \<Rightarrow> (-1, Some zero_records, h1)
                  | (Some r, h1) \<Rightarrow>
                      let h2 = store r (Records (replicate n zero_record)) h1;
                        out1 = zero_records\<lparr>records := Some r\<rparr> in
                      (case alloc (n * sizeof_ptr) Uninit h2 of
                         (None, h3) \<Rightarrow>
                           (case release out1 free_fn h3 of (rec, h4) \<Rightarrow> (-1, Some rec, h4))
                       | (Some t, h3) \<Rightarrow>
                           let h4 = store t (Targets (replicate n None)) h3;
                             out2 = out1\<lparr>targets := Some t, count := n\<rparr> in
                           (case build_loop alloc free_fn r t 0 srcs out2 h4 of
                              (rc, rec, h5) \<Rightarrow> (rc, Some rec, h5))))
           | _ \<Rightarrow> (-1, Some zero_records, h)))"

definition rn_srv_ngx_alloc :: "(nat \<Rightarrow> 'x srv_heap \<Rightarrow> bool) \<Rightarrow> 'x rn_srv_alloc_pt" where
  "rn_srv_ngx_alloc answers n v h = ngx_alloc (answers n h) v h"

definition rn_srv_ngx_free :: "'x rn_srv_free_pt" where
  "rn_srv_ngx_free = ngx_free"

subsection \<open>Ownership of the blocks\<close>

text \<open>
  The heap in the middle of a build: over the heap \<open>h0\<close> at the call, the record array at \<open>r\<close>,
  the pointer array at \<open>t\<close>, and one string block per converted answer.
\<close>

definition built ::
  "'x srv_heap \<Rightarrow> ptr \<Rightarrow> ptr \<Rightarrow> r_srv_record_t list \<Rightarrow> ptr option list \<Rightarrow> ptr list \<Rightarrow> string list \<Rightarrow> 'x srv_heap \<Rightarrow> bool"
where
  "built h0 r t rs ts ps cs h \<longleftrightarrow>
     heap_ok h \<and> distinct (r # t # ps) \<and> set (r # t # ps) \<inter> live h0 = {} \<and> length cs = length ps
     \<and> blocks h = (blocks h0 ++ map_of (zip ps (map Cstr cs)))(r \<mapsto> Records rs, t \<mapsto> Targets ts)"

lemma free_targets_fold:
  "free_targets f (map Some ps @ replicate k None) h = fold f ps h"
proof (induction ps arbitrary: h)
  case Nil
  then show ?case by (induction k) auto
qed simp

lemma built_live: "built h0 r t rs ts ps cs h \<Longrightarrow> set (r # t # ps) \<subseteq> live h"
  by (auto simp: built_def)

lemma zip_None [simp]: "p \<notin> set ps \<Longrightarrow> map_of (zip ps cs) p = None"
  by (auto simp: map_of_eq_None_iff dest: set_zip_leftD)

lemma built_blocks_back:
  assumes "built h0 r t rs ts ps cs h"
  shows "(\<lambda>p. if p \<in> set (r # t # ps) then None else blocks h p) = blocks h0"
proof
  fix p
  have none: "blocks h0 q = None" if "q \<in> set (r # t # ps)" for q
    using assms that by (auto simp: built_def)
  show "(if p \<in> set (r # t # ps) then None else blocks h p) = blocks h0 p"
    using assms none by (auto simp: built_def map_add_def)
qed

text \<open>The records a caller can read: each record's target is a NUL-terminated string in the heap.\<close>

definition record_of :: "rn_srv_source_t \<Rightarrow> ptr \<Rightarrow> r_srv_record_t" where
  "record_of src p = \<lparr>rec_target = Some p, rec_port = src_port src, rec_priority = src_priority src,
     rec_weight = src_weight src, rec_ttl_ms = src_ttl_ms src\<rparr>"

definition usable :: "rn_srv_source_t \<Rightarrow> bool" where
  "usable src \<longleftrightarrow> (case src_target src of None \<Rightarrow> False | Some s \<Rightarrow> s \<noteq> [] \<and> length s \<noteq> SIZE_MAX)"

locale srv_allocator = allocator alloc free
  for alloc :: "'x rn_srv_alloc_pt" and free :: "'x rn_srv_free_pt"
begin

lemma release_built:
  assumes b: "built h0 r t rs ts ps cs h" and ts: "ts = map Some ps @ replicate k None"
    and out: "targets out = Some t" "records out = Some r" "count out = length ts"
  shows "\<exists>h'. release out free h = (zero_records, h') \<and> heap_ok h' \<and> blocks h' = blocks h0"
proof -
  have read: "take (length ts) (read_targets t h) = map Some ps @ replicate k None"
    using b by (simp add: built_def ts)
  have d: "distinct (ps @ [t, r])" and sub: "set (ps @ [t, r]) \<subseteq> live h"
    and set: "set (ps @ [t, r]) = set (r # t # ps)"
    using b built_live [OF b] by (auto simp: built_def)
  have ok: "heap_ok h" using b by (simp add: built_def)
  have "release out free h = (zero_records, fold free (ps @ [t, r]) h)"
    by (simp add: release_def rn_srv_records_free_def out read free_targets_fold del: read_targets.simps)
  moreover have "heap_ok (fold free (ps @ [t, r]) h) \<and> blocks (fold free (ps @ [t, r]) h) = blocks h0"
    using free_all [OF ok d sub, unfolded set] built_blocks_back [OF b] by simp
  ultimately show ?thesis by blast
qed

text \<open>One answer converted: a new string block, and one more record and pointer filled in.\<close>

lemma built_step:
  assumes b: "built h0 r t rs (map Some ps @ replicate (Suc k) None) ps cs h"
    and rs: "length rs = length ps + Suc k"
    and new: "alloc n Uninit h = (Some p, h1)"
  shows "built h0 r t (rs[length ps := x]) (map Some (ps @ [p]) @ replicate k None) (ps @ [p]) (cs @ [c])
    (write_record r (length ps) x (store p (Cstr c) (write_target t (length ps) (Some p) h1)))"
proof -
  have ok: "heap_ok h" using b by (simp add: built_def)
  note a = alloc_new [OF ok new]
  have fresh: "p \<noteq> r" "p \<noteq> t" "p \<notin> set ps" "p \<notin> live h0" "r \<noteq> t"
    using a built_live [OF b] fun_cong [OF built_blocks_back [OF b], of p] b by (auto simp: built_def)
  let ?ts = "map Some (ps @ [p]) @ replicate k None"
  have b1: "heap_ok h1" "blocks h1 = (blocks h)(p \<mapsto> Uninit)" using a by auto
  have t1: "blocks h1 t = Some (Targets (map Some ps @ replicate (Suc k) None))"
    using b fresh by (simp add: b1 built_def)
  have "write_target t (length ps) (Some p) h1 = store t (Targets ?ts) h1"
    using t1 by (simp add: list_update_append)
  note s1 = store_live [OF b1(1) t1, of "Targets ?ts", folded this]
  have p2: "blocks (write_target t (length ps) (Some p) h1) p = Some Uninit"
    unfolding s1 using fresh by (simp add: b1)
  note s2 = store_live [OF s1(1) p2, of "Cstr c"]
  have r3: "blocks (store p (Cstr c) (write_target t (length ps) (Some p) h1)) r = Some (Records rs)"
    unfolding s2 s1 using b fresh by (simp add: b1 built_def)
  then have "write_record r (length ps) x (store p (Cstr c) (write_target t (length ps) (Some p) h1)) =
    store r (Records (rs[length ps := x])) (store p (Cstr c) (write_target t (length ps) (Some p) h1))"
    using rs by (simp del: write_target.simps)
  note s3 = store_live [OF s2(1) r3, of "Records (rs[length ps := x])", folded this]
  show ?thesis
    unfolding built_def s3 s2 s1 b1
  proof (intro conjI)
    show "length (cs @ [c]) = length (ps @ [p])" using b by (simp add: built_def)
    show "distinct (r # t # ps @ [p])" "set (r # t # ps @ [p]) \<inter> live h0 = {}"
      using b fresh by (auto simp: built_def)
    have "length cs = length ps" "blocks h = (blocks h0 ++ map_of (zip ps (map Cstr cs)))
        (r \<mapsto> Records rs, t \<mapsto> Targets (map Some ps @ replicate (Suc k) None))"
      using b by (simp_all add: built_def)
    then show "((blocks h)(p \<mapsto> Uninit, t \<mapsto> Targets ?ts, p \<mapsto> Cstr c))(r \<mapsto> Records (rs[length ps := x])) =
      (blocks h0 ++ map_of (zip (ps @ [p]) (map Cstr (cs @ [c]))))
        (r \<mapsto> Records (rs[length ps := x]), t \<mapsto> Targets ?ts)"
      using fresh by (auto simp: fun_eq_iff map_add_def zip_append map_of_append split: option.splits)
  qed (rule s3(1))
qed

text \<open>The out-of-memory branch: the null target is written, then everything is released.\<close>

lemma loop_out_of_memory:
  assumes b: "built h0 r t rs (map Some ps @ replicate (Suc k) None) ps cs h"
    and out: "targets out = Some t" "records out = Some r" "count out = length ps + Suc k"
    and al: "alloc n Uninit h = (None, h1)"
  shows "\<exists>hn. release out free (write_target t (length ps) None h1) = (zero_records, hn)
    \<and> heap_ok hn \<and> blocks hn = blocks h0"
proof -
  let ?ts = "map Some ps @ replicate (Suc k) None"
  have ok: "heap_ok h" using b by (simp add: built_def)
  have h1: "heap_ok h1" "blocks h1 = blocks h" using alloc_null [OF ok al] by auto
  have t1: "blocks h1 t = Some (Targets ?ts)" using b by (simp add: h1 built_def)
  have w: "write_target t (length ps) None h1 = store t (Targets ?ts) h1"
    using t1 by (simp add: list_update_append)
  note s = store_live [OF h1(1) t1, of "Targets ?ts"]
  have "built h0 r t rs ?ts ps cs (write_target t (length ps) None h1)"
    using b s t1 h1(2) unfolding w by (simp add: built_def)
  from release_built [OF this refl out(1,2)] out(3) show ?thesis by auto
qed

lemma build_loop_spec:
  assumes "built h0 r t rs (map Some ps @ replicate (length srcs) None) ps cs h"
    and "length rs = length ps + length srcs"
    and out: "targets out = Some t" "records out = Some r" "count out = length ps + length srcs"
    and "build_loop alloc free r t (length ps) srcs out h = (rc, out', h')"
  shows "(rc = -1 \<and> out' = zero_records \<and> heap_ok h' \<and> blocks h' = blocks h0
      \<and> (\<not> list_all usable srcs \<or> (\<exists>n g g'. alloc n Uninit g = (None, g'))))
    \<or> (rc = 0 \<and> out' = out \<and> list_all usable srcs \<and> (\<exists>qs. length qs = length srcs
        \<and> built h0 r t (take (length ps) rs @ map2 record_of srcs qs) (map Some (ps @ qs)) (ps @ qs)
            (cs @ map (\<lambda>src. the (src_target src) @ [nul]) srcs) h'))"
  using assms
proof (induction srcs arbitrary: ps rs cs h)
  case Nil
  then show ?case by auto
next
  case (Cons src srcs)
  let ?ts = "map Some ps @ replicate (length (src # srcs)) None"
  have b: "built h0 r t rs ?ts ps cs h" by (rule Cons.prems)
  have len: "count out = length ?ts" using Cons.prems(5) by simp
  obtain hz where rel: "release out free h = (zero_records, hz)" "heap_ok hz" "blocks hz = blocks h0"
    using release_built [OF b refl Cons.prems(3,4) len] by blast
  show ?case
  proof (cases "usable src")
    case False
    then have "(rc, out', h') = (-1, release out free h)"
      using Cons.prems(6) by (auto simp: usable_def split: option.splits)
    with False rel show ?thesis by simp
  next
    case True
    then obtain name where name: "src_target src = Some name" "name \<noteq> []" "length name \<noteq> SIZE_MAX"
      by (auto simp: usable_def split: option.splits)
    obtain q h1 where al: "alloc (length name + 1) Uninit h = (q, h1)" by fastforce
    show ?thesis
    proof (cases q)
      case None
      have "built h0 r t rs (map Some ps @ replicate (Suc (length srcs)) None) ps cs h" using b by simp
      from loop_out_of_memory [OF this Cons.prems(3,4) _ al [unfolded None]] Cons.prems(5) obtain hn where
        "release out free (write_target t (length ps) None h1) = (zero_records, hn)"
        "heap_ok hn" "blocks hn = blocks h0" by auto
      moreover have "(rc, out', h') = (-1, release out free (write_target t (length ps) None h1))"
        using Cons.prems(6) name al None by simp
      ultimately show ?thesis using al None by auto
    next
      case (Some p)
      let ?h = "write_record r (length ps) (record_of src p)
        (store p (Cstr (name @ [nul])) (write_target t (length ps) (Some p) h1))"
      have ts: "built h0 r t rs (map Some ps @ replicate (Suc (length srcs)) None) ps cs h"
        using b by simp
      have "length rs = length ps + Suc (length srcs)" using Cons.prems(2) by simp
      note step = built_step [OF ts this al [unfolded Some], of "record_of src p" "name @ [nul]"]
      have run: "build_loop alloc free r t (length (ps @ [p])) srcs out ?h = (rc, out', h')"
        using Cons.prems(6) name al Some
        by (simp add: record_of_def Let_def del: write_target.simps write_record.simps)
      have "length (rs[length ps := record_of src p]) = length (ps @ [p]) + length srcs"
        and "count out = length (ps @ [p]) + length srcs" using Cons.prems(2,5) by simp_all
      from Cons.IH [OF step this(1) Cons.prems(3,4) this(2) run]
      show ?thesis
      proof (elim disjE conjE exE, goal_cases)
        case 1
        then show ?thesis by simp
      next
        case (2 n g g')
        then show ?thesis by auto
      next
        case (3 qs)
        have "take (length (ps @ [p])) (rs[length ps := record_of src p]) = take (length ps) rs @ [record_of src p]"
          using Cons.prems(2) by (simp add: take_Suc_conv_app_nth)
        with 3 True name show ?thesis
          by (intro disjI2 conjI exI [of _ "p # qs"]) simp_all
      qed
    qed
  qed
qed

lemma build_spec:
  assumes ok: "heap_ok h"
    and run: "rn_srv_records_build rec_size (Some srcs) (Some alloc) (Some free) (Some out0) h = (rc, out', h')"
  shows "(rc = -1 \<and> out' = Some zero_records \<and> heap_ok h' \<and> blocks h' = blocks h
      \<and> (srcs = [] \<or> length srcs > SIZE_MAX div rec_size \<or> length srcs > SIZE_MAX div sizeof_ptr
         \<or> \<not> list_all usable srcs \<or> (\<exists>n g g'. alloc n Uninit g = (None, g'))))
    \<or> (rc = 0 \<and> srcs \<noteq> [] \<and> list_all usable srcs \<and> (\<exists>r t qs. length qs = length srcs
        \<and> out' = Some \<lparr>records = Some r, targets = Some t, count = length srcs\<rparr>
        \<and> built h r t (map2 record_of srcs qs) (map Some qs) qs
            (map (\<lambda>src. the (src_target src) @ [nul]) srcs) h'))"
proof (cases "srcs = [] \<or> length srcs > SIZE_MAX div rec_size \<or> length srcs > SIZE_MAX div sizeof_ptr")
  case True
  then have "(rc, out', h') = (-1, Some zero_records, h)" using run
    by (auto simp: rn_srv_records_build_def Let_def)
  with True ok show ?thesis by auto
next
  case fits: False
  let ?n = "length srcs"
  obtain r0 h1 where al: "alloc (?n * rec_size) Uninit h = (r0, h1)" by fastforce
  show ?thesis
  proof (cases r0)
    case None
    then have "(rc, out', h') = (-1, Some zero_records, h1)" using run fits al
      by (simp add: rn_srv_records_build_def Let_def)
    with alloc_null [OF ok al [unfolded None]] al None show ?thesis by auto
  next
    case (Some r)
    note a = alloc_new [OF ok al [unfolded Some]]
    let ?rs = "replicate ?n zero_record"
    let ?h2 = "store r (Records ?rs) h1"
    let ?out = "zero_records\<lparr>records := Some r\<rparr>"
    have "blocks h1 r = Some Uninit" using a by simp
    note s = store_live [OF conjunct1 [OF a] this, of "Records ?rs"]
    have h2: "blocks ?h2 = (blocks h)(r \<mapsto> Records ?rs)" using a by (simp add: s)
    obtain t0 h3 where al2: "alloc (?n * sizeof_ptr) Uninit ?h2 = (t0, h3)" by fastforce
    show ?thesis
    proof (cases t0)
      case None
      note n = alloc_null [OF s(1) al2 [unfolded None]]
      have "r \<in> live h3" using n by (simp add: h2)
      from free_owned [OF conjunct1 [OF n] this] have "heap_ok (free r h3)" "blocks (free r h3) = blocks h"
        using n a by (auto simp: h2 fun_eq_iff)
      moreover have "(rc, out', h') = (-1, Some zero_records, free r h3)"
        using run fits al Some al2 None
        by (simp add: rn_srv_records_build_def Let_def release_def rn_srv_records_free_def zero_records_def)
      ultimately show ?thesis using al2 None by auto
    next
      case t: (Some t)
      note b = alloc_new [OF s(1) al2 [unfolded t]]
      let ?ts = "replicate ?n (None :: ptr option)"
      let ?h4 = "store t (Targets ?ts) h3"
      let ?out2 = "?out\<lparr>targets := Some t, count := ?n\<rparr>"
      have "blocks h3 t = Some Uninit" using b by simp
      note s4 = store_live [OF conjunct1 [OF b] this, of "Targets ?ts"]
      have "t \<noteq> r" "t \<notin> live h" using b by (auto simp: h2)
      then have start: "built h r t ?rs (map Some [] @ ?ts) [] [] ?h4"
        using a b by (auto simp: built_def s4 h2 fun_eq_iff)
      obtain rc' rec h5 where loop: "build_loop alloc free r t 0 srcs ?out2 ?h4 = (rc', rec, h5)"
        by (metis prod_cases3)
      have res: "(rc, out', h') = (rc', Some rec, h5)"
        using run fits al Some al2 t loop by (simp add: rn_srv_records_build_def Let_def)
      have "length ?rs = length ([] :: ptr list) + ?n" "count ?out2 = length ([] :: ptr list) + ?n"
        "targets ?out2 = Some t" "records ?out2 = Some r" by simp_all
      from build_loop_spec [OF start this(1,3,4,2)] loop res fits show ?thesis
        by (fastforce simp: zero_records_def)
    qed
  qed
qed

text \<open>What a successful build returned is released completely by \<open>rn_srv_records_free\<close>.\<close>

lemma free_spec:
  assumes "built h r t rs (map Some qs) qs cs h'"
  shows "heap_ok (snd (rn_srv_records_free
      (Some \<lparr>records = Some r, targets = Some t, count = length qs\<rparr>) (Some free) h'))
    \<and> blocks (snd (rn_srv_records_free
      (Some \<lparr>records = Some r, targets = Some t, count = length qs\<rparr>) (Some free) h')) = blocks h"
proof -
  have "built h r t rs (map Some qs @ replicate 0 None) qs cs h'" using assms by simp
  from release_built [OF this refl, of "\<lparr>records = Some r, targets = Some t, count = length qs\<rparr>"]
  show ?thesis by (auto simp: release_def split: prod.splits)
qed

end

interpretation srv_heap: srv_allocator "rn_srv_ngx_alloc answers" rn_srv_ngx_free
  unfolding srv_allocator_def rn_srv_ngx_alloc_def rn_srv_ngx_free_def
  by (rule ngx_heap.allocator_axioms)

subsection \<open>The property\<close>

lemma built_strings:
  fixes h :: "'x srv_heap"
  assumes "built h r t rs ts qs cs h'"
  shows "list_all2 (\<lambda>q c. blocks h' q = Some (Cstr c)) qs cs"
proof (rule list_all2I, clarify)
  fix q c assume qc: "(q, c) \<in> set (zip qs cs)"
  then have "q \<in> set qs" by (rule set_zip_leftD)
  moreover have "map_of (zip qs (map Cstr cs)) q = Some (Cstr c :: 'x srv_block)"
  proof (rule map_of_is_SomeI)
    show "distinct (map fst (zip qs (map Cstr cs)))" using assms by (simp add: built_def)
    show "(q, Cstr c) \<in> set (zip qs (map Cstr cs))" using qc by (auto simp: in_set_zip)
  qed
  ultimately show "blocks h' q = Some (Cstr c)" using assms by (auto simp: built_def)
qed (use assms in \<open>simp add: built_def\<close>)

text \<open>
  C26. \<open>rn_srv_records_build\<close> converts every answer or none: on success the record array holds
  one record per answer, in order, each with the answer's port, priority, weight and TTL and a
  private NUL-terminated copy of its target, and \<open>rn_srv_records_free\<close> releases exactly the
  blocks it allocated; on any failure, of an answer or of an allocation at any position, every
  block allocated so far has been freed once, none twice, and the output is zeroed.
\<close>

theorem srv_records_all_or_nothing:
  assumes "heap_ok h"
    and "rn_srv_records_build rec_size (Some srcs) (Some (rn_srv_ngx_alloc answers)) (Some rn_srv_ngx_free)
      (Some out0) h = (rc, Some out, h')"
  shows "heap_ok h' \<and>
    (if rc = 0
     then list_all usable srcs \<and> count out = length srcs
       \<and> (\<exists>r t qs. records out = Some r \<and> targets out = Some t \<and> length qs = length srcs
           \<and> blocks h' r = Some (Records (map2 record_of srcs qs)) \<and> blocks h' t = Some (Targets (map Some qs))
           \<and> list_all2 (\<lambda>q c. blocks h' q = Some (Cstr c)) qs (map (\<lambda>s. the (src_target s) @ [nul]) srcs))
       \<and> (case rn_srv_records_free (Some out) (Some rn_srv_ngx_free) h' of
            (out', h'') \<Rightarrow> out' = Some zero_records \<and> heap_ok h'' \<and> blocks h'' = blocks h)
     else rc = -1 \<and> out = zero_records \<and> blocks h' = blocks h)"
  using srv_heap.build_spec [OF assms(1) assms(2)]
proof (elim disjE conjE exE, goal_cases)
  case (6 r t qs)
  note b = \<open>built h r t _ _ _ _ h'\<close>
  have freed: "heap_ok (snd (rn_srv_records_free (Some out) (Some rn_srv_ngx_free) h'))"
    "blocks (snd (rn_srv_records_free (Some out) (Some rn_srv_ngx_free) h')) = blocks h"
    "fst (rn_srv_records_free (Some out) (Some rn_srv_ngx_free) h') = Some zero_records"
    using srv_heap.free_spec [OF b] 6 by (auto simp: rn_srv_records_free_def Let_def)
  have "blocks h' r = Some (Records (map2 record_of srcs qs))" "blocks h' t = Some (Targets (map Some qs))"
    using b by (auto simp: built_def)
  with built_strings [OF b] b 6 freed show ?case by (auto simp: built_def split: prod.splits)
qed (auto)

definition sample_answers :: "rn_srv_source_t list" where
  "sample_answers =
     [\<lparr>src_target = Some ''a.b'', src_port = 1, src_priority = 2, src_weight = 3, src_ttl_ms = 4\<rparr>,
      \<lparr>src_target = Some ''c'', src_port = 5, src_priority = 6, src_weight = 7, src_ttl_ms = 8\<rparr>]"

text \<open>With memory for every block, usable answers are converted.\<close>

lemma build_succeeds:
  assumes "heap_ok h" and "srcs \<noteq> []" and "list_all usable srcs"
    and "length srcs \<le> SIZE_MAX div rec_size" and "length srcs \<le> SIZE_MAX div sizeof_ptr"
  shows "\<exists>out h'. rn_srv_records_build rec_size (Some srcs) (Some (rn_srv_ngx_alloc (\<lambda>_ _. True)))
    (Some rn_srv_ngx_free) (Some out0) h = (0, Some out, h')"
proof -
  obtain rc out' h' where run: "rn_srv_records_build rec_size (Some srcs)
      (Some (rn_srv_ngx_alloc (\<lambda>_ _. True))) (Some rn_srv_ngx_free) (Some out0) h = (rc, out', h')"
    by (metis prod_cases3)
  have "\<not> (\<exists>n g g'. rn_srv_ngx_alloc (\<lambda>_ _. True) n Uninit g = (None, g'))"
    by (simp add: rn_srv_ngx_alloc_def)
  with srv_heap.build_spec [OF assms(1) run] assms(2-) have "rc = 0 \<and> out' \<noteq> None" by auto
  with run show ?thesis by auto
qed

lemma srv_records_all_or_nothing_witness:
  "\<exists>out h'. rn_srv_records_build 24 (Some sample_answers) (Some (rn_srv_ngx_alloc (\<lambda>_ _. True)))
      (Some rn_srv_ngx_free) (Some zero_records) (empty_heap :: unit srv_heap) = (0, Some out, h')
    \<and> heap_ok h' \<and> count out = 2"
proof -
  have "list_all usable sample_answers" "sample_answers \<noteq> []" "length sample_answers \<le> SIZE_MAX div 24"
    "length sample_answers \<le> SIZE_MAX div sizeof_ptr" "length sample_answers = 2"
    by (simp_all add: sample_answers_def usable_def SIZE_MAX_def sizeof_ptr_def)
  with build_succeeds [OF heap_ok_empty] obtain out h' where
    run: "rn_srv_records_build 24 (Some sample_answers) (Some (rn_srv_ngx_alloc (\<lambda>_ _. True)))
      (Some rn_srv_ngx_free) (Some zero_records) (empty_heap :: unit srv_heap) = (0, Some out, h')" by blast
  from srv_records_all_or_nothing [OF heap_ok_empty run] run \<open>length sample_answers = 2\<close>
  show ?thesis by auto
qed

end
