(* ===== verification/Addr_Records.thy ===== *)
theory Addr_Records
  imports Prelude
begin

text \<open>
  \<open>src/rn_addr_records.c\<close>: copying nginx's resolved addresses into the C client's \<open>r_addr_t\<close>
  array, without the entries that cannot be copied.  A null pointer is \<open>None\<close>; an array is the
  list of its elements, so its length is the count parameter.  A copy that would read past the
  bytes behind \<open>sockaddr\<close>, or write past the output array, is undefined in C and makes the
  result \<open>None\<close>.  \<open>r_addr_t\<close> holds a \<open>struct sockaddr_storage\<close>, 128 bytes on Linux.
\<close>

definition SOCKADDR_STORAGE_SIZE :: nat where "SOCKADDR_STORAGE_SIZE = 128"

record rn_addr_source_t =
  src_sockaddr :: "string option"
  src_socklen :: nat

record r_addr_t =
  sa :: string
  addr_len :: nat

text \<open>\<open>memset\<close> of one element, \<open>memcpy\<close> into its \<open>sa\<close>, and \<open>len\<close>.\<close>

definition zero_addr :: r_addr_t where
  "zero_addr = \<lparr>sa = replicate SOCKADDR_STORAGE_SIZE nul, addr_len = 0\<rparr>"

definition copy_sockaddr :: "string \<Rightarrow> nat \<Rightarrow> r_addr_t option" where
  "copy_sockaddr bytes n =
     (if length bytes < n \<or> length (sa zero_addr) < n then None
      else Some (zero_addr\<lparr>sa := take n bytes @ drop n (sa zero_addr), addr_len := n\<rparr>))"

fun compact_loop ::
  "rn_addr_source_t list \<Rightarrow> nat \<Rightarrow> r_addr_t list \<Rightarrow> nat \<Rightarrow> (nat \<times> r_addr_t list) option" where
  "compact_loop [] capacity out out_count = Some (out_count, out)"
| "compact_loop (s # ss) capacity out out_count =
     (if \<not> out_count < capacity then Some (out_count, out)
      else case src_sockaddr s of
        None \<Rightarrow> compact_loop ss capacity out out_count
      | Some bytes \<Rightarrow>
          if src_socklen s = 0 \<or> src_socklen s > SOCKADDR_STORAGE_SIZE
          then compact_loop ss capacity out out_count
          else do { a \<leftarrow> copy_sockaddr bytes (src_socklen s);
                    out' \<leftarrow> (if out_count < length out then Some (out[out_count := a]) else None);
                    compact_loop ss capacity out' (out_count + 1) })"

definition rn_addr_records_compact ::
  "rn_addr_source_t list option \<Rightarrow> r_addr_t list option \<Rightarrow> nat \<Rightarrow> (nat \<times> r_addr_t list option) option" where
  "rn_addr_records_compact sources out out_capacity =
     (case (sources, out) of
        (Some ss, Some buf) \<Rightarrow>
          (if length ss = 0 \<or> out_capacity = 0 then Some (0, out)
           else map_option (\<lambda>(n, buf'). (n, Some buf')) (compact_loop ss out_capacity buf 0))
      | _ \<Rightarrow> Some (0, out))"

subsection \<open>Facts\<close>

definition copyable :: "rn_addr_source_t \<Rightarrow> bool" where
  "copyable s \<longleftrightarrow> src_sockaddr s \<noteq> None \<and> src_socklen s \<noteq> 0 \<and> src_socklen s \<le> SOCKADDR_STORAGE_SIZE"

text \<open>What the caller promises: \<open>socklen\<close> bytes can be read behind a non-null \<open>sockaddr\<close>.\<close>

definition readable :: "rn_addr_source_t \<Rightarrow> bool" where
  "readable s \<longleftrightarrow> (case src_sockaddr s of None \<Rightarrow> True | Some bytes \<Rightarrow> src_socklen s \<le> length bytes)"

definition addr_of :: "rn_addr_source_t \<Rightarrow> r_addr_t" where
  "addr_of s = \<lparr>sa = take (src_socklen s) (the (src_sockaddr s))
     @ replicate (SOCKADDR_STORAGE_SIZE - src_socklen s) nul, addr_len = src_socklen s\<rparr>"

text \<open>The type of a finished address: a full zero-padded storage and the length in use.\<close>

definition r_addr_ok :: "r_addr_t \<Rightarrow> bool" where
  "r_addr_ok a \<longleftrightarrow> length (sa a) = SOCKADDR_STORAGE_SIZE \<and> 0 < addr_len a \<and> addr_len a \<le> SOCKADDR_STORAGE_SIZE
     \<and> drop (addr_len a) (sa a) = replicate (SOCKADDR_STORAGE_SIZE - addr_len a) nul"

lemma copy_sockaddr_ok:
  "copyable s \<Longrightarrow> readable s \<Longrightarrow> copy_sockaddr (the (src_sockaddr s)) (src_socklen s) = Some (addr_of s)"
  by (auto simp: copyable_def readable_def copy_sockaddr_def addr_of_def zero_addr_def)

lemma addr_of_ok: "copyable s \<Longrightarrow> readable s \<Longrightarrow> r_addr_ok (addr_of s)"
  by (auto simp: copyable_def readable_def r_addr_ok_def addr_of_def)

lemma compact_loop_spec:
  assumes "list_all readable ss" and "n \<le> capacity" and "capacity \<le> length buf"
  shows "compact_loop ss capacity buf n =
    (let xs = take (capacity - n) (map addr_of (filter copyable ss))
     in Some (n + length xs, take n buf @ xs @ drop (n + length xs) buf))"
  using assms
proof (induction ss arbitrary: n buf)
  case (Cons s ss)
  show ?case
  proof (cases "n < capacity \<and> copyable s")
    case False
    then show ?thesis using Cons by (auto simp: copyable_def Let_def split: option.splits)
  next
    case True
    have rd: "readable s" "list_all readable ss" using Cons.prems by simp_all
    let ?buf = "buf[n := addr_of s]"
    have "n < length buf" using True Cons.prems by simp
    then have split: "take (Suc n) ?buf = take n buf @ [addr_of s]"
      by (simp add: take_Suc_conv_app_nth)
    have "compact_loop (s # ss) capacity buf n = compact_loop ss capacity ?buf (n + 1)"
      using True copy_sockaddr_ok [OF _ rd(1)] \<open>n < length buf\<close>
      by (auto simp: copyable_def split: option.splits)
    also have "\<dots> = (let xs = take (capacity - (n + 1)) (map addr_of (filter copyable ss))
      in Some (n + 1 + length xs, take (n + 1) ?buf @ xs @ drop (n + 1 + length xs) ?buf))"
      using Cons.prems True by (intro Cons.IH rd(2)) auto
    finally show ?thesis
      using True split by (simp add: Let_def Suc_diff_Suc [symmetric])
  qed
qed simp

lemma compact_spec:
  assumes "list_all readable ss" and "capacity \<le> length buf"
  shows "rn_addr_records_compact (Some ss) (Some buf) capacity =
    (let xs = take capacity (map addr_of (filter copyable ss))
     in Some (length xs, Some (xs @ drop (length xs) buf)))"
  using compact_loop_spec [OF assms(1) _ assms(2), of 0]
  by (auto simp: rn_addr_records_compact_def Let_def)

subsection \<open>The property\<close>

text \<open>
  C30. For sources whose bytes can be read, \<open>rn_addr_records_compact\<close> writes the copyable ones,
  in order and truncated to the capacity, at the front of the output and leaves the rest of it
  alone; it never writes outside the array, and every element it wrote has the form the client
  expects: a full storage, a length in use between 1 and its size, and zero bytes behind it.
\<close>

theorem addresses_well_formed:
  assumes "list_all readable ss" and "capacity \<le> length buf"
  shows "\<exists>n buf'. rn_addr_records_compact (Some ss) (Some buf) capacity = Some (n, Some buf')
    \<and> n = min capacity (length (filter copyable ss))
    \<and> take n buf' = take capacity (map addr_of (filter copyable ss))
    \<and> list_all r_addr_ok (take n buf') \<and> drop n buf' = drop n buf \<and> length buf' = length buf"
proof -
  define xs where "xs = take capacity (map addr_of (filter copyable ss))"
  have "list_all r_addr_ok (map addr_of (filter copyable ss))"
    using assms(1) by (auto simp: list_all_iff intro: addr_of_ok)
  then have ok: "list_all r_addr_ok xs" unfolding list_all_iff xs_def by (blast dest: in_set_takeD)
  have "length xs = min capacity (length (filter copyable ss))" "length xs \<le> length buf"
    using assms(2) by (simp_all add: xs_def min.commute)
  with ok compact_spec [OF assms] show ?thesis unfolding Let_def xs_def [symmetric] by simp
qed

lemma addresses_well_formed_witness:
  "\<exists>buf'. rn_addr_records_compact
      (Some [\<lparr>src_sockaddr = None, src_socklen = 4\<rparr>, \<lparr>src_sockaddr = Some ''abcd'', src_socklen = 4\<rparr>])
      (Some [zero_addr, zero_addr]) 2 = Some (1, Some buf') \<and> list_all r_addr_ok (take 1 buf')"
  using addresses_well_formed [of
      "[\<lparr>src_sockaddr = None, src_socklen = 4\<rparr>, \<lparr>src_sockaddr = Some ''abcd'', src_socklen = 4\<rparr>]" 2
      "[zero_addr, zero_addr]"]
  by (auto simp: readable_def copyable_def SOCKADDR_STORAGE_SIZE_def take_Suc split: option.splits)

end
