(* ===== verification/Async_State.thy ===== *)
theory Async_State
  imports Prelude
begin

text \<open>
  \<open>src/rn_async_state.c\<close>: the two flags that tell the function that starts a DNS lookup
  whether its callback already ran inside the call.  A null state is \<open>None\<close>; an operation
  returns the state after it.  The interface \<open>async_operation\<close> is the protocol of one lookup,
  proved once and instantiated with the module's functions.
\<close>

record rn_async_state_t =
  starting :: bool
  completed :: bool

definition rn_async_state_begin :: "rn_async_state_t option \<Rightarrow> rn_async_state_t option" where
  "rn_async_state_begin state =
     (case state of None \<Rightarrow> None | Some st \<Rightarrow> Some (st\<lparr>starting := True, completed := False\<rparr>))"

definition rn_async_state_complete :: "rn_async_state_t option \<Rightarrow> rn_async_state_t option" where
  "rn_async_state_complete state =
     (case state of None \<Rightarrow> None | Some st \<Rightarrow> Some (st\<lparr>completed := True\<rparr>))"

definition rn_async_state_is_starting :: "rn_async_state_t option \<Rightarrow> bool" where
  "rn_async_state_is_starting state = (case state of None \<Rightarrow> False | Some st \<Rightarrow> starting st)"

definition rn_async_state_finish ::
  "rn_async_state_t option \<Rightarrow> bool \<Rightarrow> bool \<times> rn_async_state_t option" where
  "rn_async_state_finish state start_succeeded =
     (case state of
        None \<Rightarrow> (False, None)
      | Some st \<Rightarrow> (start_succeeded \<and> \<not> completed st, Some (st\<lparr>starting := False\<rparr>)))"

subsection \<open>The protocol of one operation\<close>

text \<open>
  \<open>running\<close> is observed by the callback.  It must be true exactly between \<open>begin_op\<close> and
  \<open>finish_op\<close>, and \<open>finish_op\<close> must report a pending operation exactly when the start
  succeeded and no callback ran since \<open>begin_op\<close>.
\<close>

locale async_operation =
  fixes begin_op complete_op :: "'s \<Rightarrow> 's"
    and running :: "'s \<Rightarrow> bool"
    and finish_op :: "'s \<Rightarrow> bool \<Rightarrow> bool \<times> 's"
  assumes begun: "running (begin_op s)"
    and still_running: "running (complete_op s) = running s"
    and finished: "\<not> running (snd (finish_op s ok))"
    and not_completed: "fst (finish_op (begin_op s) ok) = ok"
    and was_completed: "\<not> fst (finish_op (complete_op s) ok)"
begin

definition start_op :: "nat \<Rightarrow> bool \<Rightarrow> 's \<Rightarrow> bool \<times> 's" where
  "start_op callbacks ok s = finish_op ((complete_op ^^ callbacks) (begin_op s)) ok"

lemma start_pending: "fst (start_op n ok s) \<longleftrightarrow> ok \<and> n = 0"
  by (cases n) (auto simp: start_op_def not_completed was_completed)

lemma callbacks_while_running: "running ((complete_op ^^ n) (begin_op s))"
  by (induction n) (auto simp: begun still_running)

lemma callbacks_after_start: "\<not> running ((complete_op ^^ m) (snd (start_op n ok s)))"
  by (induction m) (auto simp: start_op_def finished still_running)

end

text \<open>The module's own states are never null: the field of a live request.\<close>

definition begin_state :: "rn_async_state_t \<Rightarrow> rn_async_state_t" where
  "begin_state st = the (rn_async_state_begin (Some st))"

definition complete_state :: "rn_async_state_t \<Rightarrow> rn_async_state_t" where
  "complete_state st = the (rn_async_state_complete (Some st))"

definition finish_state :: "rn_async_state_t \<Rightarrow> bool \<Rightarrow> bool \<times> rn_async_state_t" where
  "finish_state st ok = (case rn_async_state_finish (Some st) ok of (p, st') \<Rightarrow> (p, the st'))"

lemmas async_defs = begin_state_def complete_state_def finish_state_def rn_async_state_begin_def
  rn_async_state_complete_def rn_async_state_finish_def rn_async_state_is_starting_def

interpretation lookup_start: async_operation begin_state complete_state
  "\<lambda>st. rn_async_state_is_starting (Some st)" finish_state
  by unfold_locales (simp_all add: async_defs)

end
