(* ===== verification/Dns.thy ===== *)
theory Dns
  imports Srv_Records Addr_Records Async_State Numeric
begin

text \<open>
  The DNS adapter of the module: \<open>rn_resolve_srv\<close>, \<open>rn_resolve_addrs\<close> and \<open>rn_resolve_cancel\<close>,
  which the C client calls, and the two handlers nginx's resolver calls with an answer.

  \<open>dheap\<close> is the module's heap: a request \<open>rn_dns_req_t\<close>, its name and service buffers, and the
  arrays of an answer.  \<open>rctxs\<close> is the resolver's heap of contexts; \<open>ngx_resolve_start\<close> allocates
  one and \<open>ngx_resolve_name_done\<close> releases it.  A request id is the context's pointer, and 0
  means no pending lookup.  A call of the client's callback is recorded in \<open>trace\<close>, newest
  first, and then \<open>k\<close>, a parameter of the operations, is run: whatever the client does inside
  its callback, which may be further calls of this adapter.

  nginx's resolver is a parameter, by its documented contract: \<open>ngx_resolve_name\<close> either
  returns \<open>NGX_OK\<close> with the lookup pending, or calls the handler before it returns \<open>NGX_OK\<close>, or
  releases the context and returns \<open>NGX_ERROR\<close>.  The log calls and the test-only fault
  injection, which is compiled out, are not modelled; a callback is named by a number.
\<close>

subsection \<open>Data\<close>

record rn_dns_req_t =
  req_srv_cb :: "nat option"
  req_addr_cb :: "nat option"
  req_user :: nat
  name_buf :: "ptr option"
  name_len :: nat
  service_buf :: "ptr option"
  service_len :: nat
  start_state :: rn_async_state_t

definition sizeof_dns_req :: nat where "sizeof_dns_req = 72"
definition sizeof_srv_source :: nat where "sizeof_srv_source = 32"
definition sizeof_addr_source :: nat where "sizeof_addr_source = 16"

datatype dns_obj =
    Dns_req rn_dns_req_t
  | Srv_sources "rn_srv_source_t list"
  | Addr_sources "rn_addr_source_t list"
  | Addrs "r_addr_t list"

type_synonym dns_heap = "dns_obj srv_heap"

datatype resolver_handler = No_handler | Srv_handler | Addr_handler

record ngx_resolver_ctx_t =
  rctx_name :: "ptr option \<times> nat"
  rctx_service :: "ptr option \<times> nat"
  rctx_handler :: resolver_handler
  rctx_data :: "ptr option"
  rctx_timeout :: u64

record ngx_resolver_srv_name_t =
  srv_name :: "string option"
  srv_port :: u16
  srv_priority :: u16
  srv_weight :: u16

record ngx_resolver_addr_t =
  res_sockaddr :: "string option"
  res_socklen :: nat

text \<open>
  What a handler finds in its context and around it: the answer, the clock, the allocator's
  answers, and the sizes of the client's two record types.
\<close>

record dns_answer =
  ans_state_ok :: bool
  ans_valid :: int
  ans_srvs :: "ngx_resolver_srv_name_t list"
  ans_addrs :: "ngx_resolver_addr_t list"
  ans_now :: int
  ans_mem :: "nat \<Rightarrow> dns_heap \<Rightarrow> bool"
  srv_record_size :: nat
  addr_size :: nat

datatype start_outcome = Start_pending | Start_refused | Start_answered dns_answer

record start_env =
  env_resolver :: bool
  env_context :: bool
  env_timeout :: u64
  env_mem :: "nat \<Rightarrow> dns_heap \<Rightarrow> bool"
  env_outcome :: start_outcome

text \<open>
  The arguments of a callback, as the client can read them during the call: a failure with
  status -1, the cancellation status \<open>RCLIENT_ERR_DNS\<close>, or the records or addresses.
\<close>

record srv_target =
  found_target :: string
  found_port :: u16
  found_priority :: u16
  found_weight :: u16
  found_ttl_ms :: u32

datatype dns_result =
    Lookup_failed
  | Lookup_cancelled
  | Srv_found "srv_target list"
  | Addr_found "r_addr_t list"

datatype dns_event =
    Called nat nat dns_result
  | Returned nat int nat

record dns_state =
  dheap :: dns_heap
  rctxs :: "ngx_resolver_ctx_t heap"
  trace :: "dns_event list"

definition empty_dns :: dns_state where
  "empty_dns = \<lparr>dheap = empty_heap, rctxs = empty_heap, trace = []\<rparr>"

type_synonym client_code = "dns_state \<Rightarrow> dns_state"

definition call_back :: "client_code \<Rightarrow> nat \<Rightarrow> nat \<Rightarrow> dns_result \<Rightarrow> dns_state \<Rightarrow> dns_state" where
  "call_back k cb user result s = k (s\<lparr>trace := Called cb user result # trace s\<rparr>)"

subsection \<open>Requests and contexts\<close>

definition read_req :: "ptr \<Rightarrow> dns_heap \<Rightarrow> rn_dns_req_t option" where
  "read_req p h = (case blocks h p of Some (Other (Dns_req q)) \<Rightarrow> Some q | _ \<Rightarrow> None)"

definition write_req :: "ptr \<Rightarrow> rn_dns_req_t \<Rightarrow> dns_heap \<Rightarrow> dns_heap" where
  "write_req p q h = (if read_req p h = None then h\<lparr>misused := True\<rparr> else store p (Other (Dns_req q)) h)"

definition rn_dns_req_release :: "ptr option \<Rightarrow> dns_heap \<Rightarrow> dns_heap" where
  "rn_dns_req_release req h =
     (case req of
        None \<Rightarrow> h
      | Some p \<Rightarrow>
          (case read_req p h of
             None \<Rightarrow> h\<lparr>misused := True\<rparr>
           | Some q \<Rightarrow>
               let
                 q1 = q\<lparr>name_buf := None\<rparr>;
                 h1 = (case name_buf q of None \<Rightarrow> h | Some b \<Rightarrow> write_req p q1 (ngx_free b h));
                 h2 = (case service_buf q of
                     None \<Rightarrow> h1
                   | Some b \<Rightarrow> write_req p (q1\<lparr>service_buf := None\<rparr>) (ngx_free b h1))
               in ngx_free p h2))"

definition ngx_resolve_start :: "start_env \<Rightarrow> dns_state \<Rightarrow> ptr option \<times> dns_state" where
  "ngx_resolve_start env s =
     (case ngx_alloc (env_context env) \<lparr>rctx_name = (None, 0), rctx_service = (None, 0),
         rctx_handler = No_handler, rctx_data = None, rctx_timeout = 0\<rparr> (rctxs s) of
        (c, rh) \<Rightarrow> (c, s\<lparr>rctxs := rh\<rparr>))"

definition ngx_resolve_name_done :: "ptr \<Rightarrow> dns_state \<Rightarrow> dns_state" where
  "ngx_resolve_name_done c s = s\<lparr>rctxs := ngx_free c (rctxs s)\<rparr>"

definition set_data :: "ptr \<Rightarrow> ptr option \<Rightarrow> dns_state \<Rightarrow> dns_state" where
  "set_data c d s =
     (case blocks (rctxs s) c of
        None \<Rightarrow> s\<lparr>rctxs := (rctxs s)\<lparr>misused := True\<rparr>\<rparr>
      | Some x \<Rightarrow> s\<lparr>rctxs := store c (x\<lparr>rctx_data := d\<rparr>) (rctxs s)\<rparr>)"

definition rn_dns_discard_unstarted :: "ptr option \<Rightarrow> ptr option \<Rightarrow> dns_state \<Rightarrow> dns_state" where
  "rn_dns_discard_unstarted rctx req s =
     (let s1 = (case rctx of None \<Rightarrow> s | Some c \<Rightarrow> ngx_resolve_name_done c (set_data c None s))
      in s1\<lparr>dheap := rn_dns_req_release req (dheap s1)\<rparr>)"

definition rn_dns_alloc :: "(nat \<Rightarrow> dns_heap \<Rightarrow> bool) \<Rightarrow> nat \<Rightarrow> dns_heap \<Rightarrow> ptr option \<times> dns_heap" where
  "rn_dns_alloc answers bytes h = ngx_alloc (answers bytes h) Uninit h"

text \<open>\<open>rn_async_state_complete (&req->start_state)\<close>.\<close>

definition complete_req :: "ptr \<Rightarrow> dns_state \<Rightarrow> dns_state" where
  "complete_req p s =
     (case read_req p (dheap s) of
        None \<Rightarrow> s\<lparr>dheap := (dheap s)\<lparr>misused := True\<rparr>\<rparr>
      | Some q \<Rightarrow> s\<lparr>dheap := write_req p (q\<lparr>start_state := complete_state (start_state q)\<rparr>) (dheap s)\<rparr>)"

text \<open>The end of a handler: \<open>ngx_resolve_name_done\<close>, and the request unless it is being started.\<close>

definition end_handler :: "ptr \<Rightarrow> ptr \<Rightarrow> dns_state \<Rightarrow> dns_state" where
  "end_handler c p s =
     (let s1 = ngx_resolve_name_done c s in
      case read_req p (dheap s1) of
        None \<Rightarrow> s1\<lparr>dheap := (dheap s1)\<lparr>misused := True\<rparr>\<rparr>
      | Some q \<Rightarrow>
          if \<not> rn_async_state_is_starting (Some (start_state q))
          then s1\<lparr>dheap := rn_dns_req_release (Some p) (dheap s1)\<rparr> else s1)"

subsection \<open>The handlers\<close>

definition source_of :: "u32 \<Rightarrow> ngx_resolver_srv_name_t \<Rightarrow> rn_srv_source_t" where
  "source_of ttl_ms srv =
     \<lparr>src_target = srv_name srv, src_port = srv_port srv, src_priority = srv_priority srv,
      src_weight = srv_weight srv, src_ttl_ms = ttl_ms\<rparr>"

definition answer_ttl_ms :: "dns_answer \<Rightarrow> u32" where
  "answer_ttl_ms a =
     (if ans_valid a > ans_now a
      then rn_numeric_ttl_ms_until (word_of_int (ans_valid a)) (word_of_int (ans_now a)) else 0)"

text \<open>What the client reads through \<open>result.records\<close> and \<open>result.count\<close>.\<close>

definition read_cstr :: "ptr option \<Rightarrow> dns_heap \<Rightarrow> string" where
  "read_cstr p h = (case p of None \<Rightarrow> [] | Some t \<Rightarrow>
     (case blocks h t of Some (Cstr s) \<Rightarrow> c_string s | _ \<Rightarrow> []))"

definition read_records :: "rn_srv_records_t \<Rightarrow> dns_heap \<Rightarrow> srv_target list" where
  "read_records res h =
     (case records res of
        None \<Rightarrow> []
      | Some r \<Rightarrow>
          (case blocks h r of
             Some (Records rs) \<Rightarrow>
               map (\<lambda>x. \<lparr>found_target = read_cstr (rec_target x) h, found_port = rec_port x,
                 found_priority = rec_priority x, found_weight = rec_weight x,
                 found_ttl_ms = rec_ttl_ms x\<rparr>) (take (count res) rs)
           | _ \<Rightarrow> []))"

text \<open>From the test of \<open>ctx->state\<close> to the releases after the callback.\<close>

definition answer_srv :: "client_code \<Rightarrow> dns_answer \<Rightarrow> nat \<Rightarrow> nat \<Rightarrow> dns_state \<Rightarrow> dns_state" where
  "answer_srv k a cb user s =
     (let n = length (ans_srvs a); failed = call_back k cb user Lookup_failed in
      if \<not> ans_state_ok a \<or> n = 0 then failed s
      else if n > SIZE_MAX div sizeof_srv_source then failed s
      else case ngx_alloc (ans_mem a (n * sizeof_srv_source) (dheap s)) Uninit (dheap s) of
        (None, h1) \<Rightarrow> failed (s\<lparr>dheap := h1\<rparr>)
      | (Some p, h1) \<Rightarrow>
          let
            sources = map (source_of (answer_ttl_ms a)) (ans_srvs a);
            h2 = store p (Other (Srv_sources sources)) h1
          in case rn_srv_records_build (srv_record_size a) (Some sources)
              (Some (rn_srv_ngx_alloc (ans_mem a))) (Some rn_srv_ngx_free) (Some zero_records) h2 of
            (rc, result, h3) \<Rightarrow>
              let
                s3 = s\<lparr>dheap := h3\<rparr>;
                s4 = (if rc \<noteq> 0 then failed s3
                      else call_back k cb user (Srv_found (read_records (the result) h3)) s3);
                h5 = snd (rn_srv_records_free result (Some rn_srv_ngx_free) (dheap s4))
              in s4\<lparr>dheap := ngx_free p h5\<rparr>)"

definition rn_resolve_srv_handler :: "client_code \<Rightarrow> dns_answer \<Rightarrow> ptr option \<Rightarrow> dns_state \<Rightarrow> dns_state" where
  "rn_resolve_srv_handler k a ctx s =
     (case ctx of
        None \<Rightarrow> s
      | Some c \<Rightarrow>
          (case Option.bind (blocks (rctxs s) c) rctx_data of
             None \<Rightarrow> ngx_resolve_name_done c s
           | Some p \<Rightarrow>
               (case Option.bind (read_req p (dheap s)) req_srv_cb of
                  None \<Rightarrow> ngx_resolve_name_done c s
                | Some cb \<Rightarrow>
                    let user = req_user (the (read_req p (dheap s))) in
                    end_handler c p (answer_srv k a cb user (complete_req p (set_data c None s))))))"

definition addr_source_of :: "ngx_resolver_addr_t \<Rightarrow> rn_addr_source_t" where
  "addr_source_of x = \<lparr>src_sockaddr = res_sockaddr x, src_socklen = res_socklen x\<rparr>"

text \<open>
  Both arrays are requested before either is tested.  The entries of the new address array
  that the compaction does not fill are never read, so their contents are chosen freely.
\<close>

definition answer_addr :: "client_code \<Rightarrow> dns_answer \<Rightarrow> nat \<Rightarrow> nat \<Rightarrow> dns_state \<Rightarrow> dns_state" where
  "answer_addr k a cb user s =
     (let n = length (ans_addrs a); failed = call_back k cb user Lookup_failed in
      if \<not> ans_state_ok a \<or> n = 0 then failed s
      else if n > SIZE_MAX div addr_size a \<or> n > SIZE_MAX div sizeof_addr_source then failed s
      else case ngx_alloc (ans_mem a (n * addr_size a) (dheap s)) Uninit (dheap s) of
        (addrs, h1) \<Rightarrow>
          (case ngx_alloc (ans_mem a (n * sizeof_addr_source) h1) Uninit h1 of
             (sources, h2) \<Rightarrow>
               let s2 = s\<lparr>dheap := h2\<rparr>;
                 s3 = (case (addrs, sources) of
                     (Some d, Some p) \<Rightarrow>
                       (let
                          ss = map addr_source_of (ans_addrs a);
                          h3 = store p (Other (Addr_sources ss)) h2
                        in case rn_addr_records_compact (Some ss) (Some (replicate n zero_addr)) n of
                          Some (addr_count, Some buf) \<Rightarrow>
                            let s4 = s\<lparr>dheap := store d (Other (Addrs buf)) h3\<rparr> in
                            if addr_count = 0 then failed s4
                            else call_back k cb user (Addr_found (take addr_count buf)) s4
                        | _ \<Rightarrow> s\<lparr>dheap := h3\<lparr>misused := True\<rparr>\<rparr>)
                   | _ \<Rightarrow> failed s2)
               in s3\<lparr>dheap := free_if addrs (free_if sources (dheap s3))\<rparr>))"

definition rn_resolve_addr_handler :: "client_code \<Rightarrow> dns_answer \<Rightarrow> ptr option \<Rightarrow> dns_state \<Rightarrow> dns_state" where
  "rn_resolve_addr_handler k a ctx s =
     (case ctx of
        None \<Rightarrow> s
      | Some c \<Rightarrow>
          (case Option.bind (blocks (rctxs s) c) rctx_data of
             None \<Rightarrow> ngx_resolve_name_done c s
           | Some p \<Rightarrow>
               (case Option.bind (read_req p (dheap s)) req_addr_cb of
                  None \<Rightarrow> ngx_resolve_name_done c s
                | Some cb \<Rightarrow>
                    let user = req_user (the (read_req p (dheap s))) in
                    end_handler c p (answer_addr k a cb user (complete_req p (set_data c None s))))))"

text \<open>The resolver's call of \<open>ctx->handler (ctx)\<close>.\<close>

definition run_handler :: "client_code \<Rightarrow> dns_answer \<Rightarrow> ptr \<Rightarrow> dns_state \<Rightarrow> dns_state" where
  "run_handler k a c s =
     (case map_option rctx_handler (blocks (rctxs s) c) of
        Some Srv_handler \<Rightarrow> rn_resolve_srv_handler k a (Some c) s
      | Some Addr_handler \<Rightarrow> rn_resolve_addr_handler k a (Some c) s
      | _ \<Rightarrow> s\<lparr>rctxs := (rctxs s)\<lparr>misused := True\<rparr>\<rparr>)"

subsection \<open>Starting and cancelling a lookup\<close>

definition rn_resolve_name_start :: "client_code \<Rightarrow> start_env \<Rightarrow> ptr \<Rightarrow> dns_state \<Rightarrow> ngx_rc \<times> dns_state" where
  "rn_resolve_name_start k env c s =
     (case env_outcome env of
        Start_pending \<Rightarrow> (NGX_OK, s)
      | Start_refused \<Rightarrow> (NGX_ERROR, ngx_resolve_name_done c s)
      | Start_answered a \<Rightarrow> (NGX_OK, run_handler k a c s))"

text \<open>
  The request with a copy of its name, or, when memory runs out, \<open>Inl\<close> of what was allocated.
\<close>

definition request_with_name ::
  "(nat \<Rightarrow> dns_heap \<Rightarrow> bool) \<Rightarrow> rn_dns_req_t \<Rightarrow> string \<Rightarrow> dns_heap
     \<Rightarrow> (ptr option + ptr \<times> rn_dns_req_t) \<times> dns_heap" where
  "request_with_name answers q name h =
     (case rn_dns_alloc answers sizeof_dns_req h of
        (None, h1) \<Rightarrow> (Inl None, h1)
      | (Some p, h1) \<Rightarrow>
          let h2 = store p (Other (Dns_req q)) h1 in
          (case rn_dns_alloc answers (length name + 1) h2 of
             (None, h3) \<Rightarrow> (Inl (Some p), h3)
           | (Some b, h3) \<Rightarrow>
               let q' = q\<lparr>name_buf := Some b\<rparr> in
               (Inr (p, q'), write_req p q' (store b (Cstr (name @ [nul])) h3))))"

definition empty_req :: rn_dns_req_t where
  "empty_req = \<lparr>req_srv_cb = None, req_addr_cb = None, req_user = 0, name_buf = None, name_len = 0,
     service_buf = None, service_len = 0, start_state = \<lparr>starting = False, completed = False\<rparr>\<rparr>"

text \<open>The offset of the second dot, where \<open>_service._proto\<close> ends.\<close>

definition second_dot :: "string \<Rightarrow> nat option" where
  "second_dot name =
     (case ngx_strlchr name CHR ''.'' of
        None \<Rightarrow> None
      | Some first \<Rightarrow> map_option (\<lambda>n. first + 1 + n) (ngx_strlchr (drop (first + 1) name) CHR ''.''))"

definition split_service ::
  "(nat \<Rightarrow> dns_heap \<Rightarrow> bool) \<Rightarrow> ptr \<Rightarrow> rn_dns_req_t \<Rightarrow> string \<Rightarrow> dns_heap
     \<Rightarrow> rn_dns_req_t option \<times> dns_heap" where
  "split_service answers p q name h =
     (case second_dot name of
        None \<Rightarrow> (Some q, h)
      | Some second \<Rightarrow>
          (case rn_dns_alloc answers second h of
             (None, h1) \<Rightarrow> (None, write_req p (q\<lparr>service_len := second\<rparr>) h1)
           | (Some sb, h1) \<Rightarrow>
               let
                 q1 = q\<lparr>service_buf := Some sb, service_len := second\<rparr>;
                 h2 = write_req p q1 (store sb (Cstr (take second name)) h1);
                 domain = drop (second + 1) name
               in case rn_dns_alloc answers (length domain + 1) h2 of
                 (None, h3) \<Rightarrow> (None, h3)
               | (Some db, h3) \<Rightarrow>
                   let q2 = q1\<lparr>name_buf := Some db, name_len := length domain\<rparr> in
                   (Some q2, write_req p q2 (free_if (name_buf q1) (store db (Cstr (domain @ [nul])) h3)))))"

text \<open>
  From the call that starts the resolution to the end of the two functions: the status, the
  request id and the state.
\<close>

definition finish_start :: "client_code \<Rightarrow> start_env \<Rightarrow> ptr \<Rightarrow> ptr \<Rightarrow> dns_state \<Rightarrow> int \<times> nat option \<times> dns_state" where
  "finish_start k env c p s =
     (case rn_resolve_name_start k env c s of
        (rc, s2) \<Rightarrow>
          (case read_req p (dheap s2) of
             None \<Rightarrow> (-1, Some 0, s2\<lparr>dheap := (dheap s2)\<lparr>misused := True\<rparr>\<rparr>)
           | Some q2 \<Rightarrow>
               (case finish_state (start_state q2) (rc = NGX_OK) of
                  (pending, st) \<Rightarrow>
                    let h3 = write_req p (q2\<lparr>start_state := st\<rparr>) (dheap s2) in
                    if \<not> pending
                    then (if rc = NGX_OK then 0 else -1, Some 0, s2\<lparr>dheap := rn_dns_req_release (Some p) h3\<rparr>)
                    else (0, Some c, s2\<lparr>dheap := h3\<rparr>))))"

text \<open>
  The assignments to the context before it.  \<open>rn_resolve_addrs\<close> leaves \<open>rctx->service\<close> empty, as
  its request has none.
\<close>

definition start_lookup ::
  "client_code \<Rightarrow> start_env \<Rightarrow> ptr \<Rightarrow> ptr \<Rightarrow> rn_dns_req_t \<Rightarrow> resolver_handler \<Rightarrow> dns_state
     \<Rightarrow> int \<times> nat option \<times> dns_state" where
  "start_lookup k env c p q handler s =
     (let
        x = \<lparr>rctx_name = (name_buf q, name_len q),
          rctx_service = (if service_buf q \<noteq> None then (service_buf q, service_len q) else (None, 0)),
          rctx_handler = handler, rctx_data = Some p, rctx_timeout = env_timeout env\<rparr>;
        s1 = s\<lparr>rctxs := store c x (rctxs s)\<rparr>;
        s2 = s1\<lparr>dheap := write_req p (q\<lparr>start_state := begin_state (start_state q)\<rparr>) (dheap s1)\<rparr>
      in finish_start k env c p s2)"

definition rn_resolve_srv ::
  "client_code \<Rightarrow> start_env \<Rightarrow> string option \<Rightarrow> nat option \<Rightarrow> nat option \<Rightarrow> nat \<Rightarrow> dns_state
     \<Rightarrow> int \<times> nat option \<times> dns_state" where
  "rn_resolve_srv k env name out_req_id cb user s =
     (let out = map_option (\<lambda>_. 0) out_req_id in
      case (name, out_req_id, cb) of
        (Some nm, Some _, Some _) \<Rightarrow>
          (if \<not> env_resolver env then (-1, out, s)
           else case ngx_resolve_start env s of
             (None, s1) \<Rightarrow> (-1, out, s1)
           | (Some c, s1) \<Rightarrow>
               (case request_with_name (env_mem env)
                   (empty_req\<lparr>req_srv_cb := cb, req_user := user, name_len := length nm\<rparr>) nm (dheap s1) of
                  (Inl req, h2) \<Rightarrow> (-1, out, rn_dns_discard_unstarted (Some c) req (s1\<lparr>dheap := h2\<rparr>))
                | (Inr (p, q), h2) \<Rightarrow>
                    (case split_service (env_mem env) p q nm h2 of
                       (None, h3) \<Rightarrow> (-1, out, rn_dns_discard_unstarted (Some c) (Some p) (s1\<lparr>dheap := h3\<rparr>))
                     | (Some q', h3) \<Rightarrow> start_lookup k env c p q' Srv_handler (s1\<lparr>dheap := h3\<rparr>))))
      | _ \<Rightarrow> (-1, out, s))"

definition rn_resolve_addrs ::
  "client_code \<Rightarrow> start_env \<Rightarrow> string option \<Rightarrow> nat option \<Rightarrow> nat option \<Rightarrow> nat \<Rightarrow> dns_state
     \<Rightarrow> int \<times> nat option \<times> dns_state" where
  "rn_resolve_addrs k env name out_req_id cb user s =
     (let out = map_option (\<lambda>_. 0) out_req_id in
      case (name, out_req_id, cb) of
        (Some nm, Some _, Some _) \<Rightarrow>
          (if \<not> env_resolver env then (-1, out, s)
           else case ngx_resolve_start env s of
             (None, s1) \<Rightarrow> (-1, out, s1)
           | (Some c, s1) \<Rightarrow>
               (case request_with_name (env_mem env)
                   (empty_req\<lparr>req_addr_cb := cb, req_user := user, name_len := length nm\<rparr>) nm (dheap s1) of
                  (Inl req, h2) \<Rightarrow> (-1, out, rn_dns_discard_unstarted (Some c) req (s1\<lparr>dheap := h2\<rparr>))
                | (Inr (p, q), h2) \<Rightarrow> start_lookup k env c p q Addr_handler (s1\<lparr>dheap := h2\<rparr>)))
      | _ \<Rightarrow> (-1, out, s))"

definition rn_resolve_cancel :: "client_code \<Rightarrow> nat \<Rightarrow> dns_state \<Rightarrow> dns_state" where
  "rn_resolve_cancel k req_id s =
     (if req_id = 0 then s
      else case blocks (rctxs s) req_id of
        None \<Rightarrow> s\<lparr>rctxs := (rctxs s)\<lparr>misused := True\<rparr>\<rparr>
      | Some x \<Rightarrow>
          (case rctx_data x of
             None \<Rightarrow> s
           | Some p \<Rightarrow>
               (case read_req p (dheap s) of
                  None \<Rightarrow> s\<lparr>dheap := (dheap s)\<lparr>misused := True\<rparr>\<rparr>
                | Some q \<Rightarrow>
                    let
                      s1 = ngx_resolve_name_done req_id (complete_req p (set_data req_id None s));
                      s2 = s1\<lparr>dheap := rn_dns_req_release (Some p) (dheap s1)\<rparr>
                    in case req_srv_cb q of
                      Some cb \<Rightarrow> call_back k cb (req_user q) Lookup_cancelled s2
                    | None \<Rightarrow>
                        (case req_addr_cb q of
                           Some cb \<Rightarrow> call_back k cb (req_user q) Lookup_cancelled s2
                         | None \<Rightarrow> s2))))"

subsection \<open>Runs\<close>

text \<open>
  What the client does, inside a callback or outside: start lookups and cancel them.  By the
  adapter's contract it cancels with 0 or with the id of a context that is not retired; a call
  with another id does not happen.
\<close>

datatype dns_op =
    Resolve_srv start_env "string option" "nat option" nat
  | Resolve_addrs start_env "string option" "nat option" nat
  | Cancel nat

definition returned :: "nat \<Rightarrow> int \<times> nat option \<times> dns_state \<Rightarrow> dns_state" where
  "returned user result =
     (case result of (rc, req_id, s) \<Rightarrow> s\<lparr>trace := Returned user rc (the req_id) # trace s\<rparr>)"

definition client_op :: "client_code \<Rightarrow> dns_op \<Rightarrow> dns_state \<Rightarrow> dns_state" where
  "client_op k oper s =
     (case oper of
        Resolve_srv env name cb user \<Rightarrow> returned user (rn_resolve_srv k env name (Some 0) cb user s)
      | Resolve_addrs env name cb user \<Rightarrow> returned user (rn_resolve_addrs k env name (Some 0) cb user s)
      | Cancel req_id \<Rightarrow>
          if req_id = 0 \<or> blocks (rctxs s) req_id \<noteq> None then rn_resolve_cancel k req_id s else s)"

text \<open>
  A client decides by what it has seen, and it may react in every callback down to the nesting
  depth \<open>n\<close>; deeper callbacks only record.
\<close>

type_synonym dns_client = "dns_event list \<Rightarrow> dns_op list"

fun client_runs :: "dns_client \<Rightarrow> nat \<Rightarrow> client_code" where
  "client_runs cl 0 s = s"
| "client_runs cl (Suc n) s = fold (client_op (client_runs cl n)) (cl (trace s)) s"

datatype dns_step = Client_acts dns_op | Resolver_answers ptr dns_answer

text \<open>nginx's resolver calls the handler of a lookup that is pending.\<close>

definition dns_step :: "client_code \<Rightarrow> dns_step \<Rightarrow> dns_state \<Rightarrow> dns_state" where
  "dns_step k st s =
     (case st of
        Client_acts oper \<Rightarrow> client_op k oper s
      | Resolver_answers c a \<Rightarrow>
          if blocks (rctxs s) c \<noteq> None then run_handler k a c s else s)"

definition run_dns :: "client_code \<Rightarrow> dns_step list \<Rightarrow> dns_state \<Rightarrow> dns_state" where
  "run_dns k sts = fold (dns_step k) sts"

end
