(* ===== verification/Dns_Owner.thy ===== *)
theory Dns_Owner
  imports Dns
begin

text \<open>
  Ownership in the DNS adapter.  A context with a live request is a pending lookup.  The
  invariant \<open>dns_inv H C\<close> describes the state in the middle of an operation: the operation
  itself holds the blocks \<open>H\<close> and the contexts \<open>C\<close>, every other context is a pending lookup that
  owns its request and buffers, and no block is left over or owned twice.  \<open>debt\<close> counts, for a
  user token, the accepted lookups minus the callbacks made and the lookups still pending.

  The client is any function \<open>k\<close> that satisfies \<open>client_ok\<close>, the contract the operations prove
  for themselves, so a client that calls them back from a callback satisfies it again.  The
  elementary steps here are reads, writes, allocations and releases of what an operation holds.
\<close>

subsection \<open>The invariant\<close>

definition req_at :: "dns_state \<Rightarrow> ptr \<Rightarrow> (ptr \<times> rn_dns_req_t) option" where
  "req_at s c =
     Option.bind (Option.bind (blocks (rctxs s) c) rctx_data) (\<lambda>p. map_option (Pair p) (read_req p (dheap s)))"

definition req_ptrs :: "ptr \<Rightarrow> rn_dns_req_t \<Rightarrow> ptr set" where
  "req_ptrs p q = insert p (set_option (name_buf q) \<union> set_option (service_buf q))"

definition owned :: "dns_state \<Rightarrow> ptr \<Rightarrow> ptr set" where
  "owned s c = (case req_at s c of None \<Rightarrow> {} | Some (p, q) \<Rightarrow> req_ptrs p q)"

definition req_distinct :: "ptr \<Rightarrow> rn_dns_req_t \<Rightarrow> bool" where
  "req_distinct p q \<longleftrightarrow> name_buf q \<noteq> Some p \<and> service_buf q \<noteq> Some p
     \<and> (name_buf q = service_buf q \<longrightarrow> name_buf q = None)"

definition ready :: "ngx_resolver_ctx_t \<Rightarrow> ptr \<Rightarrow> rn_dns_req_t \<Rightarrow> bool" where
  "ready x p q \<longleftrightarrow> \<not> starting (start_state q) \<and> req_distinct p q
     \<and> (rctx_handler x = Srv_handler \<and> req_srv_cb q \<noteq> None
        \<or> rctx_handler x = Addr_handler \<and> req_srv_cb q = None \<and> req_addr_cb q \<noteq> None)"

definition pending_ok :: "dns_state \<Rightarrow> ptr \<Rightarrow> bool" where
  "pending_ok s c \<longleftrightarrow>
     (\<exists>x p q. blocks (rctxs s) c = Some x \<and> req_at s c = Some (p, q) \<and> ready x p q)"

definition dns_inv :: "ptr set \<Rightarrow> ptr set \<Rightarrow> dns_state \<Rightarrow> bool" where
  "dns_inv H C s \<longleftrightarrow>
     heap_ok (dheap s) \<and> heap_ok (rctxs s)
     \<and> (\<forall>c \<in> C. \<exists>x. blocks (rctxs s) c = Some x \<and> rctx_data x = None)
     \<and> (\<forall>c \<in> live (rctxs s) - C. pending_ok s c)
     \<and> live (dheap s) = H \<union> (\<Union>c. owned s c)
     \<and> (\<forall>c. owned s c \<inter> H = {}) \<and> (\<forall>c d. c \<noteq> d \<longrightarrow> owned s c \<inter> owned s d = {})"

definition frame :: "ptr set \<Rightarrow> ptr set \<Rightarrow> dns_state \<Rightarrow> dns_state \<Rightarrow> bool" where
  "frame H C s t \<longleftrightarrow> (\<forall>p \<in> H. blocks (dheap t) p = blocks (dheap s) p)
     \<and> (\<forall>c \<in> C. blocks (rctxs t) c = blocks (rctxs s) c)"

subsection \<open>Counting\<close>

definition pending_for :: "dns_state \<Rightarrow> nat \<Rightarrow> ptr set" where
  "pending_for s u = {c. \<exists>p q. req_at s c = Some (p, q) \<and> req_user q = u}"

fun accepted_by :: "nat \<Rightarrow> dns_event \<Rightarrow> bool" where
  "accepted_by u (Returned user rc req_id) = (user = u \<and> rc = 0)"
| "accepted_by u (Called cb user result) = False"

fun called_for :: "nat \<Rightarrow> dns_event \<Rightarrow> bool" where
  "called_for u (Called cb user result) = (user = u)"
| "called_for u (Returned user rc req_id) = False"

definition accepted_count :: "dns_state \<Rightarrow> nat \<Rightarrow> nat" where
  "accepted_count s u = length (filter (accepted_by u) (trace s))"

definition called_count :: "dns_state \<Rightarrow> nat \<Rightarrow> nat" where
  "called_count s u = length (filter (called_for u) (trace s))"

definition debt :: "dns_state \<Rightarrow> nat \<Rightarrow> int" where
  "debt s u = int (accepted_count s u) - int (called_count s u) - int (card (pending_for s u))"

lemma debt_cong: "req_at t = req_at s \<Longrightarrow> trace t = trace s \<Longrightarrow> debt t = debt s"
  by (simp add: debt_def fun_eq_iff accepted_count_def called_count_def pending_for_def)

definition client_ok :: "client_code \<Rightarrow> bool" where
  "client_ok k \<longleftrightarrow>
     (\<forall>H C s. dns_inv H C s \<longrightarrow> dns_inv H C (k s) \<and> frame H C s (k s) \<and> debt (k s) = debt s)"

lemma client_okD:
  "client_ok k \<Longrightarrow> dns_inv H C s \<Longrightarrow> dns_inv H C (k s)"
  "client_ok k \<Longrightarrow> dns_inv H C s \<Longrightarrow> frame H C s (k s)"
  "client_ok k \<Longrightarrow> dns_inv H C s \<Longrightarrow> debt (k s) = debt s"
  by (auto simp: client_ok_def)

lemma frameD:
  "frame H C s t \<Longrightarrow> p \<in> H \<Longrightarrow> blocks (dheap t) p = blocks (dheap s) p"
  "frame H C s t \<Longrightarrow> c \<in> C \<Longrightarrow> blocks (rctxs t) c = blocks (rctxs s) c"
  by (auto simp: frame_def)

lemma frame_refl [simp]: "frame H C s s"
  by (simp add: frame_def)

lemma frame_trans: "frame H C s t \<Longrightarrow> frame H C t u \<Longrightarrow> frame H C s u"
  by (simp add: frame_def)

lemma frame_mono: "frame H' C' s t \<Longrightarrow> H \<subseteq> H' \<Longrightarrow> C \<subseteq> C' \<Longrightarrow> frame H C s t"
  by (auto simp: frame_def)

lemma req_at_trace [simp]: "req_at (s\<lparr>trace := tr\<rparr>) = req_at s"
  by (simp add: fun_eq_iff req_at_def)

lemma owned_cong: "req_at t = req_at s \<Longrightarrow> owned t = owned s"
  by (simp add: fun_eq_iff owned_def)

lemma dns_inv_trace [simp]: "dns_inv H C (s\<lparr>trace := tr\<rparr>) = dns_inv H C s"
  using owned_cong [of "s\<lparr>trace := tr\<rparr>" s] by (simp add: dns_inv_def pending_ok_def)

lemma frame_trace [simp]: "frame H C s (t\<lparr>trace := tr\<rparr>) = frame H C s t" "frame H C (s\<lparr>trace := tr\<rparr>) t = frame H C s t"
  by (simp_all add: frame_def)

lemma req_at_finite:
  assumes "dns_inv H C s"
  shows "finite (pending_for s u)"
proof (rule finite_subset)
  show "pending_for s u \<subseteq> {..<next_ptr (rctxs s)}"
  proof
    fix c assume "c \<in> pending_for s u"
    then have "blocks (rctxs s) c \<noteq> None" by (auto simp: pending_for_def req_at_def bind_eq_Some_conv)
    moreover have "\<forall>p \<ge> next_ptr (rctxs s). blocks (rctxs s) p = None"
      using assms by (simp add: dns_inv_def heap_ok_def)
    ultimately show "c \<in> {..<next_ptr (rctxs s)}" by (auto simp: not_less [symmetric])
  qed
qed simp

lemma debt_called:
  "debt (s\<lparr>trace := Called cb user result # tr\<rparr>) u = debt (s\<lparr>trace := tr\<rparr>) u - (if u = user then 1 else 0)"
  by (simp add: debt_def accepted_count_def called_count_def pending_for_def)

lemma debt_returned:
  "debt (s\<lparr>trace := Returned user rc i # tr\<rparr>) u =
    debt (s\<lparr>trace := tr\<rparr>) u + (if u = user \<and> rc = 0 then 1 else 0)"
  by (simp add: debt_def accepted_count_def called_count_def pending_for_def)

text \<open>A lookup that appears, or disappears, moves the debt of its user by one.\<close>

lemma debt_pending_gone:
  assumes "dns_inv H C s" and "req_at s c = Some (p, q)" and "req_at t = (req_at s)(c := None)"
    and "trace t = trace s"
  shows "debt t u = debt s u + (if u = req_user q then 1 else 0)"
proof -
  have "pending_for t u = pending_for s u - {c}" using assms(3) by (auto simp: pending_for_def)
  moreover have "c \<in> pending_for s u \<longleftrightarrow> u = req_user q" using assms(2) by (auto simp: pending_for_def)
  ultimately have "int (card (pending_for s u)) = int (card (pending_for t u)) + (if u = req_user q then 1 else 0)"
    using card_Suc_Diff1 [OF req_at_finite [OF assms(1)], of c u] by (cases "u = req_user q") simp_all
  then show ?thesis by (simp add: debt_def accepted_count_def called_count_def assms(4))
qed

lemma debt_pending_new:
  assumes "dns_inv H C s" and "req_at s c = None" and "req_at t = (req_at s)(c \<mapsto> (p, q))"
    and "trace t = trace s"
  shows "debt t u = debt s u - (if u = req_user q then 1 else 0)"
proof -
  have "pending_for t u = (if u = req_user q then insert c (pending_for s u) else pending_for s u)"
    using assms(2,3) by (auto simp: pending_for_def)
  moreover have "c \<notin> pending_for s u" using assms(2) by (auto simp: pending_for_def)
  ultimately show ?thesis
    using req_at_finite [OF assms(1), of u] assms(4)
    by (auto simp: debt_def accepted_count_def called_count_def)
qed

subsection \<open>Elementary steps\<close>

text \<open>A change of the module's heap inside the blocks an operation holds.\<close>

lemma inv_heap:
  assumes inv: "dns_inv H C s" and ok: "heap_ok h"
    and same: "\<And>p. p \<in> live (dheap s) - H \<Longrightarrow> blocks h p = blocks (dheap s) p"
    and sub: "H' \<subseteq> live h" and rest: "live h - H' = live (dheap s) - H"
  shows "dns_inv H' C (s\<lparr>dheap := h\<rparr>)" and "req_at (s\<lparr>dheap := h\<rparr>) = req_at s"
proof -
  have "req_at (s\<lparr>dheap := h\<rparr>) c = req_at s c" for c
  proof (cases "c \<in> live (rctxs s) - C")
    case True
    then have "pending_ok s c" using inv by (simp add: dns_inv_def)
    then obtain x p q where x: "blocks (rctxs s) c = Some x" "req_at s c = Some (p, q)"
      by (auto simp: pending_ok_def)
    then have p: "rctx_data x = Some p" "read_req p (dheap s) = Some q"
      by (auto simp: req_at_def bind_eq_Some_conv)
    have "p \<in> owned s c" using x by (simp add: owned_def req_ptrs_def)
    with inv have "p \<in> live (dheap s) - H" by (auto simp: dns_inv_def)
    from same [OF this] x p show ?thesis by (simp add: req_at_def read_req_def)
  next
    case False
    with inv show ?thesis by (cases "c \<in> C") (auto simp: dns_inv_def req_at_def domIff)
  qed
  then show req: "req_at (s\<lparr>dheap := h\<rparr>) = req_at s" by blast
  have "live h = H' \<union> (live (dheap s) - H)" using sub rest by blast
  moreover have "live (dheap s) - H = (\<Union>c. owned s c)" using inv by (auto simp: dns_inv_def)
  moreover have "H' \<inter> (live (dheap s) - H) = {}" using rest by blast
  ultimately show "dns_inv H' C (s\<lparr>dheap := h\<rparr>)"
    using inv ok by (auto simp: dns_inv_def req owned_cong [OF req] pending_ok_def)
qed

lemma inv_store:
  assumes "dns_inv H C s" and "p \<in> H"
  shows "dns_inv H C (s\<lparr>dheap := store p v (dheap s)\<rparr>)" and "req_at (s\<lparr>dheap := store p v (dheap s)\<rparr>) = req_at s"
    and "blocks (store p v (dheap s)) = (blocks (dheap s))(p \<mapsto> v)"
proof -
  from assms have ok: "heap_ok (dheap s)" and sub: "H \<subseteq> live (dheap s)" by (auto simp: dns_inv_def)
  with assms obtain w where w: "blocks (dheap s) p = Some w" by auto
  note st = store_live [OF ok w, of v]
  show "blocks (store p v (dheap s)) = (blocks (dheap s))(p \<mapsto> v)" by (rule st)
  have "H \<subseteq> live (store p v (dheap s))" "live (store p v (dheap s)) - H = live (dheap s) - H"
    using sub st by auto
  note h = inv_heap [OF assms(1) st(1) _ this]
  show "dns_inv H C (s\<lparr>dheap := store p v (dheap s)\<rparr>)" "req_at (s\<lparr>dheap := store p v (dheap s)\<rparr>) = req_at s"
    using assms(2) by (intro h; auto simp: st)+
qed

lemma inv_alloc:
  assumes "dns_inv H C s" and "ngx_alloc ok v (dheap s) = (Some p, h)"
  shows "dns_inv (insert p H) C (s\<lparr>dheap := h\<rparr>)" and "req_at (s\<lparr>dheap := h\<rparr>) = req_at s"
    and "p \<notin> live (dheap s)" and "p \<notin> H" and "blocks h = (blocks (dheap s))(p \<mapsto> v)"
proof -
  from assms have hok: "heap_ok (dheap s)" and sub: "H \<subseteq> live (dheap s)" by (auto simp: dns_inv_def)
  note al = alloc_Some [OF hok assms(2)]
  show new: "p \<notin> live (dheap s)" and "blocks h = (blocks (dheap s))(p \<mapsto> v)" by (rule al)+
  with sub show "p \<notin> H" by blast
  have "\<And>x. x \<in> live (dheap s) - H \<Longrightarrow> blocks h x = blocks (dheap s) x" using new by (auto simp: al(4))
  moreover have "insert p H \<subseteq> live h" "live h - insert p H = live (dheap s) - H" using al(2,3) sub by auto
  ultimately show "dns_inv (insert p H) C (s\<lparr>dheap := h\<rparr>)" "req_at (s\<lparr>dheap := h\<rparr>) = req_at s"
    by (intro inv_heap [OF assms(1) al(1)]; blast)+
qed

lemma inv_free:
  assumes "dns_inv H C s" and "p \<in> H"
  shows "dns_inv (H - {p}) C (s\<lparr>dheap := ngx_free p (dheap s)\<rparr>)"
    and "req_at (s\<lparr>dheap := ngx_free p (dheap s)\<rparr>) = req_at s"
    and "blocks (ngx_free p (dheap s)) = (blocks (dheap s))(p := None)"
proof -
  from assms have hok: "heap_ok (dheap s)" and sub: "H \<subseteq> live (dheap s)" by (auto simp: dns_inv_def)
  with assms obtain v where v: "blocks (dheap s) p = Some v" by auto
  note fr = free_live [OF hok v]
  show "blocks (ngx_free p (dheap s)) = (blocks (dheap s))(p := None)" by (rule fr)
  have "H - {p} \<subseteq> live (ngx_free p (dheap s))" "live (ngx_free p (dheap s)) - (H - {p}) = live (dheap s) - H"
    using fr sub assms(2) by auto
  note h = inv_heap [OF assms(1) fr(1) _ this]
  show "dns_inv (H - {p}) C (s\<lparr>dheap := ngx_free p (dheap s)\<rparr>)"
    "req_at (s\<lparr>dheap := ngx_free p (dheap s)\<rparr>) = req_at s"
    using assms(2) by (intro h; auto simp: fr)+
qed

text \<open>The same for the contexts an operation holds.\<close>

lemma inv_pending: "dns_inv H C s \<Longrightarrow> c \<in> live (rctxs s) \<Longrightarrow> c \<notin> C \<Longrightarrow> pending_ok s c"
  by (simp add: dns_inv_def)

lemma inv_disjoint: "dns_inv H C s \<Longrightarrow> c \<noteq> d \<Longrightarrow> owned s c \<inter> owned s d = {}"
  and inv_held: "dns_inv H C s \<Longrightarrow> owned s c \<inter> H = {}"
  by (simp_all add: dns_inv_def)

lemma pending_ok_cong:
  "blocks (rctxs t) c = blocks (rctxs s) c \<Longrightarrow> req_at t c = req_at s c \<Longrightarrow> pending_ok t c = pending_ok s c"
  by (simp add: pending_ok_def)

lemma inv_rctxs:
  assumes inv: "dns_inv H C s" and ok: "heap_ok rh"
    and same: "\<And>c. c \<in> live (rctxs s) - C \<Longrightarrow> blocks rh c = blocks (rctxs s) c"
    and idle: "\<And>c. c \<in> C' \<Longrightarrow> \<exists>x. blocks rh c = Some x \<and> rctx_data x = None"
    and rest: "live rh - C' = live (rctxs s) - C"
  shows "dns_inv H C' (s\<lparr>rctxs := rh\<rparr>)" and "req_at (s\<lparr>rctxs := rh\<rparr>) = req_at s"
proof -
  have "req_at (s\<lparr>rctxs := rh\<rparr>) c = req_at s c" for c
  proof (cases "c \<in> live (rctxs s) - C")
    case True
    from same [OF this] show ?thesis by (simp add: req_at_def)
  next
    case False
    then have "req_at s c = None" using inv by (cases "c \<in> C") (auto simp: dns_inv_def req_at_def domIff)
    moreover have "req_at (s\<lparr>rctxs := rh\<rparr>) c = None"
    proof (cases "c \<in> C'")
      case out: False
      with False rest have "c \<notin> live rh" by blast
      then show ?thesis by (simp add: req_at_def domIff)
    qed (use idle [of c] in \<open>auto simp: req_at_def\<close>)
    ultimately show ?thesis by simp
  qed
  then show req: "req_at (s\<lparr>rctxs := rh\<rparr>) = req_at s" by blast
  have "pending_ok (s\<lparr>rctxs := rh\<rparr>) c" if "c \<in> live rh - C'" for c
  proof -
    from that rest have c: "c \<in> live (rctxs s) - C" by simp
    with inv have "pending_ok s c" by (simp add: dns_inv_def)
    with same [OF c] show ?thesis by (simp add: pending_ok_def req)
  qed
  with inv ok idle show "dns_inv H C' (s\<lparr>rctxs := rh\<rparr>)"
    by (simp add: dns_inv_def owned_cong [OF req])
qed

lemma inv_resolve_start:
  assumes "dns_inv H C s" and "ngx_resolve_start env s = (Some c, t)"
  shows "dns_inv H (insert c C) t" and "req_at t = req_at s" and "frame H C s t"
    and "dheap t = dheap s" and "trace t = trace s" and "c \<notin> C"
proof -
  from assms(1) have ok: "heap_ok (rctxs s)" and C: "C \<subseteq> live (rctxs s)" by (auto simp: dns_inv_def)
  from assms(2) obtain rh x where al: "ngx_alloc (env_context env) x (rctxs s) = (Some c, rh)"
      and t: "t = s\<lparr>rctxs := rh\<rparr>" and x: "rctx_data x = None"
    by (auto simp: ngx_resolve_start_def split: prod.splits)
  note a = alloc_Some [OF ok al]
  show new: "c \<notin> C" using a(2) C by blast
  have "\<And>d. d \<in> live (rctxs s) - C \<Longrightarrow> blocks rh d = blocks (rctxs s) d" for d
    using a(2) by (auto simp: a(4))
  moreover have "\<And>d. d \<in> insert c C \<Longrightarrow> \<exists>x. blocks rh d = Some x \<and> rctx_data x = None"
    using assms(1) x new by (auto simp: a(4) dns_inv_def)
  moreover have "live rh - insert c C = live (rctxs s) - C" using a(2,3) by auto
  ultimately have "dns_inv H (insert c C) (s\<lparr>rctxs := rh\<rparr>)" "req_at (s\<lparr>rctxs := rh\<rparr>) = req_at s"
    by (intro inv_rctxs [OF assms(1) a(1), where C' = "insert c C"]; blast)+
  then show "dns_inv H (insert c C) t" "req_at t = req_at s" by (simp_all add: t)
  show "frame H C s t" using new by (simp add: t frame_def a(4))
qed (use assms(2) in \<open>auto simp: ngx_resolve_start_def split: prod.splits\<close>)

lemma inv_name_done:
  assumes "dns_inv H C s" and "c \<in> C"
  shows "dns_inv H (C - {c}) (ngx_resolve_name_done c s)" and "req_at (ngx_resolve_name_done c s) = req_at s"
    and "frame H (C - {c}) s (ngx_resolve_name_done c s)"
    and "dheap (ngx_resolve_name_done c s) = dheap s" and "trace (ngx_resolve_name_done c s) = trace s"
proof -
  from assms obtain x where ok: "heap_ok (rctxs s)" and x: "blocks (rctxs s) c = Some x"
    by (auto simp: dns_inv_def)
  note f = free_live [OF ok x]
  have "dns_inv H (C - {c}) (s\<lparr>rctxs := ngx_free c (rctxs s)\<rparr>)
    \<and> req_at (s\<lparr>rctxs := ngx_free c (rctxs s)\<rparr>) = req_at s"
    using assms by (intro conjI inv_rctxs [OF assms(1) f(1), where C' = "C - {c}"]) (auto simp: f(2,3) dns_inv_def)
  then show "dns_inv H (C - {c}) (ngx_resolve_name_done c s)" "req_at (ngx_resolve_name_done c s) = req_at s"
    by (simp_all add: ngx_resolve_name_done_def)
  show "frame H (C - {c}) s (ngx_resolve_name_done c s)" by (simp add: ngx_resolve_name_done_def frame_def f(3))
qed (simp_all add: ngx_resolve_name_done_def)

text \<open>An operation takes over a pending lookup, and hands one over.\<close>

lemma inv_take:
  assumes inv: "dns_inv H C s" and c: "c \<notin> C" and at: "req_at s c = Some (p, q)"
  shows "dns_inv (H \<union> req_ptrs p q) (insert c C) (set_data c None s)"
    and "req_at (set_data c None s) = (req_at s)(c := None)"
    and "frame (H \<union> req_ptrs p q) C s (set_data c None s)"
    and "dheap (set_data c None s) = dheap s" and "trace (set_data c None s) = trace s"
proof -
  from at obtain x where x: "blocks (rctxs s) c = Some x" by (auto simp: req_at_def bind_eq_Some_conv)
  have ok: "heap_ok (rctxs s)" using inv by (simp add: dns_inv_def)
  let ?t = "set_data c None s"
  have t: "?t = s\<lparr>rctxs := store c (x\<lparr>rctx_data := None\<rparr>) (rctxs s)\<rparr>" by (simp add: set_data_def x)
  note st = store_live [OF ok x, of "x\<lparr>rctx_data := None\<rparr>"]
  show req: "req_at ?t = (req_at s)(c := None)" by (simp add: fun_eq_iff req_at_def t st(3))
  have own: "owned ?t = (owned s)(c := {})" by (simp add: fun_eq_iff owned_def req)
  have mine: "owned s c = req_ptrs p q" by (simp add: owned_def at)
  have "(\<Union>d. owned s d) = (\<Union>d. owned ?t d) \<union> owned s c"
    by (auto simp: own split: if_splits)
  then have "live (dheap s) = (H \<union> req_ptrs p q) \<union> (\<Union>d. owned ?t d)"
    using inv mine by (simp add: dns_inv_def Un_ac)
  moreover have "pending_ok ?t d" if "d \<in> live (rctxs s) - insert c C" for d
    using inv_pending [OF inv, of d] that pending_ok_cong [of ?t d s] by (simp add: req) (simp add: t st(3))
  moreover have "\<forall>d. owned ?t d \<inter> (H \<union> req_ptrs p q) = {}"
    using inv_held [OF inv] inv_disjoint [OF inv, of _ c] by (auto simp: own mine [symmetric])
  moreover have "\<forall>d e. d \<noteq> e \<longrightarrow> owned ?t d \<inter> owned ?t e = {}"
    using inv_disjoint [OF inv] by (simp add: own)
  ultimately show "dns_inv (H \<union> req_ptrs p q) (insert c C) ?t"
    using inv st(1,2) by (auto simp: dns_inv_def t st(3))
  show "frame (H \<union> req_ptrs p q) C s ?t" using c by (simp add: t frame_def st(3))
qed (auto simp: set_data_def split: option.splits)

lemma inv_give:
  assumes inv: "dns_inv H C s" and c: "c \<in> C" and req: "read_req p (dheap s) = Some q"
    and sub: "req_ptrs p q \<subseteq> H" and x: "rctx_data x = Some p" "ready x p q"
  shows "dns_inv (H - req_ptrs p q) (C - {c}) (s\<lparr>rctxs := store c x (rctxs s)\<rparr>)"
    and "req_at (s\<lparr>rctxs := store c x (rctxs s)\<rparr>) = (req_at s)(c \<mapsto> (p, q))"
    and "blocks (store c x (rctxs s)) = (blocks (rctxs s))(c \<mapsto> x)" and "req_at s c = None"
proof -
  from inv c obtain y where y: "blocks (rctxs s) c = Some y" "rctx_data y = None" by (auto simp: dns_inv_def)
  then show none: "req_at s c = None" by (simp add: req_at_def)
  have ok: "heap_ok (rctxs s)" using inv by (simp add: dns_inv_def)
  let ?t = "s\<lparr>rctxs := store c x (rctxs s)\<rparr>"
  note st = store_live [OF ok y(1), of x]
  show "blocks (store c x (rctxs s)) = (blocks (rctxs s))(c \<mapsto> x)" by (rule st)
  show at: "req_at ?t = (req_at s)(c \<mapsto> (p, q))" by (simp add: fun_eq_iff req_at_def st(3) x req)
  have own: "owned ?t = (owned s)(c := req_ptrs p q)" by (simp add: fun_eq_iff owned_def at)
  have "owned s c = {}" by (simp add: owned_def none)
  then have "(\<Union>d. owned ?t d) = (\<Union>d. owned s d) \<union> req_ptrs p q" by (auto simp: own split: if_splits)
  then have "live (dheap s) = (H - req_ptrs p q) \<union> (\<Union>d. owned ?t d)"
    using inv sub by (auto simp: dns_inv_def)
  moreover have "pending_ok ?t d" if "d \<in> live (rctxs s) - (C - {c})" for d
  proof (cases "d = c")
    case True
    then show ?thesis by (simp add: pending_ok_def at st(3) x)
  next
    case False
    then show ?thesis using inv_pending [OF inv, of d] that pending_ok_cong [of ?t d s] by (simp add: at st(3))
  qed
  moreover have "\<forall>d. owned ?t d \<inter> (H - req_ptrs p q) = {}" using inv by (auto simp: dns_inv_def own)
  moreover have "owned s d \<inter> req_ptrs p q = {}" for d using inv_held [OF inv, of d] sub by blast
  then have "\<forall>d e. d \<noteq> e \<longrightarrow> owned ?t d \<inter> owned ?t e = {}"
    using inv_disjoint [OF inv] by (simp add: own Int_commute)
  ultimately show "dns_inv (H - req_ptrs p q) (C - {c}) ?t"
    using inv st(1,2) by (auto simp: dns_inv_def st(3))
qed

text \<open>The release of a request with its buffers.\<close>

lemma release_spec:
  assumes ok: "heap_ok h" and q: "read_req p h = Some q" and d: "req_distinct p q"
    and sub: "req_ptrs p q \<subseteq> live h"
  shows "heap_ok (rn_dns_req_release (Some p) h)"
    and "blocks (rn_dns_req_release (Some p) h) = (\<lambda>b. if b \<in> req_ptrs p q then None else blocks h b)"
proof -
  have step: "heap_ok (case b of None \<Rightarrow> g | Some c \<Rightarrow> write_req p q' (ngx_free c g))
      \<and> blocks (case b of None \<Rightarrow> g | Some c \<Rightarrow> write_req p q' (ngx_free c g)) =
        (case b of None \<Rightarrow> blocks g | Some c \<Rightarrow> (blocks g)(c := None, p \<mapsto> Other (Dns_req q')))"
    if g: "heap_ok g" "read_req p g = Some q0" and b: "b \<noteq> Some p" "set_option b \<subseteq> live g" for g b q0 q'
  proof (cases b)
    case None
    then show ?thesis using g by simp
  next
    case (Some c)
    then obtain v where v: "blocks g c = Some v" using b by auto
    note f = free_live [OF g(1) v]
    have r: "read_req p (ngx_free c g) = Some q0" using g(2) b Some by (simp add: read_req_def f(3))
    then obtain w where "blocks (ngx_free c g) p = Some w" by (auto simp: read_req_def split: option.splits)
    from store_live [OF f(1) this, of "Other (Dns_req q')"] r show ?thesis
      by (simp add: Some write_req_def f(3))
  qed
  let ?q1 = "q\<lparr>name_buf := None\<rparr>"
  let ?h1 = "case name_buf q of None \<Rightarrow> h | Some b \<Rightarrow> write_req p ?q1 (ngx_free b h)"
  let ?h2 = "case service_buf q of None \<Rightarrow> ?h1 | Some b \<Rightarrow> write_req p (?q1\<lparr>service_buf := None\<rparr>) (ngx_free b ?h1)"
  have bufs: "name_buf q \<noteq> Some p" "service_buf q \<noteq> Some p" "name_buf q = service_buf q \<Longrightarrow> name_buf q = None"
    using d by (auto simp: req_distinct_def)
  have h1: "heap_ok ?h1" "blocks ?h1 = (case name_buf q of None \<Rightarrow> blocks h
      | Some c \<Rightarrow> (blocks h)(c := None, p \<mapsto> Other (Dns_req ?q1)))"
    using step [OF ok q bufs(1), of ?q1] sub by (auto simp: req_ptrs_def)
  have r1: "\<exists>q1. read_req p ?h1 = Some q1" using q h1(2) by (cases "name_buf q") (auto simp: read_req_def)
  then obtain q1 where q1: "read_req p ?h1 = Some q1" ..
  have "set_option (service_buf q) \<subseteq> live ?h1"
    using sub bufs by (auto simp: req_ptrs_def h1(2) split: option.splits)
  note h2 = step [OF h1(1) q1 bufs(2) this, of "?q1\<lparr>service_buf := None\<rparr>"]
  obtain v where v: "blocks ?h2 p = Some v"
    using h2 h1(2) q bufs by (cases "service_buf q"; cases "name_buf q") (auto simp: read_req_def split: option.splits)
  note f = free_live [OF conjunct1 [OF h2] v]
  have rel: "rn_dns_req_release (Some p) h = ngx_free p ?h2"
    by (simp add: rn_dns_req_release_def q Let_def)
  show "heap_ok (rn_dns_req_release (Some p) h)" unfolding rel by (rule f)
  show "blocks (rn_dns_req_release (Some p) h) = (\<lambda>b. if b \<in> req_ptrs p q then None else blocks h b)"
    unfolding rel f(3) conjunct2 [OF h2] h1(2)
    by (cases "service_buf q"; cases "name_buf q") (auto simp: req_ptrs_def fun_eq_iff)
qed

lemma inv_release_req:
  assumes "dns_inv H C s" and "read_req p (dheap s) = Some q" and "req_distinct p q" and "req_ptrs p q \<subseteq> H"
  shows "dns_inv (H - req_ptrs p q) C (s\<lparr>dheap := rn_dns_req_release (Some p) (dheap s)\<rparr>)"
    and "req_at (s\<lparr>dheap := rn_dns_req_release (Some p) (dheap s)\<rparr>) = req_at s"
    and "frame (H - req_ptrs p q) C s (s\<lparr>dheap := rn_dns_req_release (Some p) (dheap s)\<rparr>)"
proof -
  have ok: "heap_ok (dheap s)" and sub: "H \<subseteq> live (dheap s)" using assms(1) by (auto simp: dns_inv_def)
  note r = release_spec [OF ok assms(2,3) subset_trans [OF assms(4) sub]]
  let ?h = "rn_dns_req_release (Some p) (dheap s)"
  have "\<And>x. x \<in> live (dheap s) - H \<Longrightarrow> blocks ?h x = blocks (dheap s) x" using assms(4) by (auto simp: r(2))
  moreover have "H - req_ptrs p q \<subseteq> live ?h" "live ?h - (H - req_ptrs p q) = live (dheap s) - H"
    using assms(4) sub by (auto simp: r(2) dom_def split: if_splits)
  ultimately show "dns_inv (H - req_ptrs p q) C (s\<lparr>dheap := ?h\<rparr>)" "req_at (s\<lparr>dheap := ?h\<rparr>) = req_at s"
    by (intro inv_heap [OF assms(1) r(1)]; blast)+
  show "frame (H - req_ptrs p q) C s (s\<lparr>dheap := ?h\<rparr>)" by (simp add: frame_def r(2))
qed

end
