(* ===== verification/Dns_Answers.thy ===== *)
theory Dns_Answers
  imports Dns_Owner
begin

text \<open>
  The two handlers of the resolver: each makes exactly one callback for the lookup it answers,
  and every block it allocated for the callback's arguments is released after it, whatever the
  client does in between.
\<close>

subsection \<open>The answers\<close>

text \<open>
  One callback for the user, and otherwise nothing outside what the operation holds; a client that
  only records leaves the pending lookups alone.
\<close>

definition serves :: "client_code \<Rightarrow> ptr set \<Rightarrow> ptr set \<Rightarrow> nat \<Rightarrow> dns_state \<Rightarrow> dns_state \<Rightarrow> bool" where
  "serves k H C user s t \<longleftrightarrow> dns_inv H C t \<and> frame H C s t \<and> debt t = (debt s)(user := debt s user - 1)
     \<and> (k = (\<lambda>s. s) \<longrightarrow> req_at t = req_at s)"

lemma call_back_serves:
  assumes "client_ok k" and "dns_inv H C s"
  shows "serves k H C user s (call_back k cb user result s)"
proof -
  let ?t = "s\<lparr>trace := Called cb user result # trace s\<rparr>"
  have "dns_inv H C ?t" using assms(2) by simp
  note k = client_okD [OF assms(1) this]
  have "debt ?t = (debt s)(user := debt s user - 1)"
    by (auto simp: fun_eq_iff debt_called)
  then show ?thesis using k by (simp add: serves_def call_back_def)
qed

definition unseen :: "dns_state \<Rightarrow> dns_state \<Rightarrow> bool" where
  "unseen s t \<longleftrightarrow> req_at t = req_at s \<and> trace t = trace s"

lemma unseenI: "req_at t = req_at s \<Longrightarrow> trace t = trace s \<Longrightarrow> unseen s t"
  by (simp add: unseen_def)

lemma unseen_debt: "unseen s t \<Longrightarrow> debt t = debt s"
  by (rule debt_cong) (simp_all add: unseen_def)

lemma serves_after:
  assumes "serves k H' C user s' t" and "H \<subseteq> H'" and "frame H C s s'" and "unseen s s'"
    and "dns_inv H C u" and "frame H C t u" and "unseen t u"
  shows "serves k H C user s u"
proof -
  have "frame H' C s' t" using assms(1) by (simp add: serves_def)
  then have "frame H C s' t" using assms(2) by (rule frame_mono) simp
  note fr = frame_trans [OF frame_trans [OF assms(3) this] assms(6)]
  have "debt u = (debt s)(user := debt s user - 1)"
    using assms(1) unseen_debt [OF assms(4)] unseen_debt [OF assms(7)] by (simp add: serves_def)
  moreover have "k = (\<lambda>s. s) \<longrightarrow> req_at u = req_at s" using assms(1,4,7) by (simp add: serves_def unseen_def)
  ultimately show ?thesis using fr assms(5) by (simp add: serves_def)
qed

text \<open>The records of an answer survive whatever the callback does.\<close>

lemma built_transfer:
  assumes b: "built h r t rs ts qs cs h'" and ok: "heap_ok g"
    and same: "\<And>p. p \<in> set (r # t # qs) \<Longrightarrow> blocks g p = blocks h' p"
  shows "built (g\<lparr>blocks := (\<lambda>p. if p \<in> set (r # t # qs) then None else blocks g p)\<rparr>) r t rs ts qs cs g"
proof -
  let ?m = "map_of (zip qs (map Cstr cs))"
  have len: "length cs = length qs" and d: "distinct (r # t # qs)" using b by (simp_all add: built_def)
  have dom: "dom ?m = set qs" using len by simp
  have h': "blocks h' = (blocks h ++ ?m)(r \<mapsto> Records rs, t \<mapsto> Targets ts)" using b by (simp add: built_def)
  let ?f = "\<lambda>p. if p \<in> set (r # t # qs) then None else blocks g p"
  have "blocks g p = ((?f ++ ?m)(r \<mapsto> Records rs, t \<mapsto> Targets ts)) p" for p
  proof (cases "p \<in> set (r # t # qs)")
    case True
    then have "blocks g p = blocks h' p" by (rule same)
    also have "\<dots> = ((?f ++ ?m)(r \<mapsto> Records rs, t \<mapsto> Targets ts)) p"
      using True dom by (auto simp: h' map_add_def split: option.splits)
    finally show ?thesis .
  next
    case False
    then have "?m p = None" using dom by auto
    with False show ?thesis by (simp add: map_add_def)
  qed
  then show ?thesis using d len ok by (auto simp: built_def fun_eq_iff)
qed

text \<open>What a build adds to the heap is held by the handler and given back after the callback.\<close>

lemma inv_built:
  assumes inv: "dns_inv H C s" and b: "built (dheap s) r t rs ts qs cs h"
  shows "dns_inv (set (r # t # qs) \<union> H) C (s\<lparr>dheap := h\<rparr>)" and "req_at (s\<lparr>dheap := h\<rparr>) = req_at s"
    and "frame H C s (s\<lparr>dheap := h\<rparr>)" and "set (r # t # qs) \<inter> live (dheap s) = {}"
proof -
  let ?B = "set (r # t # qs)"
  have H: "H \<subseteq> live (dheap s)" using inv by (auto simp: dns_inv_def)
  show new: "?B \<inter> live (dheap s) = {}" using b by (simp add: built_def)
  have old: "blocks h p = blocks (dheap s) p" if "p \<notin> ?B" for p
    using fun_cong [OF built_blocks_back [OF b], of p] that by simp
  have keep: "x \<notin> ?B \<and> x \<in> live h" if "x \<in> live (dheap s)" for x
  proof -
    have x: "x \<notin> ?B" using new that by blast
    with old [OF x] that show ?thesis by (simp add: domIff)
  qed
  have "?B \<union> H \<subseteq> live h" using built_live [OF b] H keep by blast
  moreover have "live h - ?B \<subseteq> live (dheap s)" using old by (auto simp: domIff)
  then have "live h - (?B \<union> H) = live (dheap s) - H" using keep by blast
  moreover have "\<And>p. p \<in> live (dheap s) - H \<Longrightarrow> blocks h p = blocks (dheap s) p" using new by (intro old) blast
  moreover have "heap_ok h" using b by (simp add: built_def)
  ultimately show "dns_inv (?B \<union> H) C (s\<lparr>dheap := h\<rparr>)" "req_at (s\<lparr>dheap := h\<rparr>) = req_at s"
    by (intro inv_heap [OF inv]; blast)+
  have "\<forall>p \<in> H. blocks h p = blocks (dheap s) p" using H keep old by blast
  then show "frame H C s (s\<lparr>dheap := h\<rparr>)" by (simp add: frame_def)
qed

lemma inv_unbuild:
  assumes inv: "dns_inv (set (r # t # qs) \<union> H) C s" and b: "built h0 r t rs (map Some qs) qs cs h"
    and same: "\<And>p. p \<in> set (r # t # qs) \<Longrightarrow> blocks (dheap s) p = blocks h p"
    and new: "set (r # t # qs) \<inter> H = {}"
    and h': "h' = snd (rn_srv_records_free
      (Some \<lparr>records = Some r, targets = Some t, count = length qs\<rparr>) (Some rn_srv_ngx_free) (dheap s))"
  shows "dns_inv H C (s\<lparr>dheap := h'\<rparr>)" and "req_at (s\<lparr>dheap := h'\<rparr>) = req_at s"
    and "frame H C s (s\<lparr>dheap := h'\<rparr>)"
proof -
  let ?B = "set (r # t # qs)"
  have ok: "heap_ok (dheap s)" and H: "?B \<union> H \<subseteq> live (dheap s)" using inv by (auto simp: dns_inv_def)
  from built_transfer [OF b ok same] have "built ((dheap s)\<lparr>blocks := (\<lambda>p. if p \<in> ?B then None
      else blocks (dheap s) p)\<rparr>) r t rs (map Some qs) qs cs (dheap s)" .
  from srv_heap.free_spec [OF this] have f: "heap_ok h'" "blocks h' = (\<lambda>p. if p \<in> ?B then None else blocks (dheap s) p)"
    by (simp_all add: h')
  have "H \<subseteq> live h'" "live h' - H = live (dheap s) - (?B \<union> H)"
    using H new by (auto simp: f(2) dom_def split: if_splits)
  moreover have "\<And>p. p \<in> live (dheap s) - (?B \<union> H) \<Longrightarrow> blocks h' p = blocks (dheap s) p" by (simp add: f(2))
  ultimately show "dns_inv H C (s\<lparr>dheap := h'\<rparr>)" "req_at (s\<lparr>dheap := h'\<rparr>) = req_at s"
    by (intro inv_heap [OF inv f(1)]; blast)+
  show "frame H C s (s\<lparr>dheap := h'\<rparr>)" using new by (auto simp: frame_def f(2))
qed

text \<open>
  A handler's own array: allocated and filled before the callback, freed after it.
\<close>

lemma serves_array:
  assumes inv: "dns_inv H C s" and al: "ngx_alloc ok Uninit (dheap s) = (Some p, h1)"
    and body: "dns_inv (insert p H) C (s\<lparr>dheap := store p v h1\<rparr>) \<Longrightarrow>
      serves k (insert p H) C user (s\<lparr>dheap := store p v h1\<rparr>) t"
  shows "serves k H C user s (t\<lparr>dheap := ngx_free p (dheap t)\<rparr>)"
proof -
  note a = inv_alloc [OF inv al]
  note st = inv_store [OF a(1), of p v]
  let ?s = "s\<lparr>dheap := store p v h1\<rparr>"
  have inv1: "dns_inv (insert p H) C ?s" and r1: "req_at ?s = req_at s"
    and b1: "blocks (store p v h1) = (blocks (dheap s))(p \<mapsto> v)" using st a(2,5) by simp_all
  have fr: "frame H C s ?s" using a(4) by (simp add: frame_def b1)
  have body': "serves k (insert p H) C user ?s t" by (rule body [OF inv1])
  then have t: "dns_inv (insert p H) C t" by (simp add: serves_def)
  note f = inv_free [OF t, of p]
  have "insert p H - {p} = H" using a(4) by blast
  with f(1) have inv': "dns_inv H C (t\<lparr>dheap := ngx_free p (dheap t)\<rparr>)" by simp
  have fr': "frame H C t (t\<lparr>dheap := ngx_free p (dheap t)\<rparr>)" using a(4) f(3) by (auto simp: frame_def)
  have "unseen t (t\<lparr>dheap := ngx_free p (dheap t)\<rparr>)" using f(2) by (intro unseenI) simp_all
  from serves_after [OF body' subset_insertI fr unseenI [OF r1] inv' fr' this] show ?thesis by simp
qed

lemma build_cases:
  assumes "heap_ok h" and "rn_srv_records_build rec_size (Some srcs) (Some (rn_srv_ngx_alloc answers))
    (Some rn_srv_ngx_free) (Some out0) h = (rc, result, h')"
  obtains (no) "rc = -1" "result = Some zero_records" "heap_ok h'" "blocks h' = blocks h"
  | (yes) r t qs where "rc = 0" "result = Some \<lparr>records = Some r, targets = Some t, count = length qs\<rparr>"
      "built h r t (map2 record_of srcs qs) (map Some qs) qs (map (\<lambda>src. the (src_target src) @ [nul]) srcs) h'"
      "length qs = length srcs"
proof -
  note spec = srv_heap.build_spec [OF assms]
  show thesis
  proof (cases "rc = 0")
    case False
    with spec show thesis by (intro no) auto
  next
    case True
    with spec obtain r t qs where "length qs = length srcs"
      "result = Some \<lparr>records = Some r, targets = Some t, count = length srcs\<rparr>"
      "built h r t (map2 record_of srcs qs) (map Some qs) qs (map (\<lambda>src. the (src_target src) @ [nul]) srcs) h'"
      by auto
    with True show thesis by (intro yes [of r t qs]) simp_all
  qed
qed

text \<open>Building the records, the callback, and the release of the records.\<close>

lemma build_serves:
  assumes k: "client_ok k" and inv2: "dns_inv B C s"
    and build: "rn_srv_records_build rec_size (Some srcs) (Some (rn_srv_ngx_alloc answers))
      (Some rn_srv_ngx_free) (Some out0) (dheap s) = (rc, result, h3)"
    and s4: "s4 = (if rc \<noteq> 0 then call_back k cb user Lookup_failed (s\<lparr>dheap := h3\<rparr>)
      else call_back k cb user (Srv_found (read_records (the result) h3)) (s\<lparr>dheap := h3\<rparr>))"
  shows "serves k B C user s (s4\<lparr>dheap := snd (rn_srv_records_free result (Some rn_srv_ngx_free) (dheap s4))\<rparr>)"
proof -
  let ?s3 = "s\<lparr>dheap := h3\<rparr>"
  let ?t = "s4\<lparr>dheap := snd (rn_srv_records_free result (Some rn_srv_ngx_free) (dheap s4))\<rparr>"
  have ok2: "heap_ok (dheap s)" using inv2 by (simp add: dns_inv_def)
  consider (no) "rc = -1" "result = Some zero_records" "heap_ok h3" "blocks h3 = blocks (dheap s)"
    | (yes) r t qs where "rc = 0" "result = Some \<lparr>records = Some r, targets = Some t, count = length qs\<rparr>"
        "built (dheap s) r t (map2 record_of srcs qs) (map Some qs) qs
          (map (\<lambda>src. the (src_target src) @ [nul]) srcs) h3"
      "length qs = length srcs"
    using build_cases [OF ok2 build] by blast
  then show "serves k B C user s ?t"
  proof cases
    case no
    have "B \<subseteq> live h3" using inv2 by (auto simp: dns_inv_def no(4))
    note h = inv_heap [OF inv2 no(3) _ this]
    have inv3: "dns_inv B C ?s3" and r3: "req_at ?s3 = req_at s"
      using h by (simp_all add: no(4))
    have "?t = call_back k cb user Lookup_failed ?s3"
      by (simp add: s4 no rn_srv_records_free_def zero_records_def)
    moreover have "serves k B C user ?s3 (call_back k cb user Lookup_failed ?s3)"
      by (rule call_back_serves [OF k inv3])
    ultimately show ?thesis
      using debt_cong [OF r3] r3 by (simp add: serves_def frame_def no(4))
  next
    case yes
    have b: "built (dheap s) r t (map2 record_of srcs qs) (map Some qs) qs
        (map (\<lambda>src. the (src_target src) @ [nul]) srcs) h3" using yes(3) by simp
    note bt = inv_built [OF inv2 b]
    let ?r = "Srv_found (read_records (the result) h3)"
    have cb: "serves k (set (r # t # qs) \<union> B) C user ?s3 (call_back k cb user ?r ?s3)"
      by (rule call_back_serves [OF k bt(1)])
    let ?u = "call_back k cb user ?r ?s3"
    have u: "dns_inv (set (r # t # qs) \<union> B) C ?u" using cb by (simp add: serves_def)
    have same: "blocks (dheap ?u) x = blocks h3 x" if "x \<in> set (r # t # qs)" for x
    proof -
      have "frame (set (r # t # qs) \<union> B) C ?s3 ?u" using cb by (simp only: serves_def)
      from frameD(1) [OF this UnI1 [OF that]] show ?thesis by simp
    qed
    have new: "set (r # t # qs) \<inter> B = {}" using bt(4) inv2 by (auto simp: dns_inv_def)
    note ub = inv_unbuild [OF u b same new refl]
    have t: "?t = ?u\<lparr>dheap := snd (rn_srv_records_free
        (Some \<lparr>records = Some r, targets = Some t, count = length qs\<rparr>) (Some rn_srv_ngx_free) (dheap ?u))\<rparr>"
      by (simp add: s4 yes(1,2))
    show ?thesis unfolding t
      by (rule serves_after [OF cb Un_upper2 bt(3) unseenI [OF bt(2)]
            ub(1,3) unseenI [OF ub(2)]]) simp_all
  qed
qed

lemma answer_srv_serves:
  assumes k: "client_ok k" and inv: "dns_inv H C s"
  shows "serves k H C user s (answer_srv k a cb user s)"
proof -
  let ?n = "length (ans_srvs a)"
  let ?sources = "map (source_of (answer_ttl_ms a)) (ans_srvs a)"
  obtain q h1 where al: "ngx_alloc (ans_mem a (?n * sizeof_srv_source) (dheap s)) Uninit (dheap s) = (q, h1)"
    by fastforce
  consider (fail) "answer_srv k a cb user s = call_back k cb user Lookup_failed s"
    | (go) p where "q = Some p" "ans_state_ok a" "?n \<noteq> 0" "\<not> ?n > SIZE_MAX div sizeof_srv_source"
  proof (cases "ans_state_ok a \<and> ?n \<noteq> 0 \<and> \<not> ?n > SIZE_MAX div sizeof_srv_source")
    case True
    show thesis
    proof (cases q)
      case None
      with al have "h1 = dheap s" by simp
      with True al None show thesis by (intro fail) (simp add: answer_srv_def Let_def)
    qed (use True go in blast)
  next
    case False
    then show thesis by (intro fail) (auto simp: answer_srv_def Let_def)
  qed
  then show ?thesis
  proof cases
    case fail
    then show ?thesis using call_back_serves [OF k inv] by simp
  next
    case go
    let ?h2 = "store p (Other (Srv_sources ?sources)) h1"
    obtain rc result h3 where build: "rn_srv_records_build (srv_record_size a) (Some ?sources)
        (Some (rn_srv_ngx_alloc (ans_mem a))) (Some rn_srv_ngx_free) (Some zero_records) ?h2 = (rc, result, h3)"
      by (metis prod_cases3)
    let ?s3 = "s\<lparr>dheap := h3\<rparr>"
    let ?s4 = "if rc \<noteq> 0 then call_back k cb user Lookup_failed ?s3
      else call_back k cb user (Srv_found (read_records (the result) h3)) ?s3"
    let ?t = "?s4\<lparr>dheap := snd (rn_srv_records_free result (Some rn_srv_ngx_free) (dheap ?s4))\<rparr>"
    have run: "answer_srv k a cb user s = ?t\<lparr>dheap := ngx_free p (dheap ?t)\<rparr>"
      using al go build by (simp add: answer_srv_def Let_def)
    show ?thesis unfolding run
    proof (rule serves_array [OF inv al [unfolded go(1)], where v = "Other (Srv_sources ?sources)"])
      let ?s2 = "s\<lparr>dheap := ?h2\<rparr>"
      assume inv2: "dns_inv (insert p H) C ?s2"
      have build': "rn_srv_records_build (srv_record_size a) (Some ?sources)
        (Some (rn_srv_ngx_alloc (ans_mem a))) (Some rn_srv_ngx_free) (Some zero_records) (dheap ?s2) = (rc, result, h3)"
        using build by simp
      have s3: "?s2\<lparr>dheap := h3\<rparr> = ?s3" by simp
      show "serves k (insert p H) C user ?s2 ?t"
        by (rule build_serves [OF k inv2 build', where cb = cb]) (simp only: s3)
    qed
  qed
qed

subsection \<open>Address answers\<close>

text \<open>Optional blocks: what an allocation that may fail adds, and what \<open>free_if\<close> removes.\<close>

lemma inv_alloc_opt:
  assumes "dns_inv H C s" and "ngx_alloc ok v (dheap s) = (d, h)"
  shows "dns_inv (set_option d \<union> H) C (s\<lparr>dheap := h\<rparr>)" and "req_at (s\<lparr>dheap := h\<rparr>) = req_at s"
    and "set_option d \<inter> H = {}" and "frame H C s (s\<lparr>dheap := h\<rparr>)"
proof -
  have "dns_inv (set_option d \<union> H) C (s\<lparr>dheap := h\<rparr>) \<and> req_at (s\<lparr>dheap := h\<rparr>) = req_at s
    \<and> set_option d \<inter> H = {} \<and> frame H C s (s\<lparr>dheap := h\<rparr>)"
  proof (cases d)
    case None
    with assms show ?thesis by simp
  next
    case (Some p)
    note a = inv_alloc [OF assms(1) assms(2) [unfolded Some]]
    from a Some show ?thesis by (auto simp: frame_def)
  qed
  then show "dns_inv (set_option d \<union> H) C (s\<lparr>dheap := h\<rparr>)" "req_at (s\<lparr>dheap := h\<rparr>) = req_at s"
    "set_option d \<inter> H = {}" "frame H C s (s\<lparr>dheap := h\<rparr>)" by simp_all
qed

lemma inv_free_if:
  assumes "dns_inv (set_option d \<union> H) C s" and "set_option d \<inter> H = {}"
  shows "dns_inv H C (s\<lparr>dheap := free_if d (dheap s)\<rparr>)" and "req_at (s\<lparr>dheap := free_if d (dheap s)\<rparr>) = req_at s"
    and "frame H C s (s\<lparr>dheap := free_if d (dheap s)\<rparr>)"
proof -
  have "dns_inv H C (s\<lparr>dheap := free_if d (dheap s)\<rparr>) \<and> req_at (s\<lparr>dheap := free_if d (dheap s)\<rparr>) = req_at s
    \<and> frame H C s (s\<lparr>dheap := free_if d (dheap s)\<rparr>)"
  proof (cases d)
    case None
    with assms show ?thesis by simp
  next
    case (Some p)
    with assms have inv: "dns_inv (insert p H) C s" and p: "p \<notin> H" by simp_all
    note f = inv_free [OF inv, of p]
    have "insert p H - {p} = H" using p by blast
    with f Some p show ?thesis by (auto simp: frame_def)
  qed
  then show "dns_inv H C (s\<lparr>dheap := free_if d (dheap s)\<rparr>)"
    "req_at (s\<lparr>dheap := free_if d (dheap s)\<rparr>) = req_at s" "frame H C s (s\<lparr>dheap := free_if d (dheap s)\<rparr>)" by simp_all
qed

definition answer_ok :: "dns_answer \<Rightarrow> bool" where
  "answer_ok a \<longleftrightarrow> list_all readable (map addr_source_of (ans_addrs a))"

text \<open>The callback of an address answer, with both arrays in the heap if they were allocated.\<close>

definition addr_callback ::
  "client_code \<Rightarrow> dns_answer \<Rightarrow> nat \<Rightarrow> nat \<Rightarrow> ptr option \<Rightarrow> ptr option \<Rightarrow> dns_state \<Rightarrow> dns_state" where
  "addr_callback k a cb user addrs sources s =
     (let ss = map addr_source_of (ans_addrs a); n = length (ans_addrs a);
        xs = map addr_of (filter copyable ss);
        s4 = (case (addrs, sources) of
          (Some d, Some p) \<Rightarrow> s\<lparr>dheap := store d (Other (Addrs (xs @ drop (length xs) (replicate n zero_addr))))
            (store p (Other (Addr_sources ss)) (dheap s))\<rparr>
        | _ \<Rightarrow> s)
      in call_back k cb user (if addrs = None \<or> sources = None \<or> xs = [] then Lookup_failed else Addr_found xs) s4)"

lemma answer_addr_eq:
  assumes "answer_ok a" and "ans_state_ok a" and "ans_addrs a \<noteq> []"
    and "\<not> length (ans_addrs a) > SIZE_MAX div addr_size a"
    and "\<not> length (ans_addrs a) > SIZE_MAX div sizeof_addr_source"
    and "ngx_alloc (ans_mem a (length (ans_addrs a) * addr_size a) (dheap s)) Uninit (dheap s) = (addrs, h1)"
    and "ngx_alloc (ans_mem a (length (ans_addrs a) * sizeof_addr_source) h1) Uninit h1 = (sources, h2)"
  shows "answer_addr k a cb user s =
    (let t = addr_callback k a cb user addrs sources (s\<lparr>dheap := h2\<rparr>)
     in t\<lparr>dheap := free_if addrs (free_if sources (dheap t))\<rparr>)"
proof -
  let ?n = "length (ans_addrs a)"
  let ?buf = "replicate ?n zero_addr"
  define ss where "ss = map addr_source_of (ans_addrs a)"
  define xs where "xs = map addr_of (filter copyable ss)"
  have "take ?n xs = xs" by (simp add: xs_def ss_def)
  then have comp: "rn_addr_records_compact (Some ss) (Some ?buf) ?n = Some (length xs, Some (xs @ drop (length xs) ?buf))"
    using compact_spec [of ss ?n ?buf] assms(1) by (simp add: answer_ok_def ss_def [symmetric] xs_def Let_def)
  have "take (length xs) (xs @ drop (length xs) ?buf) = xs" by simp
  with assms(2-) show ?thesis
    unfolding answer_addr_def addr_callback_def Let_def ss_def [symmetric] xs_def [symmetric] comp
    by (cases addrs; cases sources) (simp_all del: take_append drop_replicate)
qed

lemma addr_callback_serves:
  assumes k: "client_ok k" and inv: "dns_inv B C s"
    and sub: "set_option addrs \<union> set_option sources \<subseteq> B" and out: "(set_option addrs \<union> set_option sources) \<inter> H = {}"
  obtains s4 where "serves k B C user s4 (addr_callback k a cb user addrs sources s)"
    and "frame H C s s4" and "unseen s s4"
proof -
  let ?ss = "map addr_source_of (ans_addrs a)"
  let ?xs = "map addr_of (filter copyable ?ss)"
  let ?buf = "?xs @ drop (length ?xs) (replicate (length (ans_addrs a)) zero_addr)"
  show thesis
  proof (cases "addrs = None \<or> sources = None")
    case True
    then have "addr_callback k a cb user addrs sources s = call_back k cb user Lookup_failed s"
      by (cases addrs) (auto simp: addr_callback_def Let_def)
    then show thesis using that [of s] call_back_serves [OF k inv] by (simp add: unseen_def)
  next
    case False
    then obtain d p where dp: "addrs = Some d" "sources = Some p" by auto
    let ?s1 = "s\<lparr>dheap := store p (Other (Addr_sources ?ss)) (dheap s)\<rparr>"
    let ?s4 = "s\<lparr>dheap := store d (Other (Addrs ?buf)) (store p (Other (Addr_sources ?ss)) (dheap s))\<rparr>"
    have mem: "p \<in> B" "d \<in> B" and out': "p \<notin> H" "d \<notin> H" using sub out dp by auto
    note st1 = inv_store [OF inv mem(1), of "Other (Addr_sources ?ss)"]
    note st2 = inv_store [OF st1(1) mem(2), of "Other (Addrs ?buf)"]
    have s4: "?s1\<lparr>dheap := store d (Other (Addrs ?buf)) (dheap ?s1)\<rparr> = ?s4" by simp
    have inv4: "dns_inv B C ?s4" and r4: "req_at ?s4 = req_at s"
      using st2(1,2) st1(2) unfolding s4 by simp_all
    have "frame H C s ?s4" using st2(3) st1(3) out' by (auto simp: frame_def)
    moreover have "addr_callback k a cb user addrs sources s =
      call_back k cb user (if ?xs = [] then Lookup_failed else Addr_found ?xs) ?s4"
      by (simp add: addr_callback_def Let_def dp)
    ultimately show thesis
      using that [of ?s4] call_back_serves [OF k inv4] unseenI [OF r4] by simp
  qed
qed

lemma answer_addr_serves:
  assumes k: "client_ok k" and inv: "dns_inv H C s" and ok: "answer_ok a"
  shows "serves k H C user s (answer_addr k a cb user s)"
proof (cases "\<not> ans_state_ok a \<or> ans_addrs a = [] \<or> length (ans_addrs a) > SIZE_MAX div addr_size a
    \<or> length (ans_addrs a) > SIZE_MAX div sizeof_addr_source")
  case True
  then have "answer_addr k a cb user s = call_back k cb user Lookup_failed s"
    by (auto simp: answer_addr_def Let_def)
  then show ?thesis using call_back_serves [OF k inv] by simp
next
  case False
  obtain d h1 where al1: "ngx_alloc (ans_mem a (length (ans_addrs a) * addr_size a) (dheap s)) Uninit (dheap s) = (d, h1)"
    by fastforce
  obtain p h2 where al2: "ngx_alloc (ans_mem a (length (ans_addrs a) * sizeof_addr_source) h1) Uninit h1 = (p, h2)"
    by fastforce
  note a1 = inv_alloc_opt [OF inv al1]
  have al2': "ngx_alloc (ans_mem a (length (ans_addrs a) * sizeof_addr_source) h1) Uninit
    (dheap (s\<lparr>dheap := h1\<rparr>)) = (p, h2)" using al2 by simp
  note a2 = inv_alloc_opt [OF a1(1) al2']
  let ?B = "set_option p \<union> (set_option d \<union> H)"
  let ?s2 = "s\<lparr>dheap := h2\<rparr>"
  have inv2: "dns_inv ?B C ?s2" and r2: "req_at ?s2 = req_at s" using a1 a2 by simp_all
  have f2: "frame H C s ?s2"
    using frame_trans [OF a1(4) frame_mono [OF a2(4), of H C]] by simp
  let ?t = "addr_callback k a cb user d p ?s2"
  have sub: "set_option d \<union> set_option p \<subseteq> ?B" and out: "(set_option d \<union> set_option p) \<inter> H = {}"
    using a1(3) a2(3) by blast+
  obtain s4 where s4: "serves k ?B C user s4 ?t" and f4: "frame H C ?s2 s4" and d4: "unseen ?s2 s4"
    by (rule addr_callback_serves [OF k inv2 sub out])
  have "dns_inv ?B C ?t" using s4 by (simp only: serves_def)
  note u1 = inv_free_if [OF this a2(3)]
  note u2 = inv_free_if [OF u1(1) a1(3)]
  let ?u = "?t\<lparr>dheap := free_if d (free_if p (dheap ?t))\<rparr>"
  have inv_u: "dns_inv H C ?u" and ru: "req_at ?u = req_at ?t" using u1(2) u2(1,2) by simp_all
  have fu: "frame H C ?t ?u" using frame_trans [OF frame_mono [OF u1(3), of H C] u2(3)] by simp
  have "answer_addr k a cb user s = ?u"
    using answer_addr_eq [OF ok _ _ _ _ al1 al2] False by (simp add: Let_def)
  moreover have "serves k H C user s ?u"
    by (rule serves_after [OF s4 _ frame_trans [OF f2 f4] _ inv_u fu unseenI [OF ru]])
      (use d4 r2 in \<open>auto simp: unseen_def\<close>)
  ultimately show ?thesis by simp
qed

subsection \<open>The handlers\<close>

text \<open>
  A handler runs on a context the operation holds, whose request it holds too: it makes the one
  callback of the request and retires the context.
\<close>

definition answered :: "client_code \<Rightarrow> (nat \<Rightarrow> nat \<Rightarrow> dns_state \<Rightarrow> dns_state) \<Rightarrow> bool" where
  "answered k body \<longleftrightarrow> (\<forall>H C s cb user. dns_inv H C s \<longrightarrow> serves k H C user s (body cb user s))"

lemma set_complete:
  assumes inv: "dns_inv H C s" and p: "p \<in> H" and q: "read_req p (dheap s) = Some q"
  shows "dns_inv H C (complete_req p s)" and "req_at (complete_req p s) = req_at s"
    and "blocks (dheap (complete_req p s)) =
      (blocks (dheap s))(p \<mapsto> Other (Dns_req (q\<lparr>start_state := complete_state (start_state q)\<rparr>)))"
    and "rctxs (complete_req p s) = rctxs s" and "trace (complete_req p s) = trace s"
proof -
  let ?v = "Other (Dns_req (q\<lparr>start_state := complete_state (start_state q)\<rparr>))"
  have "complete_req p s = s\<lparr>dheap := store p ?v (dheap s)\<rparr>" by (simp add: complete_req_def write_req_def q)
  with inv_store [OF inv p, of ?v]
  show "dns_inv H C (complete_req p s)" "req_at (complete_req p s) = req_at s"
    "blocks (dheap (complete_req p s)) = (blocks (dheap s))(p \<mapsto> ?v)"
    "rctxs (complete_req p s) = rctxs s" "trace (complete_req p s) = trace s" by simp_all
qed

lemma req_ptrs_state [simp]: "req_ptrs p (q\<lparr>start_state := st\<rparr>) = req_ptrs p q"
  and req_distinct_state [simp]: "req_distinct p (q\<lparr>start_state := st\<rparr>) = req_distinct p q"
  by (simp_all add: req_ptrs_def req_distinct_def)

lemma req_ptrs_self [simp]: "p \<in> req_ptrs p q"
  by (simp add: req_ptrs_def)

lemma handler_tail:
  assumes body: "answered k body" and inv: "dns_inv B C s" and c: "c \<in> C"
    and q: "read_req p (dheap s) = Some q" and d: "req_distinct p q" and sub: "req_ptrs p q \<subseteq> B"
    and B': "B' = (if starting (start_state q) then B else B - req_ptrs p q)"
  shows "serves k B' (C - {c}) user s (end_handler c p (body cb user s))"
    and "starting (start_state q) \<Longrightarrow> read_req p (dheap (end_handler c p (body cb user s))) = Some q"
proof -
  let ?t = "body cb user s"
  have t: "serves k B C user s ?t" using body inv by (simp add: answered_def)
  then have inv_t: "dns_inv B C ?t" and fr: "frame B C s ?t" by (simp_all only: serves_def)
  note nd = inv_name_done [OF inv_t c]
  let ?u = "ngx_resolve_name_done c ?t"
  have fr_p: "blocks (dheap ?t) p = blocks (dheap s) p" by (rule frameD(1) [OF fr subsetD [OF sub req_ptrs_self]])
  then have qu: "read_req p (dheap ?u) = Some q" using q by (simp add: read_req_def nd(4))
  have "serves k B' (C - {c}) user s (end_handler c p ?t)
    \<and> (starting (start_state q) \<longrightarrow> read_req p (dheap (end_handler c p ?t)) = Some q)"
  proof (cases "starting (start_state q)")
    case True
    then have e: "end_handler c p ?t = ?u"
      using qu by (simp add: end_handler_def Let_def rn_async_state_is_starting_def)
    have fr': "frame B (C - {c}) s ?u"
      using frame_trans [OF frame_mono [OF fr subset_refl, of "C - {c}"] nd(3)] by blast
    have "debt ?u = debt ?t" by (rule debt_cong [OF nd(2) nd(5)])
    with True qu nd(1,2) fr' t show ?thesis by (simp add: e serves_def B')
  next
    case False
    let ?v = "?u\<lparr>dheap := rn_dns_req_release (Some p) (dheap ?u)\<rparr>"
    have e: "end_handler c p ?t = ?v"
      using qu False by (simp add: end_handler_def Let_def rn_async_state_is_starting_def)
    note r = inv_release_req [OF nd(1) qu d sub]
    have fr': "frame (B - req_ptrs p q) (C - {c}) s ?v"
    proof (rule frame_trans [OF frame_trans r(3)])
      show "frame (B - req_ptrs p q) (C - {c}) s ?t" using fr by (rule frame_mono) auto
      show "frame (B - req_ptrs p q) (C - {c}) ?t ?u" using nd(3) by (rule frame_mono) auto
    qed
    have "debt ?v = debt ?u" by (rule debt_cong [OF r(2)]) simp
    moreover have "debt ?u = debt ?t" by (rule debt_cong [OF nd(2) nd(5)])
    ultimately show ?thesis using False r(1,2) nd(2) fr' t by (simp add: e serves_def B')
  qed
  then show "serves k B' (C - {c}) user s (end_handler c p ?t)"
    "starting (start_state q) \<Longrightarrow> read_req p (dheap (end_handler c p ?t)) = Some q" by simp_all
qed

text \<open>Which body a context's handler runs, and its callback.\<close>

definition handler_body ::
  "client_code \<Rightarrow> dns_answer \<Rightarrow> resolver_handler \<Rightarrow> rn_dns_req_t \<Rightarrow> (nat \<times> (nat \<Rightarrow> nat \<Rightarrow> dns_state \<Rightarrow> dns_state)) option"
where
  "handler_body k a h q =
     (case h of
        Srv_handler \<Rightarrow> map_option (\<lambda>cb. (cb, answer_srv k a)) (req_srv_cb q)
      | Addr_handler \<Rightarrow> map_option (\<lambda>cb. (cb, answer_addr k a)) (req_addr_cb q)
      | No_handler \<Rightarrow> None)"

lemma handler_body_answered:
  "client_ok k \<Longrightarrow> answer_ok a \<Longrightarrow> handler_body k a h q = Some (cb, body) \<Longrightarrow> answered k body"
  using answer_srv_serves answer_addr_serves
  by (cases h) (auto simp: handler_body_def answered_def)

lemma run_handler_eq:
  assumes "blocks (rctxs s) c = Some x" and "rctx_data x = Some p" and "read_req p (dheap s) = Some q"
    and "handler_body k a (rctx_handler x) q = Some (cb, body)"
  shows "run_handler k a c s = end_handler c p (body cb (req_user q) (complete_req p (set_data c None s)))"
  using assms
  by (cases "rctx_handler x")
    (auto simp: run_handler_def handler_body_def rn_resolve_srv_handler_def rn_resolve_addr_handler_def Let_def)

text \<open>The resolver answers a pending lookup.\<close>

lemma run_handler_pending:
  assumes k: "client_ok k" and a: "answer_ok a" and inv: "dns_inv H C s"
    and c: "c \<in> live (rctxs s)" "c \<notin> C"
  shows "dns_inv H C (run_handler k a c s)" and "frame H C s (run_handler k a c s)"
    and "debt (run_handler k a c s) = debt s"
    and "k = (\<lambda>s. s) \<Longrightarrow> req_at (run_handler k a c s) = (req_at s)(c := None)"
proof -
  from inv_pending [OF inv c] obtain x p q where x: "blocks (rctxs s) c = Some x"
    and at: "req_at s c = Some (p, q)" and r: "ready x p q" by (auto simp: pending_ok_def)
  have data: "rctx_data x = Some p" and q: "read_req p (dheap s) = Some q"
    using at x by (auto simp: req_at_def bind_eq_Some_conv)
  obtain cb body where hb: "handler_body k a (rctx_handler x) q = Some (cb, body)"
    using r by (auto simp: ready_def handler_body_def)
  let ?s1 = "set_data c None s" and ?B = "H \<union> req_ptrs p q"
  note tk = inv_take [OF inv c(2) at]
  have q1: "read_req p (dheap ?s1) = Some q" using q tk(4) by simp
  note sc = set_complete [OF tk(1) _ q1]
  let ?q = "q\<lparr>start_state := complete_state (start_state q)\<rparr>"
  let ?s2 = "complete_req p ?s1"
  have p: "p \<in> ?B" by simp
  have q2: "read_req p (dheap ?s2) = Some ?q" using sc(3) [OF p] by (simp add: read_req_def)
  have held: "?B - req_ptrs p ?q = H"
    using inv_held [OF inv, of c] at by (auto simp: owned_def)
  have C: "insert c C - {c} = C" using c by blast
  have "\<not> starting (start_state ?q)" using r by (simp add: ready_def async_defs)
  note tail = handler_tail(1) [OF handler_body_answered [OF k a hb] sc(1) [OF p] insertI1 q2 _ _ refl, of "req_user q" cb]
  have ser: "serves k H C (req_user q) ?s2 (run_handler k a c s)"
    using tail r \<open>\<not> starting (start_state ?q)\<close> held C run_handler_eq [OF x data q hb]
    by (simp add: ready_def)
  show "dns_inv H C (run_handler k a c s)" using ser by (simp only: serves_def)
  show "req_at (run_handler k a c s) = (req_at s)(c := None)" if "k = (\<lambda>s. s)"
    using ser that sc(2) [OF p] tk(2) by (simp add: serves_def)
  have f1: "frame H C s ?s1" using tk(3) by (rule frame_mono) auto
  have "p \<notin> H" using inv_held [OF inv, of c] at req_ptrs_self [of p q] by (auto simp: owned_def simp del: req_ptrs_self)
  then have f2: "frame H C ?s1 ?s2" using sc(3,4) [OF p] by (auto simp: frame_def)
  show "frame H C s (run_handler k a c s)"
    using frame_trans [OF frame_trans [OF f1 f2]] ser by (simp add: serves_def)
  have "debt ?s1 u = debt s u + (if u = req_user q then 1 else 0)" for u
    by (rule debt_pending_gone [OF inv at tk(2) tk(5)])
  moreover have "debt ?s2 = debt ?s1" by (rule debt_cong [OF sc(2,5) [OF p]])
  ultimately show "debt (run_handler k a c s) = debt s" using ser by (auto simp: serves_def fun_eq_iff)
qed

end
