(* ===== verification/Dns_Start.thy ===== *)
theory Dns_Start
  imports Dns_Answers
begin

text \<open>
  Starting a lookup, with all its allocation failures and the three outcomes of the resolver, and
  cancelling one.
\<close>

subsection \<open>Starting a lookup\<close>

lemma inv_write:
  assumes "dns_inv B C s" and "p \<in> B" and "read_req p (dheap s) = Some q"
  shows "dns_inv B C (s\<lparr>dheap := write_req p q' (dheap s)\<rparr>)"
    and "req_at (s\<lparr>dheap := write_req p q' (dheap s)\<rparr>) = req_at s"
    and "blocks (write_req p q' (dheap s)) = (blocks (dheap s))(p \<mapsto> Other (Dns_req q'))"
    and "read_req p (write_req p q' (dheap s)) = Some q'"
  using inv_store [OF assms(1,2), of "Other (Dns_req q')"] assms(3)
  by (simp_all add: write_req_def read_req_def)

text \<open>A context the operation holds: its fields written and then the context retired, or emptied.\<close>

lemma inv_ctx_write:
  assumes inv: "dns_inv B C s" and c: "c \<in> C"
  shows "dns_inv B (C - {c}) (s\<lparr>rctxs := ngx_free c (store c x (rctxs s))\<rparr>)"
    and "req_at (s\<lparr>rctxs := ngx_free c (store c x (rctxs s))\<rparr>) = req_at s"
    and "dns_inv B C (s\<lparr>rctxs := store c (x\<lparr>rctx_data := None\<rparr>) (store c x (rctxs s))\<rparr>)"
    and "req_at (s\<lparr>rctxs := store c (x\<lparr>rctx_data := None\<rparr>) (store c x (rctxs s))\<rparr>) = req_at s"
    and "blocks (store c x (rctxs s)) = (blocks (rctxs s))(c \<mapsto> x)"
    and "frame B (C - {c}) s (s\<lparr>rctxs := ngx_free c (store c x (rctxs s))\<rparr>)"
    and "frame B (C - {c}) s (s\<lparr>rctxs := store c (x\<lparr>rctx_data := None\<rparr>) (store c x (rctxs s))\<rparr>)"
proof -
  let ?x = "x\<lparr>rctx_data := None\<rparr>"
  from assms obtain y where ok: "heap_ok (rctxs s)" and y: "blocks (rctxs s) c = Some y" by (auto simp: dns_inv_def)
  note st = store_live [OF ok y, of x]
  have c1: "blocks (store c x (rctxs s)) c = Some x" by (simp add: st(3))
  note f = free_live [OF st(1) c1] and w = store_live [OF st(1) c1, of ?x]
  show "blocks (store c x (rctxs s)) = (blocks (rctxs s))(c \<mapsto> x)" by (rule st)
  have fb: "blocks (ngx_free c (store c x (rctxs s))) = (blocks (rctxs s))(c := None)"
    and wb: "blocks (store c ?x (store c x (rctxs s))) = (blocks (rctxs s))(c \<mapsto> ?x)" by (simp_all add: f(3) w(3) st(3))
  show "frame B (C - {c}) s (s\<lparr>rctxs := ngx_free c (store c x (rctxs s))\<rparr>)"
    "frame B (C - {c}) s (s\<lparr>rctxs := store c ?x (store c x (rctxs s))\<rparr>)" by (simp_all add: frame_def fb wb)
  have idle: "\<exists>x. blocks (rctxs s) d = Some x \<and> rctx_data x = None" if "d \<in> C" for d
    using inv that by (simp add: dns_inv_def)
  show "dns_inv B (C - {c}) (s\<lparr>rctxs := ngx_free c (store c x (rctxs s))\<rparr>)"
    using c idle by (intro inv_rctxs(1) [OF inv f(1)]) (auto simp: fb)
  show "req_at (s\<lparr>rctxs := ngx_free c (store c x (rctxs s))\<rparr>) = req_at s"
    using c idle by (intro inv_rctxs(2) [OF inv f(1), where C' = "C - {c}"]) (auto simp: fb)
  show "dns_inv B C (s\<lparr>rctxs := store c ?x (store c x (rctxs s))\<rparr>)"
    using c idle y by (intro inv_rctxs(1) [OF inv w(1)]) (auto simp: wb)
  show "req_at (s\<lparr>rctxs := store c ?x (store c x (rctxs s))\<rparr>) = req_at s"
    using c idle y by (intro inv_rctxs(2) [OF inv w(1), where C' = C]) (auto simp: wb)
qed

text \<open>The end of a start without a pending lookup: the request's last write and its release.\<close>

lemma finish_release:
  assumes inv: "dns_inv B C s" and q: "read_req p (dheap s) = Some q" and d: "req_distinct p q"
    and sub: "req_ptrs p q \<subseteq> B"
    and t: "t = s\<lparr>dheap := rn_dns_req_release (Some p) (write_req p (q\<lparr>start_state := st\<rparr>) (dheap s))\<rparr>"
  shows "dns_inv (B - req_ptrs p q) C t" and "frame (B - req_ptrs p q) C s t" and "debt t = debt s"
proof -
  have p: "p \<in> B" using sub req_ptrs_self by blast
  note w = inv_write [OF inv p q, of "q\<lparr>start_state := st\<rparr>"]
  let ?s = "s\<lparr>dheap := write_req p (q\<lparr>start_state := st\<rparr>) (dheap s)\<rparr>"
  have q': "read_req p (dheap ?s) = Some (q\<lparr>start_state := st\<rparr>)" using w(4) by simp
  note r = inv_release_req [OF w(1) q']
  have t': "t = ?s\<lparr>dheap := rn_dns_req_release (Some p) (dheap ?s)\<rparr>" by (simp add: t)
  show "dns_inv (B - req_ptrs p q) C t" using r(1) d sub by (simp add: t')
  have "frame (B - req_ptrs p q) C s ?s" by (auto simp: frame_def w(3))
  with r(3) d sub show "frame (B - req_ptrs p q) C s t" unfolding t' by (auto intro: frame_trans)
  have "req_at t = req_at s" using r(2) w(2) d sub by (simp add: t')
  then show "debt t = debt s" by (rule debt_cong) (simp add: t)
qed

text \<open>What a start leaves behind: the return value, and the debt it changed.\<close>

definition started :: "ptr set \<Rightarrow> ptr set \<Rightarrow> nat \<Rightarrow> dns_state \<Rightarrow> int \<times> nat option \<times> dns_state \<Rightarrow> bool" where
  "started H C user s result \<longleftrightarrow>
     (case result of (rc, req_id, t) \<Rightarrow>
        dns_inv H C t \<and> frame H C s t \<and> (rc = 0 \<or> rc = -1)
        \<and> (\<forall>u. debt t u = debt s u - (if rc = 0 \<and> u = user then 1 else 0)))"

fun outcome_ok :: "start_outcome \<Rightarrow> bool" where
  "outcome_ok (Start_answered a) = answer_ok a"
| "outcome_ok _ = True"

text \<open>A context and a request ready for \<open>ngx_resolve_name\<close>, both held by the start.\<close>

definition prepared ::
  "ptr set \<Rightarrow> ptr set \<Rightarrow> ptr \<Rightarrow> ngx_resolver_ctx_t \<Rightarrow> ptr \<Rightarrow> rn_dns_req_t \<Rightarrow> dns_state \<Rightarrow> bool" where
  "prepared B C c x p q s \<longleftrightarrow>
     dns_inv B C s \<and> c \<in> C \<and> read_req p (dheap s) = Some q \<and> req_distinct p q \<and> req_ptrs p q \<subseteq> B
     \<and> rctx_data x = Some p \<and> starting (start_state q) \<and> \<not> completed (start_state q)
     \<and> (rctx_handler x = Srv_handler \<and> req_srv_cb q \<noteq> None
        \<or> rctx_handler x = Addr_handler \<and> req_srv_cb q = None \<and> req_addr_cb q \<noteq> None)"

lemma preparedD:
  assumes "prepared B C c x p q s"
  shows "dns_inv B C s" and "c \<in> C" and "read_req p (dheap s) = Some q" and "req_distinct p q"
    and "req_ptrs p q \<subseteq> B" and "rctx_data x = Some p" and "starting (start_state q)"
    and "\<not> completed (start_state q)" and "p \<in> B"
  using assms req_ptrs_self [of p q] by (auto simp: prepared_def simp del: req_ptrs_self)

lemmas finish_defs = finish_start_def rn_resolve_name_start_def finish_state_def rn_async_state_finish_def Let_def

lemma start_queued:
  assumes pr: "prepared B C c x p q s" and out: "env_outcome env = Start_pending"
  shows "started (B - req_ptrs p q) (C - {c}) (req_user q) s
    (finish_start k env c p (s\<lparr>rctxs := store c x (rctxs s)\<rparr>))"
proof -
  note d = preparedD [OF pr]
  let ?q = "q\<lparr>start_state := (start_state q)\<lparr>starting := False\<rparr>\<rparr>"
  define sF where "sF = s\<lparr>dheap := write_req p ?q (dheap s)\<rparr>"
  note w = inv_write [OF d(1,9,3), of ?q, folded sF_def]
  have qF: "read_req p (dheap sF) = Some ?q" using w(4) by (simp add: sF_def)
  have "ready x p ?q" and sub: "req_ptrs p ?q \<subseteq> B" using pr by (auto simp: ready_def prepared_def)
  note g = inv_give [OF w(1) d(2) qF this(2) d(6) this(1)]
  let ?t = "sF\<lparr>rctxs := store c x (rctxs sF)\<rparr>"
  have run: "finish_start k env c p (s\<lparr>rctxs := store c x (rctxs s)\<rparr>) = (0, Some c, ?t)"
    using d(3,8) by (simp add: finish_defs out sF_def)
  have "frame (B - req_ptrs p q) (C - {c}) s ?t" using w(3) g(3) by (auto simp: frame_def sF_def)
  moreover have "debt ?t u = debt s u - (if u = req_user q then 1 else 0)" for u
    using debt_pending_new [OF w(1) g(4) g(2)] debt_cong [OF w(2)] by (simp add: sF_def)
  ultimately show ?thesis using g(1) by (simp add: run started_def)
qed

lemma start_refused:
  assumes pr: "prepared B C c x p q s" and out: "env_outcome env = Start_refused"
  shows "started (B - req_ptrs p q) (C - {c}) (req_user q) s
    (finish_start k env c p (s\<lparr>rctxs := store c x (rctxs s)\<rparr>))"
proof -
  note d = preparedD [OF pr]
  note cw = inv_ctx_write [OF d(1,2), of x]
  let ?u = "s\<lparr>rctxs := ngx_free c (store c x (rctxs s))\<rparr>"
  have u: "ngx_resolve_name_done c (s\<lparr>rctxs := store c x (rctxs s)\<rparr>) = ?u"
    by (simp add: ngx_resolve_name_done_def)
  have q: "read_req p (dheap ?u) = Some q" using d(3) by simp
  let ?st = "(start_state q)\<lparr>starting := False\<rparr>"
  let ?t = "?u\<lparr>dheap := rn_dns_req_release (Some p) (write_req p (q\<lparr>start_state := ?st\<rparr>) (dheap ?u))\<rparr>"
  have run: "finish_start k env c p (s\<lparr>rctxs := store c x (rctxs s)\<rparr>) = (-1, Some 0, ?t)"
    using d(3) by (simp add: finish_defs out u)
  note fr = finish_release [OF cw(1) q d(4,5) refl, of ?st]
  have "frame (B - req_ptrs p q) (C - {c}) s ?t"
    by (rule frame_trans [OF _ fr(2)]) (rule frame_mono [OF cw(6)], auto)
  moreover have "debt ?t = debt s" using fr(3) debt_cong [OF cw(2)] by simp
  ultimately show ?thesis using fr(1) by (simp add: run started_def)
qed

lemma start_answered:
  assumes k: "client_ok k" and pr: "prepared B C c x p q s"
    and out: "env_outcome env = Start_answered a" and a: "answer_ok a"
  shows "started (B - req_ptrs p q) (C - {c}) (req_user q) s
    (finish_start k env c p (s\<lparr>rctxs := store c x (rctxs s)\<rparr>))"
proof -
  note d = preparedD [OF pr]
  note cw = inv_ctx_write [OF d(1,2), of x]
  let ?s1 = "s\<lparr>rctxs := store c x (rctxs s)\<rparr>"
  obtain cb body where hb: "handler_body k a (rctx_handler x) q = Some (cb, body)"
    using pr by (auto simp: handler_body_def prepared_def)
  let ?qc = "q\<lparr>start_state := complete_state (start_state q)\<rparr>"
  have bx: "blocks (rctxs ?s1) c = Some x" and q1: "read_req p (dheap ?s1) = Some q" using cw(5) d(3) by simp_all
  define sB where "sB = set_data c None ?s1"
  have sB: "sB = s\<lparr>rctxs := store c (x\<lparr>rctx_data := None\<rparr>) (store c x (rctxs s))\<rparr>"
    using bx by (simp add: sB_def set_data_def)
  have qB: "read_req p (dheap sB) = Some q" using d(3) by (simp add: sB)
  note sc = set_complete [OF cw(3) [folded sB] d(9) qB]
  let ?sC = "complete_req p sB"
  have qC: "read_req p (dheap ?sC) = Some ?qc" using sc(3) by (simp add: read_req_def)
  have st: "starting (start_state ?qc)" "completed (start_state ?qc)" using d(7) by (simp_all add: async_defs)
  have sub: "req_ptrs p ?qc \<subseteq> B" and dist: "req_distinct p ?qc" using d(4,5) by simp_all
  define u where "u = end_handler c p (body cb (req_user q) ?sC)"
  note tail = handler_tail [OF handler_body_answered [OF k a hb] sc(1) d(2) qC dist sub refl,
      where user = "req_user q" and cb = cb, folded u_def]
  have run_u: "run_handler k a c ?s1 = u"
    using run_handler_eq [OF bx d(6) q1 hb] by (simp add: u_def sB_def)
  have ser: "serves k B (C - {c}) (req_user q) ?sC u" using tail(1) st by simp
  then have inv_u: "dns_inv B (C - {c}) u" by (simp only: serves_def)
  have qu: "read_req p (dheap u) = Some ?qc" by (rule tail(2) [OF st(1)])
  let ?st = "(start_state ?qc)\<lparr>starting := False\<rparr>"
  let ?t = "u\<lparr>dheap := rn_dns_req_release (Some p) (write_req p (?qc\<lparr>start_state := ?st\<rparr>) (dheap u))\<rparr>"
  have run: "finish_start k env c p ?s1 = (0, Some 0, ?t)"
    using qu st by (simp add: finish_defs out run_u)
  note fr = finish_release [OF inv_u qu dist sub refl, of ?st]
  have "frame (B - req_ptrs p q) (C - {c}) s ?t"
  proof (rule frame_trans [OF frame_trans [OF frame_trans]])
    show "frame (B - req_ptrs p q) (C - {c}) s sB" using cw(7) [folded sB] by (rule frame_mono) auto
    show "frame (B - req_ptrs p q) (C - {c}) sB ?sC" using sc(3,4) by (auto simp: frame_def)
    show "frame (B - req_ptrs p q) (C - {c}) ?sC u" using ser by (auto simp: serves_def intro: frame_mono)
    show "frame (B - req_ptrs p q) (C - {c}) u ?t" using fr(2) by simp
  qed
  moreover have "debt ?sC = debt s" using debt_cong [OF sc(2,5)] debt_cong [OF cw(4), folded sB] by (simp add: sB)
  then have "debt ?t v = debt s v - (if v = req_user q then 1 else 0)" for v
    using fr(3) ser by (auto simp: serves_def)
  ultimately show ?thesis using fr(1) by (simp add: run started_def)
qed

lemma start_lookup_started:
  assumes k: "client_ok k" and out: "outcome_ok (env_outcome env)"
    and inv: "dns_inv B C s" and c: "c \<in> C" and q: "read_req p (dheap s) = Some q"
    and d: "req_distinct p q" and sub: "req_ptrs p q \<subseteq> B"
    and h: "handler = Srv_handler \<and> req_srv_cb q \<noteq> None
      \<or> handler = Addr_handler \<and> req_srv_cb q = None \<and> req_addr_cb q \<noteq> None"
  shows "started (B - req_ptrs p q) (C - {c}) (req_user q) s (start_lookup k env c p q handler s)"
proof -
  define x where "x = \<lparr>rctx_name = (name_buf q, name_len q),
    rctx_service = (if service_buf q \<noteq> None then (service_buf q, service_len q) else (None, 0)),
    rctx_handler = handler, rctx_data = Some p, rctx_timeout = env_timeout env\<rparr>"
  define qb where "qb = q\<lparr>start_state := begin_state (start_state q)\<rparr>"
  define t where "t = s\<lparr>dheap := write_req p qb (dheap s)\<rparr>"
  have p: "p \<in> B" using sub req_ptrs_self by blast
  note w = inv_write [OF inv p q, of qb, folded t_def]
  have qt: "read_req p (dheap t) = Some qb" using w(4) by (simp add: t_def)
  have st: "starting (start_state qb)" "\<not> completed (start_state qb)" by (simp_all add: qb_def async_defs)
  have same: "req_ptrs p qb = req_ptrs p q" "req_distinct p qb" "req_user qb = req_user q" using d by (simp_all add: qb_def)
  have pr: "prepared B C c x p qb t"
    using w(1) c qt same sub st h by (auto simp: prepared_def x_def qb_def)
  have run: "start_lookup k env c p q handler s = finish_start k env c p (t\<lparr>rctxs := store c x (rctxs t)\<rparr>)"
  proof -
    have swap: "r\<lparr>rctxs := a, dheap := b\<rparr> = r\<lparr>dheap := b, rctxs := a\<rparr>" for r :: dns_state and a b by simp
    show ?thesis
      unfolding start_lookup_def Let_def x_def [symmetric] qb_def [symmetric] t_def swap by simp
  qed
  have "started (B - req_ptrs p q) (C - {c}) (req_user q) t (start_lookup k env c p q handler s)"
    unfolding run using start_queued [OF pr] start_refused [OF pr] start_answered [OF k pr] out same(1,3)
    by (cases "env_outcome env") simp_all
  moreover have "frame (B - req_ptrs p q) (C - {c}) s t" using w(3) by (auto simp: t_def frame_def)
  moreover have "debt t = debt s" by (rule debt_cong [OF w(2)]) (simp add: t_def)
  ultimately show ?thesis by (auto simp: started_def intro: frame_trans)
qed

text \<open>A request under construction: its blocks, and nothing else, are new.\<close>

definition holds_req :: "ptr set \<Rightarrow> ptr set \<Rightarrow> dns_state \<Rightarrow> ptr \<Rightarrow> rn_dns_req_t \<Rightarrow> dns_heap \<Rightarrow> bool" where
  "holds_req H C s p q h \<longleftrightarrow>
     dns_inv (req_ptrs p q \<union> H) C (s\<lparr>dheap := h\<rparr>) \<and> req_ptrs p q \<inter> H = {} \<and> read_req p h = Some q
     \<and> req_distinct p q \<and> frame H C s (s\<lparr>dheap := h\<rparr>) \<and> req_at (s\<lparr>dheap := h\<rparr>) = req_at s"

lemma holds_alloc:
  assumes hr: "holds_req H C s p q h" and al: "ngx_alloc ok Uninit h = (Some b, h1)"
  shows "dns_inv (insert b (req_ptrs p q \<union> H)) C (s\<lparr>dheap := store b v h1\<rparr>)"
    and "b \<notin> req_ptrs p q" and "b \<notin> H" and "read_req p (store b v h1) = Some q"
    and "blocks (store b v h1) = (blocks h)(b \<mapsto> v)" and "req_at (s\<lparr>dheap := store b v h1\<rparr>) = req_at s"
proof -
  have al': "ngx_alloc ok Uninit (dheap (s\<lparr>dheap := h\<rparr>)) = (Some b, h1)" using al by simp
  have inv: "dns_inv (req_ptrs p q \<union> H) C (s\<lparr>dheap := h\<rparr>)" using hr by (simp add: holds_req_def)
  note a = inv_alloc [OF inv al']
  note st = inv_store [OF a(1), of b v]
  show "dns_inv (insert b (req_ptrs p q \<union> H)) C (s\<lparr>dheap := store b v h1\<rparr>)"
    "req_at (s\<lparr>dheap := store b v h1\<rparr>) = req_at s" using st a(2) hr by (simp_all add: holds_req_def)
  show bl: "blocks (store b v h1) = (blocks h)(b \<mapsto> v)" using st(3) a(5) by simp
  show new: "b \<notin> req_ptrs p q" "b \<notin> H" using a(4) by simp_all
  then have "b \<noteq> p" by (auto simp: req_ptrs_def)
  then show "read_req p (store b v h1) = Some q" using hr bl by (simp add: holds_req_def read_req_def)
qed

text \<open>A write to a request under construction that accounts for its blocks.\<close>

lemma holds_write:
  assumes inv: "dns_inv B C (s\<lparr>dheap := h\<rparr>)" and q: "read_req p h = Some q0" and B: "B = req_ptrs p q \<union> H"
    and d: "req_distinct p q" and new: "req_ptrs p q \<inter> H = {}"
    and fr: "\<forall>x \<in> H. blocks h x = blocks (dheap s) x" and at: "req_at (s\<lparr>dheap := h\<rparr>) = req_at s"
  shows "holds_req H C s p q (write_req p q h)"
proof -
  have p: "p \<in> B" by (simp add: B)
  have q': "read_req p (dheap (s\<lparr>dheap := h\<rparr>)) = Some q0" using q by simp
  note w = inv_write [OF inv p q', of q]
  have "p \<notin> H" using new req_ptrs_self [of p q] by blast
  then show ?thesis using w d new fr at B by (auto simp: holds_req_def frame_def)
qed

lemma request_with_name_holds:
  assumes inv: "dns_inv H C s" and run: "request_with_name answers q name (dheap s) = (r, h)"
    and q: "name_buf q = None" "service_buf q = None"
  shows "case r of
      Inl None \<Rightarrow> h = dheap s
    | Inl (Some p) \<Rightarrow> holds_req H C s p q h
    | Inr (p, q') \<Rightarrow> holds_req H C s p q' h \<and> (\<exists>b. q' = q\<lparr>name_buf := Some b\<rparr>)"
proof -
  obtain p0 h1 where al1: "ngx_alloc (answers sizeof_dns_req (dheap s)) Uninit (dheap s) = (p0, h1)" by fastforce
  show ?thesis
  proof (cases p0)
    case None
    with al1 run show ?thesis by (auto simp: request_with_name_def rn_dns_alloc_def)
  next
    case (Some p)
    let ?h2 = "store p (Other (Dns_req q)) h1"
    note a = inv_alloc [OF inv al1 [unfolded Some]]
    note st = inv_store [OF a(1), of p "Other (Dns_req q)"]
    have ptrs: "req_ptrs p q = {p}" "req_distinct p q" using q by (simp_all add: req_ptrs_def req_distinct_def)
    have h2: "holds_req H C s p q ?h2"
      using st a ptrs by (auto simp: holds_req_def frame_def read_req_def)
    obtain b0 h3 where al2: "ngx_alloc (answers (length name + 1) ?h2) Uninit ?h2 = (b0, h3)" by fastforce
    show ?thesis
    proof (cases b0)
      case None
      with al1 al2 run Some h2 show ?thesis by (auto simp: request_with_name_def rn_dns_alloc_def Let_def)
    next
      case b: (Some b)
      let ?q = "q\<lparr>name_buf := Some b\<rparr>"
      note hb = holds_alloc(1,4-6) [OF h2 al2 [unfolded b], of "Cstr (name @ [nul])"]
        and new = holds_alloc(2,3) [OF h2 al2 [unfolded b]]
      have "holds_req H C s p ?q (write_req p ?q (store b (Cstr (name @ [nul])) h3))"
      proof (rule holds_write [OF hb(1,2)])
        show "insert b (req_ptrs p q \<union> H) = req_ptrs p ?q \<union> H" using ptrs q by (auto simp: req_ptrs_def)
        show "req_distinct p ?q" "req_ptrs p ?q \<inter> H = {}"
          using new q h2 by (auto simp: req_distinct_def req_ptrs_def holds_req_def)
        show "\<forall>x \<in> H. blocks (store b (Cstr (name @ [nul])) h3) x = blocks (dheap s) x"
          using new(2) hb(3) h2 by (auto simp: holds_req_def frame_def)
      qed (rule hb(4))
      with al1 al2 run Some b show ?thesis by (auto simp: request_with_name_def rn_dns_alloc_def Let_def)
    qed
  qed
qed

text \<open>The service is cut off the name, and the name's buffer is replaced by the domain's.\<close>

lemma add_service:
  assumes hr: "holds_req H C s p q h" and nb: "service_buf q = None"
    and al: "ngx_alloc ok Uninit h = (Some sb, h1)"
  shows "holds_req H C s p (q\<lparr>service_buf := Some sb, service_len := n\<rparr>)
    (write_req p (q\<lparr>service_buf := Some sb, service_len := n\<rparr>) (store sb v h1))"
proof -
  let ?q = "q\<lparr>service_buf := Some sb, service_len := n\<rparr>"
  note hb = holds_alloc(1,4-6) [OF hr al, of v] and new = holds_alloc(2,3) [OF hr al]
  show ?thesis
  proof (rule holds_write [OF hb(1,2)])
    show "insert sb (req_ptrs p q \<union> H) = req_ptrs p ?q \<union> H" using nb by (auto simp: req_ptrs_def)
    show "req_distinct p ?q" "req_ptrs p ?q \<inter> H = {}"
      using new nb hr by (auto simp: req_distinct_def req_ptrs_def holds_req_def)
    show "\<forall>x \<in> H. blocks (store sb v h1) x = blocks (dheap s) x"
      using new(2) hb(3) hr by (auto simp: holds_req_def frame_def)
  qed (rule hb(4))
qed

lemma replace_name:
  assumes hr: "holds_req H C s p q h" and nb: "name_buf q = Some nb"
    and al: "ngx_alloc ok Uninit h = (Some db, h1)"
  shows "holds_req H C s p (q\<lparr>name_buf := Some db, name_len := n\<rparr>)
    (write_req p (q\<lparr>name_buf := Some db, name_len := n\<rparr>) (ngx_free nb (store db v h1)))"
proof -
  let ?q = "q\<lparr>name_buf := Some db, name_len := n\<rparr>" and ?h = "store db v h1"
  note hb = holds_alloc(1,4-6) [OF hr al, of v] and new = holds_alloc(2,3) [OF hr al]
  have in_q: "nb \<in> req_ptrs p q" using nb by (simp add: req_ptrs_def)
  have d: "req_distinct p q" and out: "req_ptrs p q \<inter> H = {}" using hr by (simp_all add: holds_req_def)
  have nb': "nb \<noteq> p" "service_buf q \<noteq> Some nb" "nb \<notin> H" "nb \<noteq> db"
    using d in_q out nb new by (auto simp: req_distinct_def)
  note f = inv_free [OF hb(1), of nb]
  have mem: "nb \<in> insert db (req_ptrs p q \<union> H)" using in_q by blast
  have bl: "blocks (ngx_free nb ?h) = (blocks ?h)(nb := None)" using f(3) [OF mem] by simp
  have q': "read_req p (ngx_free nb ?h) = Some q" using hb(2) nb'(1) by (simp add: read_req_def bl)
  have inv: "dns_inv (insert db (req_ptrs p q \<union> H) - {nb}) C (s\<lparr>dheap := ngx_free nb ?h\<rparr>)"
    using f(1) [OF mem] by simp
  show ?thesis
  proof (rule holds_write [OF inv q'])
    show "insert db (req_ptrs p q \<union> H) - {nb} = req_ptrs p ?q \<union> H"
      using nb nb' new by (auto simp: req_ptrs_def)
    show "req_distinct p ?q" "req_ptrs p ?q \<inter> H = {}"
      using new nb d out by (auto simp: req_distinct_def req_ptrs_def)
    show "\<forall>x \<in> H. blocks (ngx_free nb ?h) x = blocks (dheap s) x"
      using new(2) nb'(3) hb(3) hr by (auto simp: holds_req_def frame_def bl)
    show "req_at (s\<lparr>dheap := ngx_free nb ?h\<rparr>) = req_at s" using f(2) [OF mem] hb(4) by simp
  qed
qed

definition same_call :: "rn_dns_req_t \<Rightarrow> rn_dns_req_t \<Rightarrow> bool" where
  "same_call q q' \<longleftrightarrow> req_srv_cb q' = req_srv_cb q \<and> req_addr_cb q' = req_addr_cb q \<and> req_user q' = req_user q"

lemma split_service_holds:
  assumes hr: "holds_req H C s p q h" and nb: "name_buf q = Some nb" "service_buf q = None"
    and run: "split_service answers p q name h = (r, h')"
  shows "\<exists>q'. holds_req H C s p q' h' \<and> same_call q q' \<and> (r \<noteq> None \<longrightarrow> r = Some q')"
proof (cases "second_dot name")
  case None
  with run hr show ?thesis by (auto simp: split_service_def same_call_def)
next
  case (Some second)
  obtain s0 h1 where al1: "ngx_alloc (answers second h) Uninit h = (s0, h1)" by fastforce
  show ?thesis
  proof (cases s0)
    case None
    let ?q = "q\<lparr>service_len := second\<rparr>"
    have "holds_req H C s p ?q (write_req p ?q h)"
    proof (rule holds_write)
      show "dns_inv (req_ptrs p q \<union> H) C (s\<lparr>dheap := h\<rparr>)" "read_req p h = Some q"
        "req_at (s\<lparr>dheap := h\<rparr>) = req_at s" using hr by (simp_all add: holds_req_def)
      show "req_ptrs p q \<union> H = req_ptrs p ?q \<union> H" by (simp add: req_ptrs_def)
      show "req_distinct p ?q" "req_ptrs p ?q \<inter> H = {}" "\<forall>x \<in> H. blocks h x = blocks (dheap s) x"
        using hr by (auto simp: holds_req_def frame_def req_distinct_def req_ptrs_def)
    qed
    with run Some None al1 show ?thesis
      by (intro exI [of _ ?q]) (auto simp: split_service_def rn_dns_alloc_def same_call_def)
  next
    case sb: (Some sb)
    let ?q1 = "q\<lparr>service_buf := Some sb, service_len := second\<rparr>"
    let ?h2 = "write_req p ?q1 (store sb (Cstr (take second name)) h1)"
    let ?domain = "drop (second + 1) name"
    have h2: "holds_req H C s p ?q1 ?h2" by (rule add_service [OF hr nb(2) al1 [unfolded sb]])
    obtain d0 h3 where al2: "ngx_alloc (answers (length ?domain + 1) ?h2) Uninit ?h2 = (d0, h3)" by fastforce
    show ?thesis
    proof (cases d0)
      case None
      with run Some sb al1 al2 h2 show ?thesis
        by (intro exI [of _ ?q1]) (auto simp: split_service_def rn_dns_alloc_def Let_def same_call_def)
    next
      case db: (Some db)
      let ?q2 = "?q1\<lparr>name_buf := Some db, name_len := length ?domain\<rparr>"
      have "name_buf ?q1 = Some nb" using nb by simp
      from replace_name [OF h2 this al2 [unfolded db], of "length ?domain" "Cstr (?domain @ [nul])"]
      have "holds_req H C s p ?q2 (write_req p ?q2 (ngx_free nb (store db (Cstr (?domain @ [nul])) h3)))" .
      moreover have "(r, h') = (Some ?q2, write_req p ?q2 (ngx_free nb (store db (Cstr (?domain @ [nul])) h3)))"
        using run Some sb al1 al2 db nb by (simp add: split_service_def rn_dns_alloc_def Let_def)
      ultimately show ?thesis by (intro exI [of _ ?q2]) (simp add: same_call_def)
    qed
  qed
qed

text \<open>Everything is given back when a lookup does not start.\<close>

lemma discard_holds:
  assumes c: "c \<in> C" and st: "dns_inv H C s"
    and r: "req = None \<and> h = dheap s \<or> (\<exists>p q. req = Some p \<and> holds_req H C s p q h)"
    and t: "t = rn_dns_discard_unstarted (Some c) req (s\<lparr>dheap := h\<rparr>)"
  shows "dns_inv H (C - {c}) t" and "frame H (C - {c}) s t" and "debt t = debt s"
proof -
  let ?s = "s\<lparr>dheap := h\<rparr>"
  obtain B where inv: "dns_inv B C ?s" and at: "req_at ?s = req_at s" and fr: "frame H C s ?s"
    and rel: "req = None \<and> B = H \<or> (\<exists>p q. req = Some p \<and> read_req p h = Some q \<and> req_distinct p q
      \<and> B = req_ptrs p q \<union> H \<and> req_ptrs p q \<inter> H = {})"
    using r st by (elim disjE conjE exE) (auto simp: holds_req_def)
  have "\<exists>x. blocks (rctxs ?s) c = Some x \<and> rctx_data x = None" using inv c by (simp add: dns_inv_def)
  then obtain x where x: "blocks (rctxs s) c = Some x" "rctx_data x = None" by auto
  let ?u = "ngx_resolve_name_done c (set_data c None ?s)"
  have u: "?u = ?s\<lparr>rctxs := ngx_free c (store c x (rctxs ?s))\<rparr>"
    using x by (cases x) (simp add: ngx_resolve_name_done_def set_data_def)
  note cw = inv_ctx_write [OF inv c, of x, folded u]
  have fr_u: "frame H (C - {c}) ?s ?u" using cw(6) rel by (elim disjE) (auto intro: frame_mono)
  have d_u: "debt ?u = debt s" using debt_cong [OF cw(2)] debt_cong [OF at] by (simp add: u)
  have dh: "dheap ?u = h" by (simp add: u)
  have fr0: "frame H (C - {c}) s ?s" using fr by (rule frame_mono) auto
  from rel have "dns_inv H (C - {c}) t \<and> frame H (C - {c}) s t \<and> debt t = debt s"
  proof (elim disjE exE conjE)
    assume none: "req = None" "B = H"
    then have "t = ?u" by (simp add: t rn_dns_discard_unstarted_def rn_dns_req_release_def Let_def)
    with cw(1) none d_u frame_trans [OF fr0 fr_u] show ?thesis by simp
  next
    fix p q assume some: "req = Some p" "read_req p h = Some q" "req_distinct p q"
      "B = req_ptrs p q \<union> H" "req_ptrs p q \<inter> H = {}"
    have t': "t = ?u\<lparr>dheap := rn_dns_req_release (Some p) (dheap ?u)\<rparr>"
      by (simp add: t rn_dns_discard_unstarted_def Let_def some)
    have q: "read_req p (dheap ?u) = Some q" using some dh by simp
    have sub: "req_ptrs p q \<subseteq> B" and B: "B - req_ptrs p q = H" using some by auto
    note rl = inv_release_req [OF cw(1) q some(3) sub, unfolded B, folded t']
    have "frame H (C - {c}) s t" using frame_trans [OF frame_trans [OF fr0 fr_u] rl(3)] .
    moreover have "debt t = debt ?u" by (rule debt_cong [OF rl(2)]) (simp add: t')
    ultimately show ?thesis using rl(1) d_u by simp
  qed
  then show "dns_inv H (C - {c}) t" "frame H (C - {c}) s t" "debt t = debt s" by simp_all
qed

subsection \<open>The client's operations\<close>

lemma started_refused:
  "dns_inv H C t \<Longrightarrow> frame H C s t \<Longrightarrow> debt t = debt s \<Longrightarrow> started H C user s (-1, out, t)"
  by (simp add: started_def)

text \<open>The two functions after the resolver handed out a context.\<close>

lemma started_from_ctx:
  assumes inv: "dns_inv H C s" and rs: "ngx_resolve_start env s = (Some c, s1)"
    and st: "started H (insert c C - {c}) user s1 result"
  shows "started H C user s result"
proof -
  note r = inv_resolve_start [OF inv rs]
  have "insert c C - {c} = C" using r(6) by blast
  with st r(3) debt_cong [OF r(2,5)] show ?thesis by (auto simp: started_def intro: frame_trans)
qed

lemma start_holds:
  assumes k: "client_ok k" and out: "outcome_ok (env_outcome env)" and inv: "dns_inv H C s" and c: "c \<in> C"
    and hr: "holds_req H C s p q h"
    and hd: "handler = Srv_handler \<and> req_srv_cb q \<noteq> None
      \<or> handler = Addr_handler \<and> req_srv_cb q = None \<and> req_addr_cb q \<noteq> None"
  shows "started H (C - {c}) (req_user q) s (start_lookup k env c p q handler (s\<lparr>dheap := h\<rparr>))"
proof -
  let ?s = "s\<lparr>dheap := h\<rparr>"
  have i: "dns_inv (req_ptrs p q \<union> H) C ?s" "read_req p (dheap ?s) = Some q" "req_distinct p q"
    "req_ptrs p q \<inter> H = {}" "frame H C s ?s" "req_at ?s = req_at s"
    using hr by (simp_all add: holds_req_def)
  have B: "req_ptrs p q \<union> H - req_ptrs p q = H" using i(4) by blast
  from start_lookup_started [OF k out i(1) c i(2,3) Un_upper1 hd]
  have "started H (C - {c}) (req_user q) ?s (start_lookup k env c p q handler ?s)" by (simp only: B)
  moreover have "frame H (C - {c}) s ?s" using i(5) by (rule frame_mono) auto
  moreover have "debt ?s = debt s" by (rule debt_cong [OF i(6)]) simp
  ultimately show ?thesis by (auto simp: started_def intro: frame_trans)
qed

text \<open>The guards of the two functions, up to the context.\<close>

lemma resolve_cases:
  fixes name :: "string option" and cb out_id :: "nat option"
  obtains (no) "name = None \<or> cb = None \<or> out_id = None \<or> \<not> env_resolver env \<or> ngx_resolve_start env s = (None, s)"
  | (go) nm f i c s1 where "name = Some nm" "cb = Some f" "out_id = Some i" "env_resolver env"
      "ngx_resolve_start env s = (Some c, s1)"
proof (cases "fst (ngx_resolve_start env s)")
  case None
  then have "ngx_resolve_start env s = (None, s)"
    by (auto simp: ngx_resolve_start_def split: prod.splits if_splits)
  then show thesis by (intro no) simp
next
  case (Some c)
  then show thesis using no go by (cases "ngx_resolve_start env s") fastforce
qed

lemma resolve_addrs_started:
  assumes k: "client_ok k" and out: "outcome_ok (env_outcome env)" and inv: "dns_inv H C s"
  shows "started H C user s (rn_resolve_addrs k env name out_id cb user s)"
proof (cases rule: resolve_cases [of name cb out_id env s])
  case no
  then have "rn_resolve_addrs k env name out_id cb user s = (-1, map_option (\<lambda>_. 0) out_id, s)"
    by (cases name; cases out_id; cases cb) (auto simp: rn_resolve_addrs_def Let_def)
  then show ?thesis using inv by (simp add: started_refused)
next
  case (go nm f i c s1)
  note r = inv_resolve_start [OF inv go(5)]
  let ?q = "empty_req\<lparr>req_addr_cb := cb, req_user := user, name_len := length nm\<rparr>"
  obtain req h where rq: "request_with_name (env_mem env) ?q nm (dheap s1) = (req, h)" by fastforce
  have bufs: "name_buf ?q = None" "service_buf ?q = None" by (simp_all add: empty_req_def)
  note made = request_with_name_holds [OF r(1) rq bufs]
  show ?thesis
  proof (rule started_from_ctx [OF inv go(5)], cases req)
    case (Inl req')
    let ?t = "rn_dns_discard_unstarted (Some c) req' (s1\<lparr>dheap := h\<rparr>)"
    have "rn_resolve_addrs k env name out_id cb user s = (-1, Some 0, ?t)"
      using go rq Inl by (simp add: rn_resolve_addrs_def Let_def)
    moreover have "req' = None \<and> h = dheap s1 \<or> (\<exists>p q. req' = Some p \<and> holds_req H (insert c C) s1 p q h)"
      using made Inl by (cases req') auto
    note d = discard_holds [OF insertI1 r(1) this refl]
    ultimately show "started H (insert c C - {c}) user s1 (rn_resolve_addrs k env name out_id cb user s)"
      using d by (simp add: started_refused)
  next
    case (Inr pq)
    obtain p q where pq: "pq = (p, q)" by (cases pq)
    have hr: "holds_req H (insert c C) s1 p q h" and q: "req_srv_cb q = None" "req_addr_cb q = cb" "req_user q = user"
      using made Inr pq by (auto simp: empty_req_def)
    have "rn_resolve_addrs k env name out_id cb user s = start_lookup k env c p q Addr_handler (s1\<lparr>dheap := h\<rparr>)"
      using go rq Inr pq by (simp add: rn_resolve_addrs_def Let_def)
    then show "started H (insert c C - {c}) user s1 (rn_resolve_addrs k env name out_id cb user s)"
      using start_holds [OF k out r(1) insertI1 hr, of Addr_handler] q go(2) by simp
  qed
qed

lemma resolve_srv_started:
  assumes k: "client_ok k" and out: "outcome_ok (env_outcome env)" and inv: "dns_inv H C s"
  shows "started H C user s (rn_resolve_srv k env name out_id cb user s)"
proof (cases rule: resolve_cases [of name cb out_id env s])
  case no
  then have "rn_resolve_srv k env name out_id cb user s = (-1, map_option (\<lambda>_. 0) out_id, s)"
    by (cases name; cases out_id; cases cb) (auto simp: rn_resolve_srv_def Let_def)
  then show ?thesis using inv by (simp add: started_refused)
next
  case (go nm f i c s1)
  note r = inv_resolve_start [OF inv go(5)]
  let ?q = "empty_req\<lparr>req_srv_cb := cb, req_user := user, name_len := length nm\<rparr>"
  obtain req h where rq: "request_with_name (env_mem env) ?q nm (dheap s1) = (req, h)" by fastforce
  have bufs: "name_buf ?q = None" "service_buf ?q = None" by (simp_all add: empty_req_def)
  note made = request_with_name_holds [OF r(1) rq bufs]
  show ?thesis
  proof (rule started_from_ctx [OF inv go(5)], cases req)
    case (Inl req')
    let ?t = "rn_dns_discard_unstarted (Some c) req' (s1\<lparr>dheap := h\<rparr>)"
    have "rn_resolve_srv k env name out_id cb user s = (-1, Some 0, ?t)"
      using go rq Inl by (simp add: rn_resolve_srv_def Let_def)
    moreover have "req' = None \<and> h = dheap s1 \<or> (\<exists>p q. req' = Some p \<and> holds_req H (insert c C) s1 p q h)"
      using made Inl by (cases req') auto
    note d = discard_holds [OF insertI1 r(1) this refl]
    ultimately show "started H (insert c C - {c}) user s1 (rn_resolve_srv k env name out_id cb user s)"
      using d by (simp add: started_refused)
  next
    case (Inr pq)
    obtain p q where pq: "pq = (p, q)" by (cases pq)
    have hr: "holds_req H (insert c C) s1 p q h" and "\<exists>b. q = ?q\<lparr>name_buf := Some b\<rparr>"
      using made Inr pq by auto
    then obtain b where q: "name_buf q = Some b" "service_buf q = None" "same_call ?q q"
      by (auto simp: empty_req_def same_call_def)
    obtain r' h' where sp: "split_service (env_mem env) p q nm h = (r', h')" by fastforce
    from split_service_holds [OF hr q(1,2) sp] obtain q' where hr': "holds_req H (insert c C) s1 p q' h'"
      and call: "same_call q q'" and r': "r' \<noteq> None \<longrightarrow> r' = Some q'" by auto
    have q': "req_srv_cb q' = cb" "req_user q' = user" using call q(3) by (simp_all add: same_call_def empty_req_def)
    show "started H (insert c C - {c}) user s1 (rn_resolve_srv k env name out_id cb user s)"
    proof (cases r')
      case None
      let ?t = "rn_dns_discard_unstarted (Some c) (Some p) (s1\<lparr>dheap := h'\<rparr>)"
      have "rn_resolve_srv k env name out_id cb user s = (-1, Some 0, ?t)"
        using go rq Inr pq sp None by (simp add: rn_resolve_srv_def Let_def)
      moreover have "Some p = None \<and> h' = dheap s1 \<or> (\<exists>p' q. Some p = Some p' \<and> holds_req H (insert c C) s1 p' q h')"
        using hr' by blast
      note d = discard_holds [OF insertI1 r(1) this refl]
      ultimately show ?thesis using d by (simp add: started_refused)
    next
      case (Some q2)
      then have "rn_resolve_srv k env name out_id cb user s = start_lookup k env c p q' Srv_handler (s1\<lparr>dheap := h'\<rparr>)"
        using go rq Inr pq sp r' by (simp add: rn_resolve_srv_def Let_def)
      then show ?thesis using start_holds [OF k out r(1) insertI1 hr', of Srv_handler] q' go(2) by simp
    qed
  qed
qed

text \<open>Cancelling a pending lookup retires it and makes its one callback.\<close>

lemma cancel_pending:
  assumes inv: "dns_inv H C s" and c: "c \<notin> C" "c \<noteq> 0" and at: "req_at s c = Some (p, q)"
  obtains cb t where "rn_resolve_cancel k c s = call_back k cb (req_user q) Lookup_cancelled t"
    and "dns_inv H C t" and "frame H C s t" and "req_at t = (req_at s)(c := None)" and "trace t = trace s"
    and "req_srv_cb q = Some cb \<or> req_srv_cb q = None \<and> req_addr_cb q = Some cb"
proof -
  from at obtain x where x: "blocks (rctxs s) c = Some x" by (auto simp: req_at_def bind_eq_Some_conv)
  with inv_pending [OF inv, of c] c at have r: "ready x p q" by (auto simp: pending_ok_def)
  have data: "rctx_data x = Some p" and q: "read_req p (dheap s) = Some q"
    using at x by (auto simp: req_at_def bind_eq_Some_conv)
  let ?s1 = "set_data c None s" and ?B = "H \<union> req_ptrs p q"
  note tk = inv_take [OF inv c(1) at]
  have p: "p \<in> ?B" by simp
  have q1: "read_req p (dheap ?s1) = Some q" using q tk(4) by simp
  note sc = set_complete [OF tk(1) p q1]
  let ?q = "q\<lparr>start_state := complete_state (start_state q)\<rparr>"
  let ?s2 = "complete_req p ?s1"
  let ?s3 = "ngx_resolve_name_done c ?s2"
  note nd = inv_name_done [OF sc(1) insertI1]
  have q3: "read_req p (dheap ?s3) = Some ?q" using sc(3) nd(4) by (simp add: read_req_def)
  let ?s4 = "?s3\<lparr>dheap := rn_dns_req_release (Some p) (dheap ?s3)\<rparr>"
  have d: "req_distinct p ?q" and sub: "req_ptrs p ?q \<subseteq> ?B" using r by (auto simp: ready_def)
  have held: "req_ptrs p q \<inter> H = {}" using inv_held [OF inv, of c] at by (simp add: owned_def)
  have B: "?B - req_ptrs p ?q = H" "insert c C - {c} = C" using held c(1) by auto
  note rl = inv_release_req [OF nd(1) q3 d sub, unfolded B]
  have pH: "p \<notin> H" using held req_ptrs_self [of p q] by blast
  have f: "frame H C s ?s4"
  proof (rule frame_trans [OF frame_trans [OF frame_trans] rl(3)])
    show "frame H C s ?s1" using tk(3) by (rule frame_mono) auto
    show "frame H C ?s1 ?s2" using sc(3,4) pH by (auto simp: frame_def)
    show "frame H C ?s2 ?s3" using nd(3) by (rule frame_mono) (use c(1) in auto)
  qed
  have req: "req_at ?s4 = (req_at s)(c := None)" using rl(2) nd(2) sc(2) tk(2) by simp
  have tr: "trace ?s4 = trace s" using nd(5) sc(5) tk(5) by simp
  obtain cb where cb: "req_srv_cb q = Some cb \<or> req_srv_cb q = None \<and> req_addr_cb q = Some cb"
    using r by (auto simp: ready_def)
  have "rn_resolve_cancel k c s = call_back k cb (req_user q) Lookup_cancelled ?s4"
    using x data q c(2) cb by (auto simp: rn_resolve_cancel_def Let_def)
  then show thesis using that rl(1) f req tr cb by blast
qed

text \<open>Any other id is ignored, as long as its context is not retired.\<close>

lemma cancel_ok:
  assumes k: "client_ok k" and inv: "dns_inv H C s" and c: "c = 0 \<or> c \<in> live (rctxs s)"
  shows "dns_inv H C (rn_resolve_cancel k c s)" and "frame H C s (rn_resolve_cancel k c s)"
    and "debt (rn_resolve_cancel k c s) = debt s"
proof -
  have "dns_inv H C (rn_resolve_cancel k c s) \<and> frame H C s (rn_resolve_cancel k c s)
    \<and> debt (rn_resolve_cancel k c s) = debt s"
  proof (cases "c = 0 \<or> c \<in> C")
    case True
    then have "rn_resolve_cancel k c s = s" using inv by (auto simp: rn_resolve_cancel_def dns_inv_def)
    with inv show ?thesis by simp
  next
    case False
    with c have cl: "c \<in> live (rctxs s)" "c \<notin> C" "c \<noteq> 0" by auto
    from inv_pending [OF inv cl(1,2)] obtain p q where at: "req_at s c = Some (p, q)" by (auto simp: pending_ok_def)
    obtain cb t where run: "rn_resolve_cancel k c s = call_back k cb (req_user q) Lookup_cancelled t"
      and t: "dns_inv H C t" "frame H C s t" "req_at t = (req_at s)(c := None)" "trace t = trace s"
      by (rule cancel_pending [OF inv cl(2,3) at])
    have "debt t u = debt s u + (if u = req_user q then 1 else 0)" for u
      by (rule debt_pending_gone [OF inv at t(3,4)])
    with call_back_serves [OF k t(1), of "req_user q" cb Lookup_cancelled] frame_trans [OF t(2)] show ?thesis
      by (auto simp: run serves_def fun_eq_iff)
  qed
  then show "dns_inv H C (rn_resolve_cancel k c s)" "frame H C s (rn_resolve_cancel k c s)"
    "debt (rn_resolve_cancel k c s) = debt s" by simp_all
qed

end
