(* ===== verification/Dns_Properties.thy ===== *)
theory Dns_Properties
  imports Dns_Start
begin

text \<open>
  The DNS adapter under a client that calls it from inside its callbacks: every operation keeps
  the ownership invariant and the balance of accepted lookups, callbacks and pending lookups, so
  does every client made of them, to any nesting depth, and so does every run.
\<close>

subsection \<open>Clients\<close>

fun op_ok :: "dns_op \<Rightarrow> bool" where
  "op_ok (Resolve_srv env name cb user) = outcome_ok (env_outcome env)"
| "op_ok (Resolve_addrs env name cb user) = outcome_ok (env_outcome env)"
| "op_ok (Cancel c) = True"

lemma started_returned:
  assumes "started H C user s result"
  shows "dns_inv H C (returned user result)" and "frame H C s (returned user result)"
    and "debt (returned user result) = debt s"
proof -
  obtain rc i t where r: "result = (rc, i, t)" by (metis prod_cases3)
  show "dns_inv H C (returned user result)" "frame H C s (returned user result)"
    using assms by (simp_all add: returned_def started_def r)
  have "debt (returned user result) u = debt s u" for u
    using assms by (auto simp: returned_def started_def r debt_returned)
  then show "debt (returned user result) = debt s" by blast
qed

lemma client_op_ok:
  assumes k: "client_ok k" and "op_ok oper"
  shows "client_ok (client_op k oper)"
  unfolding client_ok_def
proof (intro allI impI)
  fix H C s assume inv: "dns_inv H C s"
  show "dns_inv H C (client_op k oper s) \<and> frame H C s (client_op k oper s)
    \<and> debt (client_op k oper s) = debt s"
  proof (cases oper)
    case (Resolve_srv env name cb user)
    with assms(2) have "outcome_ok (env_outcome env)" by simp
    from started_returned [OF resolve_srv_started [OF k this inv]] show ?thesis
      by (simp add: client_op_def Resolve_srv)
  next
    case (Resolve_addrs env name cb user)
    with assms(2) have "outcome_ok (env_outcome env)" by simp
    from started_returned [OF resolve_addrs_started [OF k this inv]] show ?thesis
      by (simp add: client_op_def Resolve_addrs)
  next
    case (Cancel c)
    then show ?thesis
      using cancel_ok [OF k inv, of c] inv by (auto simp: client_op_def domIff)
  qed
qed

lemma client_ok_comp:
  assumes "client_ok f" and "client_ok g"
  shows "client_ok (\<lambda>s. g (f s))"
proof -
  have "dns_inv H C (g (f s)) \<and> frame H C s (g (f s)) \<and> debt (g (f s)) = debt s" if "dns_inv H C s" for H C s
    using client_okD [OF assms(1) that] client_okD [OF assms(2), of H C "f s"] frame_trans by fastforce
  then show ?thesis by (simp add: client_ok_def)
qed

lemma client_ok_fold: "client_ok k \<Longrightarrow> list_all op_ok opers \<Longrightarrow> client_ok (fold (client_op k) opers)"
proof (induction opers)
  case (Cons oper opers)
  then show ?case
    using client_ok_comp [OF client_op_ok Cons.IH] by (simp add: o_def)
qed (simp add: client_ok_def)

lemma client_runs_ok: "(\<And>tr. list_all op_ok (cl tr)) \<Longrightarrow> client_ok (client_runs cl n)"
proof (induction n)
  case 0
  then show ?case by (simp add: client_ok_def)
next
  case (Suc n)
  then have "client_ok (fold (client_op (client_runs cl n)) (cl tr))" for tr
    by (intro client_ok_fold) auto
  then show ?case by (simp add: client_ok_def)
qed

subsection \<open>Runs\<close>

fun step_ok :: "dns_step \<Rightarrow> bool" where
  "step_ok (Client_acts oper) = op_ok oper"
| "step_ok (Resolver_answers c a) = answer_ok a"

definition balanced :: "dns_state \<Rightarrow> bool" where
  "balanced s \<longleftrightarrow> dns_inv {} {} s \<and> debt s = (\<lambda>_. 0)"

lemma dns_step_balanced:
  assumes k: "client_ok k" and "step_ok st" and s: "balanced s"
  shows "balanced (dns_step k st s)"
proof (cases st)
  case (Client_acts oper)
  with assms client_op_ok [OF k, of oper] show ?thesis
    by (auto simp: balanced_def dns_step_def client_ok_def)
next
  case (Resolver_answers c a)
  with assms show ?thesis
    using run_handler_pending [OF k, of a "{}" "{}" s c] by (auto simp: balanced_def dns_step_def domIff)
qed

definition guarded_dns_step :: "client_code \<Rightarrow> dns_step \<Rightarrow> dns_state \<Rightarrow> dns_state option" where
  "guarded_dns_step k st s = (if client_ok k \<and> step_ok st then Some (dns_step k st s) else None)"

interpretation dns_run: step_invariant "guarded_dns_step k" balanced
  by unfold_locales (auto simp: guarded_dns_step_def dns_step_balanced split: if_splits)

lemma run_steps_dns:
  "client_ok k \<Longrightarrow> list_all step_ok sts \<Longrightarrow> run_steps (guarded_dns_step k) sts s = Some (run_dns k sts s)"
  by (induction sts arbitrary: s) (auto simp: run_dns_def guarded_dns_step_def)

lemma empty_balanced: "balanced empty_dns"
  by (simp add: balanced_def dns_inv_def empty_dns_def heap_ok_empty live_empty owned_def req_at_def debt_def
      accepted_count_def called_count_def pending_for_def fun_eq_iff) (simp_all add: empty_heap_def)

lemma run_balanced:
  assumes "\<And>tr. list_all op_ok (cl tr)" and "list_all step_ok sts"
  shows "balanced (run_dns (client_runs cl n) sts empty_dns)"
  using dns_run.run_keeps [OF empty_balanced run_steps_dns [OF client_runs_ok assms(2)]] assms(1) by blast

subsection \<open>The answer a callback receives\<close>

text \<open>
  The result that is due to the client for an SRV answer: all the records in the resolver's order,
  or a failure when the answer or one of its records is unusable.
\<close>

definition srv_verdict :: "dns_answer \<Rightarrow> dns_result" where
  "srv_verdict a =
     (let n = length (ans_srvs a) in
      if ans_state_ok a \<and> n \<noteq> 0 \<and> n \<le> SIZE_MAX div sizeof_srv_source
        \<and> n \<le> SIZE_MAX div srv_record_size a \<and> n \<le> SIZE_MAX div sizeof_ptr
        \<and> list_all (\<lambda>v. \<exists>t. srv_name v = Some t \<and> t \<noteq> [] \<and> length t \<noteq> SIZE_MAX) (ans_srvs a)
      then Srv_found (map (\<lambda>v. \<lparr>found_target = c_string (the (srv_name v)), found_port = srv_port v,
        found_priority = srv_priority v, found_weight = srv_weight v, found_ttl_ms = answer_ttl_ms a\<rparr>) (ans_srvs a))
      else Lookup_failed)"

lemma usable_source: "usable (source_of t v) \<longleftrightarrow> (\<exists>n. srv_name v = Some n \<and> n \<noteq> [] \<and> length n \<noteq> SIZE_MAX)"
  by (auto simp: usable_def source_of_def split: option.splits)

lemma read_built:
  assumes "built h r t (map2 record_of srcs qs) (map Some qs) qs (map (\<lambda>src. the (src_target src) @ [nul]) srcs) h'"
    and "length qs = length srcs" and res: "records res = Some r" "count res = length srcs"
  shows "read_records res h' = map (\<lambda>src. \<lparr>found_target = c_string (the (src_target src)), found_port = src_port src,
      found_priority = src_priority src, found_weight = src_weight src, found_ttl_ms = src_ttl_ms src\<rparr>) srcs"
proof -
  have strs: "blocks h' (qs ! i) = Some (Cstr (the (src_target (srcs ! i)) @ [nul]))" if "i < length srcs" for i
    using built_strings [OF assms(1)] assms(2) that by (simp add: list_all2_conv_all_nth)
  have "blocks h' r = Some (Records (map2 record_of srcs qs))" using assms(1) by (auto simp: built_def)
  then show ?thesis
    using assms(2) strs
    by (simp add: read_records_def res list_eq_iff_nth_eq record_of_def read_cstr_def c_string_terminated)
qed

text \<open>
  \<open>due mem v r\<close>: the result \<open>r\<close> that the client is given when \<open>v\<close> is due and \<open>mem\<close> answers the
  allocations: \<open>v\<close>, or a failure when some allocation fails.
\<close>

definition due :: "(nat \<Rightarrow> dns_heap \<Rightarrow> bool) \<Rightarrow> dns_result \<Rightarrow> dns_result \<Rightarrow> bool" where
  "due mem v r \<longleftrightarrow> r = v \<or> r = Lookup_failed \<and> \<not> (\<forall>n h. mem n h)"

lemma due_refl [simp]: "due mem v v"
  by (simp add: due_def)

lemma answer_srv_verdict:
  assumes inv: "dns_inv H C s"
  shows "\<exists>r. trace (answer_srv (\<lambda>s. s) a cb user s) = Called cb user r # trace s \<and> due (ans_mem a) (srv_verdict a) r"
proof -
  let ?n = "length (ans_srvs a)"
  let ?sources = "map (source_of (answer_ttl_ms a)) (ans_srvs a)"
  obtain q h1 where al0: "ngx_alloc (ans_mem a (?n * sizeof_srv_source) (dheap s)) Uninit (dheap s) = (q, h1)"
    by fastforce
  show ?thesis
  proof (cases q)
    case None
    then have "\<not> ans_mem a (?n * sizeof_srv_source) (dheap s)" using al0 by (auto simp: ngx_alloc_def split: if_split_asm)
    then have "due (ans_mem a) (srv_verdict a) Lookup_failed" by (auto simp: due_def)
    moreover have "trace (answer_srv (\<lambda>s. s) a cb user s) = Called cb user Lookup_failed # trace s"
      using al0 None by (simp add: answer_srv_def call_back_def Let_def)
    ultimately show ?thesis by blast
  next
    case (Some p)
    note al = al0 [unfolded Some]
    let ?h2 = "store p (Other (Srv_sources ?sources)) h1"
    obtain rc result h3 where build: "rn_srv_records_build (srv_record_size a) (Some ?sources)
        (Some (rn_srv_ngx_alloc (ans_mem a))) (Some rn_srv_ngx_free) (Some zero_records) ?h2 = (rc, result, h3)"
      by (metis prod_cases3)
    note a = inv_alloc [OF inv al]
    have "heap_ok ?h2" using inv_store(1) [OF a(1) insertI1, of "Other (Srv_sources ?sources)"]
      by (simp add: dns_inv_def)
    note spec = srv_heap.build_spec [OF this build]
    have never: "\<not> (\<forall>n h. ans_mem a n h)" if "rn_srv_ngx_alloc (ans_mem a) n Uninit g = (None, g')" for n g g'
      using that by (auto simp: rn_srv_ngx_alloc_def ngx_alloc_def split: if_split_asm)
    have all: "list_all usable ?sources \<longleftrightarrow>
        list_all (\<lambda>v. \<exists>t. srv_name v = Some t \<and> t \<noteq> [] \<and> length t \<noteq> SIZE_MAX) (ans_srvs a)"
      by (simp add: list_all_iff usable_source)
    have run: "trace (answer_srv (\<lambda>s. s) a cb user s) =
      Called cb user (if \<not> ans_state_ok a \<or> ?n = 0 \<or> ?n > SIZE_MAX div sizeof_srv_source \<or> rc \<noteq> 0 then Lookup_failed
        else Srv_found (read_records (the result) h3)) # trace s"
      using al build by (simp add: answer_srv_def call_back_def Let_def)
    show ?thesis
    proof (cases "rc = 0")
      case False
      then have "ans_srvs a = [] \<or> ?n > SIZE_MAX div srv_record_size a \<or> ?n > SIZE_MAX div sizeof_ptr
          \<or> \<not> list_all usable ?sources \<or> \<not> (\<forall>n h. ans_mem a n h)" using spec never by auto
      with False show ?thesis unfolding run srv_verdict_def Let_def all due_def by auto
    next
      case True
      with spec obtain r t qs where b: "ans_srvs a \<noteq> []" "list_all usable ?sources" "length qs = length ?sources"
        "result = Some \<lparr>records = Some r, targets = Some t, count = length ?sources\<rparr>"
        "built ?h2 r t (map2 record_of ?sources qs) (map Some qs) qs
          (map (\<lambda>src. the (src_target src) @ [nul]) ?sources) h3" by auto
      have "read_records (the result) h3 = map (\<lambda>v. \<lparr>found_target = c_string (the (srv_name v)),
          found_port = srv_port v, found_priority = srv_priority v, found_weight = srv_weight v,
          found_ttl_ms = answer_ttl_ms a\<rparr>) (ans_srvs a)"
        using read_built [OF b(5,3), of "the result"] b(4) by (simp add: source_of_def)
      moreover have "?n \<le> SIZE_MAX div srv_record_size a \<and> ?n \<le> SIZE_MAX div sizeof_ptr"
        using build True by (auto simp: rn_srv_records_build_def Let_def split: if_splits)
      ultimately show ?thesis using True b(1,2) unfolding run srv_verdict_def Let_def all due_def by auto
    qed
  qed
qed

definition addr_verdict :: "dns_answer \<Rightarrow> dns_result" where
  "addr_verdict a =
     (let n = length (ans_addrs a); found = map addr_of (filter copyable (map addr_source_of (ans_addrs a))) in
      if ans_state_ok a \<and> n \<noteq> 0 \<and> n \<le> SIZE_MAX div addr_size a \<and> n \<le> SIZE_MAX div sizeof_addr_source
        \<and> found \<noteq> []
      then Addr_found found else Lookup_failed)"

lemma answer_addr_verdict:
  assumes ok: "answer_ok a"
  shows "\<exists>r. trace (answer_addr (\<lambda>s. s) a cb user s) = Called cb user r # trace s \<and> due (ans_mem a) (addr_verdict a) r"
proof (cases "ans_state_ok a \<and> ans_addrs a \<noteq> [] \<and> \<not> length (ans_addrs a) > SIZE_MAX div addr_size a
    \<and> \<not> length (ans_addrs a) > SIZE_MAX div sizeof_addr_source")
  case False
  then have "trace (answer_addr (\<lambda>s. s) a cb user s) = Called cb user (addr_verdict a) # trace s"
    by (auto simp: answer_addr_def addr_verdict_def call_back_def Let_def)
  then show ?thesis by auto
next
  case True
  obtain d h1 where al1: "ngx_alloc (ans_mem a (length (ans_addrs a) * addr_size a) (dheap s)) Uninit (dheap s) = (d, h1)"
    by fastforce
  obtain p h2 where al2: "ngx_alloc (ans_mem a (length (ans_addrs a) * sizeof_addr_source) h1) Uninit h1 = (p, h2)"
    by fastforce
  let ?xs = "map addr_of (filter copyable (map addr_source_of (ans_addrs a)))"
  have "answer_addr (\<lambda>s. s) a cb user s =
    (let t = addr_callback (\<lambda>s. s) a cb user d p (s\<lparr>dheap := h2\<rparr>)
     in t\<lparr>dheap := free_if d (free_if p (dheap t))\<rparr>)"
    using True al1 al2 by (intro answer_addr_eq ok) auto
  then have "trace (answer_addr (\<lambda>s. s) a cb user s) =
      Called cb user (if d = None \<or> p = None \<or> ?xs = [] then Lookup_failed else Addr_found ?xs) # trace s"
    by (auto simp: addr_callback_def call_back_def Let_def split: option.split)
  moreover have "\<not> (\<forall>n h. ans_mem a n h)" if "d = None \<or> p = None"
    using that al1 al2 by (auto simp: ngx_alloc_def split: if_split_asm)
  then have "due (ans_mem a) (addr_verdict a) (if d = None \<or> p = None \<or> ?xs = [] then Lookup_failed else Addr_found ?xs)"
    using True by (auto simp: due_def addr_verdict_def Let_def)
  ultimately show ?thesis by blast
qed

subsection \<open>The abstract lookup table\<close>

text \<open>
  What the adapter promises the client, without memory, contexts and buffers: a table of pending
  lookups by id, and the log of callbacks.  An answer or a cancellation of a pending id makes its
  one callback and removes it; of any other id it does nothing.
\<close>

datatype dns_lookup = Srv_lookup nat nat | Addr_lookup nat nat

record lookup_table =
  waiting :: "nat \<Rightarrow> dns_lookup option"
  log :: "dns_event list"

fun due_result :: "dns_answer \<Rightarrow> dns_lookup \<Rightarrow> dns_result" where
  "due_result a (Srv_lookup cb user) = srv_verdict a"
| "due_result a (Addr_lookup cb user) = addr_verdict a"

fun result_event :: "(dns_lookup \<Rightarrow> dns_result) \<Rightarrow> dns_lookup \<Rightarrow> dns_event" where
  "result_event f (Srv_lookup cb user) = Called cb user (f (Srv_lookup cb user))"
| "result_event f (Addr_lookup cb user) = Called cb user (f (Addr_lookup cb user))"

definition retire :: "(dns_lookup \<Rightarrow> dns_event) \<Rightarrow> nat \<Rightarrow> lookup_table \<Rightarrow> lookup_table" where
  "retire ev c L =
     (case waiting L c of
        None \<Rightarrow> L
      | Some l \<Rightarrow> \<lparr>waiting = (waiting L)(c := None), log = ev l # log L\<rparr>)"

definition lookup_of :: "rn_dns_req_t \<Rightarrow> dns_lookup" where
  "lookup_of q =
     (case req_srv_cb q of
        Some cb \<Rightarrow> Srv_lookup cb (req_user q)
      | None \<Rightarrow> Addr_lookup (the (req_addr_cb q)) (req_user q))"

definition abs_dns :: "dns_state \<Rightarrow> lookup_table" where
  "abs_dns s = \<lparr>waiting = (\<lambda>c. map_option (lookup_of \<circ> snd) (req_at s c)), log = trace s\<rparr>"

lemma end_handler_trace: "trace (end_handler c p s) = trace s"
  by (simp add: end_handler_def ngx_resolve_name_done_def Let_def split: option.splits)

lemma complete_trace: "trace (complete_req p s) = trace s"
  by (simp add: complete_req_def split: option.splits)

lemma run_handler_trace:
  assumes inv: "dns_inv {} {} s" and ok: "answer_ok a" and at: "req_at s c = Some (p, q)"
  shows "\<exists>r. trace (run_handler (\<lambda>s. s) a c s) = result_event (\<lambda>_. r) (lookup_of q) # trace s
    \<and> due (ans_mem a) (due_result a (lookup_of q)) r"
proof -
  from at obtain x where x: "blocks (rctxs s) c = Some x" by (auto simp: req_at_def bind_eq_Some_conv)
  from inv_pending [OF inv, of c] x at have r: "ready x p q" by (auto simp: pending_ok_def)
  have data: "rctx_data x = Some p" and q: "read_req p (dheap s) = Some q"
    using at x by (auto simp: req_at_def bind_eq_Some_conv)
  note tk = inv_take [OF inv _ at, simplified]
  have q1: "read_req p (dheap (set_data c None s)) = Some q" using q tk(4) by simp
  note sc = set_complete [OF tk(1) req_ptrs_self q1]
  have tr: "trace (complete_req p (set_data c None s)) = trace s" using complete_trace tk(5) by simp
  show ?thesis
  proof (cases "rctx_handler x = Srv_handler")
    case True
    with r obtain cb where cb: "req_srv_cb q = Some cb" by (auto simp: ready_def)
    have "handler_body (\<lambda>s. s) a (rctx_handler x) q = Some (cb, answer_srv (\<lambda>s. s) a)"
      by (simp add: handler_body_def True cb)
    from run_handler_eq [OF x data q this] show ?thesis
      using answer_srv_verdict [OF sc(1), of a cb "req_user q"] tr by (simp add: end_handler_trace lookup_of_def cb)
  next
    case False
    with r obtain cb where cb: "rctx_handler x = Addr_handler" "req_srv_cb q = None" "req_addr_cb q = Some cb"
      by (auto simp: ready_def)
    then have "handler_body (\<lambda>s. s) a (rctx_handler x) q = Some (cb, answer_addr (\<lambda>s. s) a)"
      by (simp add: handler_body_def)
    from run_handler_eq [OF x data q this] show ?thesis
      using answer_addr_verdict [OF ok, of cb "req_user q" "complete_req p (set_data c None s)"] tr by (simp add: end_handler_trace lookup_of_def cb)
  qed
qed

lemma abs_gone:
  assumes "req_at s c = Some (p, q)" and "req_at t = (req_at s)(c := None)" and "trace t = ev (lookup_of q) # trace s"
  shows "abs_dns t = retire ev c (abs_dns s)"
  using assms by (simp add: abs_dns_def retire_def fun_eq_iff)

lemma abs_kept: "req_at s c = None \<Longrightarrow> retire ev c (abs_dns s) = abs_dns s"
  by (simp add: abs_dns_def retire_def)

lemma answer_refines:
  assumes inv: "dns_inv {} {} s" and ok: "answer_ok a"
  shows "\<exists>f. (\<forall>l. due (ans_mem a) (due_result a l) (f l)) \<and>
    abs_dns (dns_step (\<lambda>s. s) (Resolver_answers c a) s) = retire (result_event f) c (abs_dns s)"
proof (cases "blocks (rctxs s) c")
  case None
  then have "req_at s c = None" by (simp add: req_at_def)
  with None abs_kept [OF this] show ?thesis
    by (intro exI [of _ "due_result a"]) (simp add: dns_step_def)
next
  case (Some x)
  with inv_pending [OF inv, of c] obtain p q where at: "req_at s c = Some (p, q)" by (auto simp: pending_ok_def)
  have c: "c \<in> live (rctxs s)" using Some by auto
  have k: "client_ok (\<lambda>s. s)" by (simp add: client_ok_def)
  note h = run_handler_pending(4) [OF k ok inv c]
  obtain r where r: "trace (run_handler (\<lambda>s. s) a c s) = result_event (\<lambda>_. r) (lookup_of q) # trace s"
    "due (ans_mem a) (due_result a (lookup_of q)) r" using run_handler_trace [OF inv ok at] by blast
  let ?f = "(due_result a)(lookup_of q := r)"
  have "result_event ?f (lookup_of q) = result_event (\<lambda>_. r) (lookup_of q)" by (cases "lookup_of q") simp_all
  then have "abs_dns (run_handler (\<lambda>s. s) a c s) = retire (result_event ?f) c (abs_dns s)"
    using h [OF _ refl] r(1) by (intro abs_gone [OF at]) simp_all
  with Some r(2) show ?thesis by (intro exI [of _ ?f]) (simp add: dns_step_def)
qed

lemma cancel_refines:
  assumes inv: "dns_inv {} {} s" and c: "c \<noteq> 0"
  shows "abs_dns (client_op (\<lambda>s. s) (Cancel c) s) = retire (result_event (\<lambda>_. Lookup_cancelled)) c (abs_dns s)"
proof (cases "blocks (rctxs s) c")
  case None
  then have "req_at s c = None" by (simp add: req_at_def)
  with None c abs_kept [OF this] show ?thesis by (simp add: client_op_def)
next
  case (Some x)
  with inv_pending [OF inv, of c] obtain p q where at: "req_at s c = Some (p, q)" by (auto simp: pending_ok_def)
  obtain cb t where run: "rn_resolve_cancel (\<lambda>s. s) c s = call_back (\<lambda>s. s) cb (req_user q) Lookup_cancelled t"
    and t: "req_at t = (req_at s)(c := None)" "trace t = trace s"
    and cb: "req_srv_cb q = Some cb \<or> req_srv_cb q = None \<and> req_addr_cb q = Some cb"
    by (rule cancel_pending [OF inv _ c at, of "\<lambda>s. s"]) simp_all
  have "result_event (\<lambda>_. Lookup_cancelled) (lookup_of q) = Called cb (req_user q) Lookup_cancelled"
    using cb by (auto simp: lookup_of_def)
  with t run show ?thesis
    using Some by (simp add: client_op_def) (intro abs_gone [OF at], simp_all add: call_back_def)
qed

subsection \<open>The properties\<close>

text \<open>
  C6. Under every client, however it starts and cancels lookups inside its callbacks, and for every
  answer of the allocator and the resolver, the adapter never touches a freed block or context;
  every accepted lookup has had exactly one callback or is still pending, and a refused one has
  none; and the memory in use is exactly the requests and buffers of the pending lookups, each
  owned by one of them.
\<close>

theorem lookups_conserved:
  assumes "\<And>tr. list_all op_ok (cl tr)" and "list_all step_ok sts"
    and "s = run_dns (client_runs cl n) sts empty_dns"
  shows "\<not> misused (dheap s) \<and> \<not> misused (rctxs s)
    \<and> (\<forall>u. accepted_count s u = called_count s u + card (pending_for s u))
    \<and> (\<forall>c \<in> live (rctxs s). req_at s c \<noteq> None)
    \<and> live (dheap s) = (\<Union>c. owned s c) \<and> (\<forall>c d. c \<noteq> d \<longrightarrow> owned s c \<inter> owned s d = {})"
proof -
  have b: "balanced s" using run_balanced [OF assms(1,2)] by (simp add: assms(3))
  then have inv: "dns_inv {} {} s" by (simp add: balanced_def)
  have "accepted_count s u = called_count s u + card (pending_for s u)" for u
    using b by (simp add: balanced_def debt_def fun_eq_iff) (metis add_diff_cancel_left' diff_eq_eq of_nat_add of_nat_eq_iff add.commute)
  moreover have "\<forall>c \<in> live (rctxs s). req_at s c \<noteq> None"
  proof
    fix c assume "c \<in> live (rctxs s)"
    then have "pending_ok s c" by (intro inv_pending [OF inv]) simp_all
    then show "req_at s c \<noteq> None" by (auto simp: pending_ok_def)
  qed
  ultimately show ?thesis using inv by (simp add: dns_inv_def heap_ok_def)
qed

text \<open>
  A client that starts another lookup as soon as one of its own was cancelled, inside the
  callback, and a run in which one lookup is accepted, one refused, and the first is cancelled.
\<close>

definition sample_start :: "start_outcome \<Rightarrow> start_env" where
  "sample_start out =
     \<lparr>env_resolver = True, env_context = True, env_timeout = 30000, env_mem = (\<lambda>_ _. True), env_outcome = out\<rparr>"

definition sample_client :: dns_client where
  "sample_client tr =
     (case tr of
        Called cb user Lookup_cancelled # _ \<Rightarrow>
          [Resolve_addrs (sample_start Start_pending) (Some ''n.b'') (Some 9) (user + 1)]
      | _ \<Rightarrow> [])"

definition sample_dns_steps :: "dns_step list" where
  "sample_dns_steps =
     [Client_acts (Resolve_addrs (sample_start Start_pending) (Some ''b'') (Some 8) 1), Client_acts (Cancel 1)]"

text \<open>The same run under a client that only records what it is told.\<close>

definition quiet_dns :: dns_state where
  "quiet_dns = run_dns (client_runs (\<lambda>_. []) 0) sample_dns_steps empty_dns"

lemma sample_client_ok: "list_all op_ok (sample_client tr)"
  by (simp add: sample_client_def sample_start_def split: list.split dns_event.split dns_result.split)

lemma sample_steps_ok: "list_all step_ok sample_dns_steps"
  by (simp add: sample_dns_steps_def sample_start_def)

lemma quiet_client_ok: "list_all op_ok (((\<lambda>_. []) :: dns_client) tr)"
  by simp

lemma lookups_conserved_witness:
  "(\<forall>u. accepted_count (run_dns (client_runs sample_client 2) sample_dns_steps empty_dns) u =
      called_count (run_dns (client_runs sample_client 2) sample_dns_steps empty_dns) u +
      card (pending_for (run_dns (client_runs sample_client 2) sample_dns_steps empty_dns) u))
    \<and> accepted_count quiet_dns 1 = 1 \<and> called_count quiet_dns 1 = 1 \<and> card (pending_for quiet_dns 1) = 0"
proof -
  have "trace quiet_dns = [Called 8 1 Lookup_cancelled, Returned 1 0 1]"
    by code_simp
  then have q: "called_count quiet_dns 1 = 1" "accepted_count quiet_dns 1 = 1"
    by (simp_all add: called_count_def accepted_count_def)
  moreover have "accepted_count quiet_dns 1 = called_count quiet_dns 1 + card (pending_for quiet_dns 1)"
    using lookups_conserved [OF quiet_client_ok sample_steps_ok quiet_dns_def] by simp
  moreover note lookups_conserved [where n = 2, OF sample_client_ok sample_steps_ok refl]
  ultimately show ?thesis by simp
qed

text \<open>
  C7. To a client that only records, answering and cancelling a lookup is what the abstract table of
  pending lookups does: one callback, of the lookup's kind and with its user pointer, and the id is
  retired, while no other lookup changes.  For an answer that is well-formed (\<open>answer_ok\<close>: the address
  lengths the resolver gives fit its addresses) the result is all the records of a usable SRV answer
  in order or all the copyable addresses, and a failure when the answer has none; when an allocation
  fails on the way, it may be a failure instead, and the id is retired all the same.  A cancellation
  gives \<open>RCLIENT_ERR_DNS\<close>.
\<close>

theorem lookup_ends_refine:
  assumes "dns_inv {} {} s"
  shows "(answer_ok a \<longrightarrow> (\<exists>f.
      abs_dns (dns_step (\<lambda>s. s) (Resolver_answers c a) s) = retire (result_event f) c (abs_dns s)
      \<and> (\<forall>l. f l = due_result a l \<or> f l = Lookup_failed \<and> \<not> (\<forall>n h. ans_mem a n h))))
    \<and> (c \<noteq> 0 \<longrightarrow>
      abs_dns (client_op (\<lambda>s. s) (Cancel c) s) = retire (result_event (\<lambda>_. Lookup_cancelled)) c (abs_dns s))"
  using answer_refines [OF assms] cancel_refines [OF assms] unfolding due_def by blast

text \<open>A state with one pending lookup, reached by a run.\<close>

definition waiting_dns :: dns_state where
  "waiting_dns = run_dns (client_runs (\<lambda>_. []) 0) (take 1 sample_dns_steps) empty_dns"

lemma waiting_dns_inv: "dns_inv {} {} waiting_dns"
proof -
  have "list_all step_ok (take 1 sample_dns_steps)" by (simp add: sample_dns_steps_def sample_start_def)
  from run_balanced [of "\<lambda>_. []", OF _ this] show ?thesis by (simp add: balanced_def waiting_dns_def)
qed

lemma lookup_ends_refine_witness:
  "waiting (abs_dns waiting_dns) 1 = Some (Addr_lookup 8 1)
    \<and> waiting (abs_dns (client_op (\<lambda>s. s) (Cancel 1) waiting_dns)) 1 = None"
proof -
  have w: "waiting (abs_dns waiting_dns) 1 = Some (Addr_lookup 8 1)" by code_simp
  moreover have "abs_dns (client_op (\<lambda>s. s) (Cancel 1) waiting_dns) = retire (result_event (\<lambda>_. Lookup_cancelled)) 1 (abs_dns waiting_dns)"
    using lookup_ends_refine [OF waiting_dns_inv, of _ 1] by simp
  ultimately show ?thesis by (simp add: retire_def)
qed

end
