(* ===== verification/Resolv_Conf.thy ===== *)
theory Resolv_Conf
  imports Prelude
begin

text \<open>
  \<open>src/rn_resolv_conf.c\<close>, the reading of one line of \<open>/etc/resolv.conf\<close>, and
  \<open>rn_create_system_dns_resolver\<close>, which turns the file into the arguments of
  \<open>ngx_resolver_create\<close>.

  A pointer that walks through the line is the list of the bytes from it to \<open>end\<close>.  The output
  buffer is the list of its bytes, so its length is \<open>out_capacity\<close>; a null pointer is \<open>None\<close>.
  The specification \<open>nameserver_arg\<close> says what a line means, without a buffer.
\<close>

definition RN_RESOLV_NAMESERVER_MAX :: nat where "RN_RESOLV_NAMESERVER_MAX = 256"

datatype rn_resolv_nameserver_t =
    RN_RESOLV_NAMESERVER_NONE
  | RN_RESOLV_NAMESERVER_INET
  | RN_RESOLV_NAMESERVER_INET6
  | RN_RESOLV_NAMESERVER_UNUSABLE

definition RN_RESOLV_DIRECTIVE :: string where "RN_RESOLV_DIRECTIVE = ''nameserver''"

abbreviation tab :: char where "tab \<equiv> CHR 0x09"
abbreviation line_feed :: char where "line_feed \<equiv> CHR 0x0A"
abbreviation carriage_return :: char where "carriage_return \<equiv> CHR 0x0D"

definition rn_resolv_is_blank :: "char \<Rightarrow> bool" where
  "rn_resolv_is_blank c \<longleftrightarrow> c = CHR '' '' \<or> c = tab"

definition rn_resolv_ends_field :: "char \<Rightarrow> bool" where
  "rn_resolv_ends_field c \<longleftrightarrow>
     rn_resolv_is_blank c \<or> c = nul \<or> c = carriage_return \<or> c = line_feed \<or> c = CHR ''#'' \<or> c = CHR '';''"

subsection \<open>Writing the output\<close>

definition rn_resolv_store :: "string \<Rightarrow> string \<Rightarrow> bool \<times> string \<times> nat" where
  "rn_resolv_store address out =
     (let out_capacity = length out;
        complete = length address + 1 \<le> out_capacity;
        len = (if complete then length address else out_capacity - 1)
      in (complete, (write_bytes 0 (take len address) out)[len := nul], len))"

subsection \<open>One line\<close>

fun skip_blanks :: "string \<Rightarrow> string" where
  "skip_blanks [] = []"
| "skip_blanks (c # cs) = (if rn_resolv_is_blank c then skip_blanks cs else c # cs)"

fun scan_field :: "string \<Rightarrow> string" where
  "scan_field [] = []"
| "scan_field (c # cs) = (if \<not> rn_resolv_ends_field c then c # scan_field cs else [])"

type_synonym nameserver_result = "rn_resolv_nameserver_t \<times> string option \<times> nat option"

definition store_unusable :: "string \<Rightarrow> string \<Rightarrow> nameserver_result" where
  "store_unusable address out =
     (case rn_resolv_store address out of
        (_, out', n) \<Rightarrow> (RN_RESOLV_NAMESERVER_UNUSABLE, Some out', Some n))"

text \<open>The conversion of the address field, from \<open>len == 0\<close> to the end of the function.\<close>

definition convert_address :: "string \<Rightarrow> string \<Rightarrow> nameserver_result" where
  "convert_address address out =
     (let len = length address; bracketed = address ! 0 = CHR ''['' in
      if len = 0 then (RN_RESOLV_NAMESERVER_UNUSABLE, Some out, Some 0)
      else if CHR ''%'' \<in> set address then store_unusable address out
      else if bracketed \<and> (len < 3 \<or> address ! (len - 1) \<noteq> CHR '']'') then store_unusable address out
      else if bracketed \<or> CHR '':'' \<notin> set address
      then (case rn_resolv_store address out of
              (complete, out', n) \<Rightarrow>
                (if \<not> complete then RN_RESOLV_NAMESERVER_UNUSABLE
                 else if bracketed then RN_RESOLV_NAMESERVER_INET6 else RN_RESOLV_NAMESERVER_INET,
                 Some out', Some n))
      else if len + 3 > length out then store_unusable address out
      else (RN_RESOLV_NAMESERVER_INET6,
            Some (((write_bytes 1 address (out[0 := CHR ''['']))[len + 1 := CHR '']''])[len + 2 := nul]),
            Some (len + 2)))"

definition rn_resolv_conf_nameserver ::
  "string option \<Rightarrow> string option \<Rightarrow> nat option \<Rightarrow> nameserver_result" where
  "rn_resolv_conf_nameserver line out out_len =
     (case (out, out_len) of
        (Some buf, Some _) \<Rightarrow>
          (if length buf = 0 then (RN_RESOLV_NAMESERVER_NONE, out, out_len)
           else
             let out0 = buf[0 := nul] in
             case line of
               None \<Rightarrow> (RN_RESOLV_NAMESERVER_NONE, Some out0, Some 0)
             | Some s \<Rightarrow>
                 let p = skip_blanks s; n = length RN_RESOLV_DIRECTIVE in
                 if length p < n \<or> take n p \<noteq> RN_RESOLV_DIRECTIVE
                 then (RN_RESOLV_NAMESERVER_NONE, Some out0, Some 0)
                 else if drop n p \<noteq> [] \<and> \<not> rn_resolv_ends_field (hd (drop n p))
                 then (RN_RESOLV_NAMESERVER_NONE, Some out0, Some 0)
                 else convert_address (scan_field (skip_blanks (drop n p))) out0)
      | _ \<Rightarrow> (RN_RESOLV_NAMESERVER_NONE, out, out_len))"

subsection \<open>The system resolver\<close>

text \<open>
  \<open>fgets (line, n, fp)\<close>: at most \<open>n - 1\<close> bytes, up to and with the first newline, and what is
  left of the file.
\<close>

fun until_newline :: "nat \<Rightarrow> string \<Rightarrow> string \<times> string" where
  "until_newline 0 s = ([], s)"
| "until_newline (Suc n) [] = ([], [])"
| "until_newline (Suc n) (c # s) =
     (if c = line_feed then ([c], s) else map_prod (Cons c) id (until_newline n s))"

definition fgets :: "nat \<Rightarrow> string \<Rightarrow> (string \<times> string) option" where
  "fgets n conf = (if conf = [] then None else Some (until_newline (n - 1) conf))"

definition LINE_SIZE :: nat where "LINE_SIZE = 256"
definition MAX_NAMESERVERS :: nat where "MAX_NAMESERVERS = 16"

lemma until_newline_split: "fst (until_newline n s) @ snd (until_newline n s) = s"
  by (induction n s rule: until_newline.induct) auto

lemma until_newline_shorter:
  assumes "s \<noteq> []" and "0 < n"
  shows "length (snd (until_newline n s)) < length s"
proof -
  have "fst (until_newline n s) \<noteq> []" using assms by (cases n; cases s) auto
  then show ?thesis using arg_cong [OF until_newline_split [of n s], of length] by (cases "fst (until_newline n s)") auto
qed

text \<open>
  The loop over the file: \<open>have_inet6\<close> is nginx's build option \<open>NGX_HAVE_INET6\<close>, \<open>pool_ok\<close> the
  answers of \<open>ngx_pnalloc\<close> by size, \<open>address\<close> the buffer that lives across the iterations.  The
  file is read once more before \<open>n < 16\<close> is tested, as in the code.
\<close>

function nameserver_loop ::
  "bool \<Rightarrow> (nat \<Rightarrow> bool) \<Rightarrow> string \<Rightarrow> string \<Rightarrow> string list \<Rightarrow> string list option" where
  "nameserver_loop have_inet6 pool_ok conf address names =
     (case fgets LINE_SIZE conf of
        None \<Rightarrow> Some names
      | Some (line, rest) \<Rightarrow>
          if \<not> length names < MAX_NAMESERVERS then Some names
          else case rn_resolv_conf_nameserver (Some (c_string line)) (Some address) (Some 0) of
            (kind, address', address_len) \<Rightarrow>
              if kind = RN_RESOLV_NAMESERVER_NONE \<or> kind = RN_RESOLV_NAMESERVER_UNUSABLE
                \<or> (\<not> have_inet6 \<and> kind = RN_RESOLV_NAMESERVER_INET6)
              then nameserver_loop have_inet6 pool_ok rest (the address') names
              else if \<not> pool_ok (the address_len + 1) then None
              else nameserver_loop have_inet6 pool_ok rest (the address')
                (names @ [take (the address_len) (the address')]))"
  by pat_completeness auto
termination
  by (relation "measure (\<lambda>(_, _, conf, _, _). length conf)")
    (auto simp: fgets_def LINE_SIZE_def split: if_splits dest: until_newline_shorter [where n = 255, simplified])

declare nameserver_loop.simps [simp del]

text \<open>
  \<open>conf\<close> is \<open>None\<close> when \<open>fopen\<close> fails, and \<open>create\<close> is \<open>ngx_resolver_create\<close>, which returns a
  resolver or a null pointer.
\<close>

definition system_names :: "bool \<Rightarrow> (nat \<Rightarrow> bool) \<Rightarrow> string option \<Rightarrow> string \<Rightarrow> string list option" where
  "system_names have_inet6 pool_ok conf address =
     do { names \<leftarrow> (case conf of
            None \<Rightarrow> Some []
          | Some s \<Rightarrow> nameserver_loop have_inet6 pool_ok s address []);
          Some (if length names = 0 then [''127.0.0.1''] else names) }"

definition rn_create_system_dns_resolver ::
  "bool \<Rightarrow> (nat \<Rightarrow> bool) \<Rightarrow> (string list \<Rightarrow> nat option) \<Rightarrow> string option \<Rightarrow> nat option" where
  "rn_create_system_dns_resolver have_inet6 pool_ok create conf =
     do { names \<leftarrow> system_names have_inet6 pool_ok conf (replicate RN_RESOLV_NAMESERVER_MAX nul);
          create names }"

subsection \<open>What a line means\<close>

definition address_field :: "string \<Rightarrow> string option" where
  "address_field line =
     (let p = dropWhile rn_resolv_is_blank line; rest = drop 10 p in
      if take 10 p = ''nameserver'' \<and> (rest = [] \<or> rn_resolv_ends_field (hd rest))
      then Some (takeWhile (Not \<circ> rn_resolv_ends_field) (dropWhile rn_resolv_is_blank rest))
      else None)"

text \<open>The resolver argument a nonempty field stands for, when nginx can parse it.\<close>

definition resolver_arg :: "string \<Rightarrow> (rn_resolv_nameserver_t \<times> string) option" where
  "resolver_arg field =
     (if field = [] \<or> CHR ''%'' \<in> set field then None
      else if hd field = CHR ''[''
      then (if 3 \<le> length field \<and> last field = CHR '']'' then Some (RN_RESOLV_NAMESERVER_INET6, field) else None)
      else if CHR '':'' \<in> set field then Some (RN_RESOLV_NAMESERVER_INET6, CHR ''['' # field @ '']'')
      else Some (RN_RESOLV_NAMESERVER_INET, field))"

definition field_arg :: "nat \<Rightarrow> string \<Rightarrow> rn_resolv_nameserver_t \<times> string" where
  "field_arg capacity field =
     (case resolver_arg field of
        Some (kind, arg) \<Rightarrow>
          (if length arg < capacity then (kind, arg)
           else (RN_RESOLV_NAMESERVER_UNUSABLE, take (capacity - 1) field))
      | None \<Rightarrow> (RN_RESOLV_NAMESERVER_UNUSABLE, take (capacity - 1) field))"

definition nameserver_arg :: "nat \<Rightarrow> string \<Rightarrow> rn_resolv_nameserver_t \<times> string" where
  "nameserver_arg capacity line =
     (case address_field line of
        None \<Rightarrow> (RN_RESOLV_NAMESERVER_NONE, [])
      | Some field \<Rightarrow> field_arg capacity field)"

lemma skip_blanks_dropWhile: "skip_blanks s = dropWhile rn_resolv_is_blank s"
  by (induction s) auto

lemma scan_field_takeWhile: "scan_field s = takeWhile (Not \<circ> rn_resolv_ends_field) s"
  by (induction s) auto

text \<open>A buffer that holds a text and its terminator.\<close>

definition holds_text :: "nat \<Rightarrow> string \<Rightarrow> string \<Rightarrow> bool" where
  "holds_text capacity text buf \<longleftrightarrow>
     length buf = capacity \<and> length text < capacity \<and> take (length text) buf = text \<and> buf ! length text = nul"

lemma store_holds:
  assumes "out \<noteq> []" and "rn_resolv_store address out = (complete, out', n)"
  shows "complete \<longleftrightarrow> length address < length out" and "n = length (take (length out - 1) address)"
    and "holds_text (length out) (take (length out - 1) address) out'"
proof -
  from assms show "complete \<longleftrightarrow> length address < length out" "n = length (take (length out - 1) address)"
    by (auto simp: rn_resolv_store_def Let_def)
  from assms show "holds_text (length out) (take (length out - 1) address) out'"
    by (auto simp: rn_resolv_store_def Let_def holds_text_def write_bytes_def nth_append)
qed

lemma bracket_holds:
  assumes "length address + 3 \<le> length out"
  shows "holds_text (length out) (CHR ''['' # address @ '']'')
    (((write_bytes 1 address (out[0 := CHR ''['']))[length address + 1 := CHR '']''])[length address + 2 := nul])"
proof -
  obtain c rest where out: "out = c # rest" using assms by (cases out) auto
  show ?thesis using assms
    by (simp add: out holds_text_def write_bytes_def list_update_append take_update_swap take_Suc_conv_app_nth nth_append)
qed


lemma resolver_arg_nonempty: "resolver_arg field = Some (kind, arg) \<Longrightarrow> field \<noteq> [] \<and> arg \<noteq> []"
  by (auto simp: resolver_arg_def split: if_splits)

lemma resolver_arg_cases:
  "resolver_arg field = Some (kind, arg) \<Longrightarrow>
    arg = field \<or> (kind, arg) = (RN_RESOLV_NAMESERVER_INET6, CHR ''['' # field @ '']'')"
  by (auto simp: resolver_arg_def split: if_splits)

text \<open>The conversion of a field follows \<open>resolver_arg\<close>, as far as the buffer reaches.\<close>

lemma convert_address_spec:
  assumes "out \<noteq> []" and "out ! 0 = nul"
  shows "\<exists>kind text buf. convert_address field out = (kind, Some buf, Some (length text))
    \<and> holds_text (length out) text buf
    \<and> field_arg (length out) field = (kind, text)"
proof (cases "field = []")
  case True
  with assms show ?thesis by (auto simp: convert_address_def field_arg_def resolver_arg_def holds_text_def)
next
  case False
  obtain complete out' n where st: "rn_resolv_store field out = (complete, out', n)"
    by (metis prod_cases3)
  note s = store_holds [OF assms(1) st]
  have field: "field ! 0 = hd field" "field ! (length field - Suc 0) = last field"
    using False by (simp_all add: hd_conv_nth last_conv_nth)
  have full: "complete \<Longrightarrow> take (length out - 1) field = field" using s(1) by simp
  consider (unusable) "resolver_arg field = None"
    | (verbatim) kind where "resolver_arg field = Some (kind, field)"
    | (wrapped) "resolver_arg field = Some (RN_RESOLV_NAMESERVER_INET6, CHR ''['' # field @ '']'')"
    using resolver_arg_cases [of field] by (cases "resolver_arg field") auto
  then show ?thesis
  proof cases
    case unusable
    then have "convert_address field out = store_unusable field out"
      using False by (auto simp: convert_address_def resolver_arg_def field Let_def split: if_splits)
    with unusable s show ?thesis by (simp add: store_unusable_def field_arg_def st)
  next
    case verbatim
    then have "convert_address field out =
      (if complete then kind else RN_RESOLV_NAMESERVER_UNUSABLE, Some out', Some n)"
      using False st by (auto simp: convert_address_def resolver_arg_def field Let_def split: if_splits)
    with verbatim s full show ?thesis by (cases complete) (auto simp: field_arg_def)
  next
    case wrapped
    then have conv: "convert_address field out =
      (if length field + 3 > length out then store_unusable field out
       else (RN_RESOLV_NAMESERVER_INET6,
         Some (((write_bytes 1 field (out[0 := CHR ''['']))[length field + 1 := CHR '']''])[length field + 2 := nul]),
         Some (length field + 2)))"
      using False by (auto simp: convert_address_def resolver_arg_def field Let_def split: if_splits)
    show ?thesis
    proof (cases "length field + 3 > length out")
      case True
      with wrapped conv s show ?thesis by (simp add: store_unusable_def field_arg_def st)
    next
      case fits: False
      then have "length field + 3 \<le> length out" by simp
      note bracket_holds [OF this]
      with wrapped conv fits show ?thesis by (simp add: field_arg_def)
    qed
  qed
qed

lemma nameserver_line:
  "rn_resolv_conf_nameserver (Some line) (Some (c # buf)) (Some n0) =
    (case address_field line of
       None \<Rightarrow> (RN_RESOLV_NAMESERVER_NONE, Some (nul # buf), Some 0)
     | Some field \<Rightarrow> convert_address field (nul # buf))"
proof -
  have len: "length RN_RESOLV_DIRECTIVE = 10" by (simp add: RN_RESOLV_DIRECTIVE_def)
  have short: "length p < 10 \<or> take 10 p \<noteq> RN_RESOLV_DIRECTIVE \<longleftrightarrow> take 10 p \<noteq> RN_RESOLV_DIRECTIVE"
    for p :: string using arg_cong [of "take 10 p" RN_RESOLV_DIRECTIVE length] len by auto
  show ?thesis
    by (simp add: rn_resolv_conf_nameserver_def address_field_def Let_def skip_blanks_dropWhile
        scan_field_takeWhile len short RN_RESOLV_DIRECTIVE_def [symmetric])
qed

lemma nameserver_spec:
  assumes "0 < length buf"
  shows "\<exists>kind text buf'. rn_resolv_conf_nameserver (Some line) (Some buf) (Some n0) =
      (kind, Some buf', Some (length text))
    \<and> holds_text (length buf) text buf' \<and> nameserver_arg (length buf) line = (kind, text)"
proof -
  obtain c rest where buf: "buf = c # rest" using assms by (cases buf) auto
  show ?thesis
  proof (cases "address_field line")
    case None
    then show ?thesis by (simp add: nameserver_line nameserver_arg_def buf holds_text_def)
  next
    case (Some field)
    obtain kind arg buf' where "convert_address field (nul # rest) = (kind, Some buf', Some (length arg))"
      "holds_text (length buf) arg buf'" "nameserver_arg (length buf) line = (kind, arg)"
      using convert_address_spec [of "nul # rest" field] Some by (auto simp: nameserver_arg_def buf)
    with Some show ?thesis by (auto simp: nameserver_line buf)
  qed
qed


subsection \<open>The arguments of the system resolver\<close>

text \<open>The lines \<open>fgets\<close> delivers, and the arguments they stand for.\<close>

function file_chunks :: "string \<Rightarrow> string list" where
  "file_chunks conf =
     (case fgets LINE_SIZE conf of None \<Rightarrow> [] | Some (line, rest) \<Rightarrow> line # file_chunks rest)"
  by pat_completeness auto
termination
  by (relation "measure length")
    (auto simp: fgets_def LINE_SIZE_def split: if_splits dest: until_newline_shorter [where n = 255, simplified])

declare file_chunks.simps [simp del]

definition usable_kind :: "bool \<Rightarrow> rn_resolv_nameserver_t \<Rightarrow> bool" where
  "usable_kind have_inet6 kind \<longleftrightarrow>
     kind = RN_RESOLV_NAMESERVER_INET \<or> (have_inet6 \<and> kind = RN_RESOLV_NAMESERVER_INET6)"

definition usable_args :: "bool \<Rightarrow> string list \<Rightarrow> string list" where
  "usable_args have_inet6 lines =
     map snd (filter (usable_kind have_inet6 \<circ> fst)
       (map (nameserver_arg RN_RESOLV_NAMESERVER_MAX \<circ> c_string) lines))"

lemma usable_args_simps [simp]:
  "usable_args have_inet6 [] = []"
  "usable_args have_inet6 (l # ls) =
    (case nameserver_arg RN_RESOLV_NAMESERVER_MAX (c_string l) of
      (kind, arg) \<Rightarrow> (if usable_kind have_inet6 kind then arg # usable_args have_inet6 ls
        else usable_args have_inet6 ls))"
  by (auto simp: usable_args_def split: prod.splits)

lemma nameserver_loop_spec:
  assumes "length address = RN_RESOLV_NAMESERVER_MAX" and "\<forall>n. pool_ok n"
    and "length names \<le> MAX_NAMESERVERS"
  shows "nameserver_loop have_inet6 pool_ok conf address names =
    Some (take MAX_NAMESERVERS (names @ usable_args have_inet6 (file_chunks conf)))"
  using assms
proof (induction "length conf" arbitrary: conf address names rule: less_induct)
  case less
  show ?case
  proof (cases "fgets LINE_SIZE conf")
    case None
    with less.prems(3) show ?thesis by (simp add: nameserver_loop.simps [of _ _ conf] file_chunks.simps [of conf])
  next
    case (Some lr)
    obtain line rest where lr: "lr = (line, rest)" by (cases lr)
    note got = Some [unfolded lr]
    have shorter: "length rest < length conf"
      using got until_newline_shorter [of conf 255] by (auto simp: fgets_def LINE_SIZE_def split: if_splits)
    show ?thesis
    proof (cases "length names < MAX_NAMESERVERS")
      case False
      then show ?thesis using less.prems(3) by (simp add: nameserver_loop.simps [of _ _ conf] got)
    next
      case True
      have "0 < length address" using less.prems(1) by (simp add: RN_RESOLV_NAMESERVER_MAX_def)
      then obtain kind arg buf where ns: "rn_resolv_conf_nameserver (Some (c_string line)) (Some address) (Some 0) =
          (kind, Some buf, Some (length arg))"
        and h: "holds_text (length address) arg buf"
        and spec: "nameserver_arg RN_RESOLV_NAMESERVER_MAX (c_string line) = (kind, arg)"
        using nameserver_spec [of address "c_string line" 0] less.prems(1) by auto
      have len: "length buf = RN_RESOLV_NAMESERVER_MAX" and arg: "take (length arg) buf = arg"
        using h less.prems(1) by (simp_all add: holds_text_def)
      note step = nameserver_loop.simps [of _ _ conf address names]
        file_chunks.simps [of conf]
      show ?thesis
      proof (cases "usable_kind have_inet6 kind")
        case False
        then have skip: "kind = RN_RESOLV_NAMESERVER_NONE \<or> kind = RN_RESOLV_NAMESERVER_UNUSABLE
          \<or> (\<not> have_inet6 \<and> kind = RN_RESOLV_NAMESERVER_INET6)"
          by (cases kind) (auto simp: usable_kind_def)
        from less.hyps [OF shorter len less.prems(2,3)] True skip len False show ?thesis
          by (simp add: step got ns spec)
      next
        case use: True
        then have keep: "\<not> (kind = RN_RESOLV_NAMESERVER_NONE \<or> kind = RN_RESOLV_NAMESERVER_UNUSABLE
          \<or> (\<not> have_inet6 \<and> kind = RN_RESOLV_NAMESERVER_INET6))"
          by (cases kind) (auto simp: usable_kind_def)
        have "length (names @ [arg]) \<le> MAX_NAMESERVERS" "pool_ok (length arg + 1)"
          using True less.prems(2) by simp_all
        with less.hyps [OF shorter len less.prems(2) this(1)] True len use keep show ?thesis
          by (cases have_inet6; cases kind) (simp_all add: step got ns spec arg)
      qed
    qed
  qed
qed

text \<open>
  On a file of whole lines, each at most 254 bytes and without a NUL, the chunks are the lines.
\<close>

fun join_lines :: "string list \<Rightarrow> string" where
  "join_lines [] = []"
| "join_lines (l # ls) = l @ [line_feed] @ join_lines ls"

definition plain_line :: "string \<Rightarrow> bool" where
  "plain_line l \<longleftrightarrow> length l < LINE_SIZE - 1 \<and> line_feed \<notin> set l \<and> nul \<notin> set l"

lemma until_newline_line:
  assumes "line_feed \<notin> set l" and "length l < n"
  shows "until_newline n (l @ line_feed # s) = (l @ [line_feed], s)"
  using assms
proof (induction l arbitrary: n)
  case Nil
  then show ?case by (cases n) auto
next
  case (Cons c l)
  then show ?case by (cases n) auto
qed

lemma file_chunks_lines: "list_all plain_line ls \<Longrightarrow> file_chunks (join_lines ls) = map (\<lambda>l. l @ [line_feed]) ls"
proof (induction ls)
  case Nil
  then show ?case by (simp add: file_chunks.simps fgets_def)
next
  case (Cons l ls)
  then have "fgets LINE_SIZE (join_lines (l # ls)) = Some (l @ [line_feed], join_lines ls)"
    by (simp add: fgets_def plain_line_def until_newline_line)
  with Cons show ?case by (simp add: file_chunks.simps [of "join_lines (l # ls)"] del: join_lines.simps)
qed

lemma nl_ends: "rn_resolv_ends_field line_feed" and nl_not_blank: "\<not> rn_resolv_is_blank line_feed"
  by (simp_all add: rn_resolv_ends_field_def rn_resolv_is_blank_def)

lemma blank_ends: "rn_resolv_is_blank c \<Longrightarrow> rn_resolv_ends_field c"
  by (simp add: rn_resolv_ends_field_def)

text \<open>The newline at the end of a line does not change what the line means.\<close>

lemma take_directive_newline:
  "take 10 (p @ [line_feed]) = ''nameserver'' \<longleftrightarrow> take 10 p = ''nameserver''"
proof (cases "10 \<le> length p")
  case False
  then have "take 10 (p @ [line_feed]) = p @ [line_feed]" "take 10 p = p" by simp_all
  moreover have "p @ [line_feed] \<noteq> ''nameserver''"
    by (auto dest: arg_cong [of _ _ last])
  moreover have "p \<noteq> ''nameserver''" using False by auto
  ultimately show ?thesis by simp
qed simp

lemma dropWhile_newline:
  "dropWhile rn_resolv_is_blank (p @ [line_feed]) = dropWhile rn_resolv_is_blank p @ [line_feed]"
  by (induction p) (simp_all add: nl_not_blank)

lemma takeWhile_newline:
  "takeWhile (Not \<circ> rn_resolv_ends_field) (p @ [line_feed]) = takeWhile (Not \<circ> rn_resolv_ends_field) p"
  by (induction p) (simp_all add: nl_ends)

lemma address_field_newline: "address_field (l @ [line_feed]) = address_field l"
proof -
  let ?p = "dropWhile rn_resolv_is_blank l"
  show ?thesis
  proof (cases "take 10 ?p = ''nameserver''")
    case True
    have "length (take 10 ?p) = length ''nameserver''" by (simp only: True)
    then have len: "10 \<le> length ?p" by simp
    then have "drop 10 (?p @ [line_feed]) = drop 10 ?p @ [line_feed]" by simp
    then show ?thesis
      using True take_directive_newline [of ?p] nl_ends
      by (cases "drop 10 ?p") (simp_all add: address_field_def dropWhile_newline takeWhile_newline Let_def nl_not_blank
        del: drop_eq_Nil drop_eq_Nil2)
  next
    case False
    then show ?thesis
      using take_directive_newline [of ?p] by (simp add: address_field_def dropWhile_newline Let_def)
  qed
qed

lemma c_string_line: "plain_line l \<Longrightarrow> c_string (l @ [line_feed]) = l @ [line_feed]"
  by (auto simp: c_string_def plain_line_def intro!: takeWhile_eq_all_conv [THEN iffD2])

text \<open>The system's resolver on a file of plain lines.\<close>

lemma created_with_usable:
  assumes "list_all plain_line ls" and "\<forall>n. pool_ok n"
  shows "rn_create_system_dns_resolver have_inet6 pool_ok create (Some (join_lines ls)) =
    (let names = take MAX_NAMESERVERS (map snd (filter (usable_kind have_inet6 \<circ> fst)
       (map (nameserver_arg RN_RESOLV_NAMESERVER_MAX) ls)))
     in create (if names = [] then [''127.0.0.1''] else names))"
proof -
  have arg: "nameserver_arg n (c_string (l @ [line_feed])) = nameserver_arg n l" if "l \<in> set ls" for n l
    using assms(1) that c_string_line [of l] by (simp add: nameserver_arg_def address_field_newline list_all_iff)
  have "usable_args have_inet6 (map (\<lambda>l. l @ [line_feed]) ls) =
      map snd (filter (usable_kind have_inet6 \<circ> fst) (map (nameserver_arg RN_RESOLV_NAMESERVER_MAX) ls))"
    using arg by (simp add: usable_args_def o_def cong: map_cong)
  then show ?thesis
    using nameserver_loop_spec [OF _ assms(2), of "replicate RN_RESOLV_NAMESERVER_MAX nul" "[]"]
    by (simp add: rn_create_system_dns_resolver_def system_names_def file_chunks_lines [OF assms(1)] Let_def)
qed

subsection \<open>The properties\<close>

text \<open>
  C29. For every line and every nonempty output buffer, \<open>rn_resolv_conf_nameserver\<close> returns what
  the specification \<open>nameserver_arg\<close> says the line means: no directive, a verbatim IPv4 address or
  name, an IPv6 literal with the brackets nginx requires, or an unusable entry, whose text it
  truncates.  The output is always NUL-terminated within its capacity, its size is unchanged,
  and \<open>out_len\<close> is the length of the text before the terminator.
\<close>

theorem nameserver_line_correct:
  assumes "0 < length out"
  shows "\<exists>kind arg out'. rn_resolv_conf_nameserver (Some line) (Some out) (Some out_len) =
      (kind, Some out', Some (length arg))
    \<and> nameserver_arg (length out) line = (kind, arg)
    \<and> length out' = length out \<and> length arg < length out
    \<and> take (length arg) out' = arg \<and> out' ! length arg = nul"
  using nameserver_spec [OF assms, of line out_len] unfolding holds_text_def by blast

lemma nameserver_line_correct_witness:
  "\<exists>out'. rn_resolv_conf_nameserver (Some ''nameserver ::1 ; local'') (Some (replicate 8 nul)) (Some 0) =
      (RN_RESOLV_NAMESERVER_INET6, Some out', Some 5) \<and> take 5 out' = ''[::1]''"
proof -
  have "nameserver_arg 8 ''nameserver ::1 ; local'' = (RN_RESOLV_NAMESERVER_INET6, ''[::1]'')" by code_simp
  with nameserver_line_correct [of "replicate 8 nul" "''nameserver ::1 ; local''" 0] show ?thesis
    by (auto simp: eval_nat_numeral)
qed

text \<open>
  C28. When \<open>/etc/resolv.conf\<close> consists of whole lines, each at most 254 bytes and without a NUL
  byte, and memory does not run out, the system resolver is created with the usable nameserver
  entries of the file, in order and as often as they are listed, up to the sixteenth usable one, and
  with \<open>127.0.0.1\<close> when the file has no usable entry.  Entries that nginx cannot use do not count
  towards the sixteen, wherever they stand in the file.
\<close>

theorem system_resolver_arguments:
  assumes "list_all plain_line ls" and "\<forall>n. pool_ok n"
  shows "rn_create_system_dns_resolver have_inet6 pool_ok create (Some (join_lines ls)) =
    (let names = take MAX_NAMESERVERS (map snd (filter (usable_kind have_inet6 \<circ> fst)
       (map (nameserver_arg RN_RESOLV_NAMESERVER_MAX) ls)))
     in create (if names = [] then [''127.0.0.1''] else names))"
  by (rule created_with_usable [OF assms])

lemma system_resolver_arguments_witness:
  "rn_create_system_dns_resolver True (\<lambda>_. True) (\<lambda>names. Some (length (concat names)))
     (Some (join_lines [''nameserver 10.0.0.1'', ''search a'', ''nameserver ::1''])) = Some 13"
proof -
  have "list_all plain_line [''nameserver 10.0.0.1'', ''search a'', ''nameserver ::1'']"
    and "take MAX_NAMESERVERS (map snd (filter (usable_kind True \<circ> fst) (map (nameserver_arg RN_RESOLV_NAMESERVER_MAX)
      [''nameserver 10.0.0.1'', ''search a'', ''nameserver ::1'']))) = [''10.0.0.1'', ''[::1]'']"
    by code_simp+
  note plain = this(1) and names = this(2)
  from system_resolver_arguments [OF plain, of "\<lambda>_. True" True "\<lambda>names. Some (length (concat names))"]
  show ?thesis unfolding Let_def names by simp
qed

text \<open>
  The documentation lets derivation read at most the first sixteen entries of the file; the code
  reads on for sixteen usable ones, so an entry after sixteen unusable ones is still found.
\<close>

lemma seventeenth_entry_is_read:
  "rn_create_system_dns_resolver True (\<lambda>_. True) (\<lambda>names. if names = [''10.0.0.1''] then Some 1 else None)
     (Some (join_lines (replicate 16 ''nameserver ::1%1'' @ [''nameserver 10.0.0.1'']))) = Some 1"
proof -
  let ?ls = "replicate 16 ''nameserver ::1%1'' @ [''nameserver 10.0.0.1'']"
  have plain: "list_all plain_line ?ls"
    and names: "take MAX_NAMESERVERS (map snd (filter (usable_kind True \<circ> fst)
      (map (nameserver_arg RN_RESOLV_NAMESERVER_MAX) ?ls))) = [''10.0.0.1'']"
    by code_simp+
  from created_with_usable [OF plain, of "\<lambda>_. True" True] show ?thesis unfolding Let_def names by simp
qed

text \<open>
  Longer lines are read in pieces of 255 bytes, so the end of a long comment can be taken for a
  directive of its own.
\<close>

lemma overlong_comment_is_read:
  "rn_create_system_dns_resolver True (\<lambda>_. True) (\<lambda>names. if names = [''10.0.0.1''] then Some 1 else None)
     (Some (CHR ''#'' # replicate 254 CHR ''x'' @ ''nameserver 10.0.0.1'')) = Some 1"
  by code_simp

end
