(* ===== verification/Module_Init.thy ===== *)
theory Module_Init
  imports Conf_Types Resolv_Conf
begin

text \<open>
  What the module does around the parsing of the configuration: \<open>ngx_http_rn_add_variables\<close>
  before it, and \<open>ngx_http_rn_init\<close> after it, which registers the two phase handlers, completes
  the main configuration and refuses one that no worker could use.

  nginx's arrays of phase handlers are lists, in the order of the array; nginx runs a phase's
  array from the last element to the first.  \<open>init_env\<close> holds the answers of \<open>ngx_array_push\<close> (0
  for the precontent phase, 1 for the log phase) and of \<open>ngx_pnalloc\<close> by size, nginx's own
  \<open>http\<close>-level location configuration, and the parameters of the system resolver.
\<close>

subsection \<open>Variables\<close>

datatype variable_handler = No_get_handler | Rn_verdict_handler

record ngx_http_variable_t =
  var_name :: string
  var_get_handler :: variable_handler
  var_data :: nat
  var_nocacheable :: bool

definition ngx_http_rn_variables :: "ngx_http_variable_t list" where
  "ngx_http_rn_variables =
     [\<lparr>var_name = ''ratelimitly_verdict'', var_get_handler = Rn_verdict_handler, var_data = 0,
        var_nocacheable = True\<rparr>,
      \<lparr>var_name = [], var_get_handler = No_get_handler, var_data = 0, var_nocacheable = False\<rparr>]"

text \<open>\<open>add\<close> is \<open>ngx_http_add_variable\<close>: the variable it makes, without a handler, or a null pointer.\<close>

fun add_variables_loop ::
  "(string \<Rightarrow> bool \<Rightarrow> bool) \<Rightarrow> ngx_http_variable_t list \<Rightarrow> ngx_http_variable_t list
     \<Rightarrow> ngx_rc \<times> ngx_http_variable_t list" where
  "add_variables_loop add [] known = (NGX_OK, known)"
| "add_variables_loop add (v # vs) known =
     (if length (var_name v) = 0 then (NGX_OK, known)
      else if \<not> add (var_name v) (var_nocacheable v) then (NGX_ERROR, known)
      else add_variables_loop add vs
        (known @ [\<lparr>var_name = var_name v, var_get_handler = var_get_handler v, var_data = var_data v,
           var_nocacheable = var_nocacheable v\<rparr>]))"

definition ngx_http_rn_add_variables ::
  "(string \<Rightarrow> bool \<Rightarrow> bool) \<Rightarrow> ngx_http_variable_t list \<Rightarrow> ngx_rc \<times> ngx_http_variable_t list" where
  "ngx_http_rn_add_variables add known = add_variables_loop add ngx_http_rn_variables known"

lemma verdict_variable_added:
  "ngx_http_rn_add_variables add known =
    (if add ''ratelimitly_verdict'' True
     then (NGX_OK, known @ [\<lparr>var_name = ''ratelimitly_verdict'', var_get_handler = Rn_verdict_handler,
       var_data = 0, var_nocacheable = True\<rparr>])
     else (NGX_ERROR, known))"
  by (simp add: ngx_http_rn_add_variables_def ngx_http_rn_variables_def)

subsection \<open>Phase handlers\<close>

datatype http_handler = Unset_handler | Rn_handler | Rn_log_handler | Other_handler nat

record core_main_conf =
  precontent_handlers :: "http_handler list"
  log_handlers :: "http_handler list"

text \<open>The push, the move of all earlier handlers by one place, and the assignment of \<open>h[0]\<close>.\<close>

definition insert_first :: "http_handler list \<Rightarrow> http_handler list" where
  "insert_first handlers =
     (let
        h = handlers @ [Unset_handler];
        n = length h;
        h1 = (if n > 1 then take 1 h @ take (n - 1) h else h)
      in h1[0 := Rn_handler])"

definition append_log :: "http_handler list \<Rightarrow> http_handler list" where
  "append_log handlers = (handlers @ [Unset_handler])[length handlers := Rn_log_handler]"

lemma insert_first_eq: "insert_first hs = Rn_handler # hs"
  by (cases hs) (simp_all add: insert_first_def Let_def)

lemma append_log_eq: "append_log hs = hs @ [Rn_log_handler]"
  by (simp add: append_log_def list_update_append)

text \<open>
  Handlers that other modules push later, at the end of the array, run before the module's: it is
  the last one of the phase.
\<close>

definition phase_order :: "http_handler list \<Rightarrow> http_handler list" where
  "phase_order handlers = rev handlers"

lemma admission_runs_last: "phase_order (insert_first hs @ later) = rev later @ rev hs @ [Rn_handler]"
  by (simp add: phase_order_def insert_first_eq)

subsection \<open>The main configuration\<close>

text \<open>
  \<open>core_resolver\<close> is a resolver with the number of its nameservers: nginx leaves an empty one in
  a level that has no \<open>resolver\<close> directive.
\<close>

record core_loc_conf =
  core_resolver :: "(nat \<times> nat) option"
  core_resolver_timeout :: u64

record init_env =
  push_ok :: "nat \<Rightarrow> bool"
  pnalloc_ok :: "nat \<Rightarrow> bool"
  core_loc :: "core_loc_conf option"
  have_inet6 :: bool
  create_resolver :: "string list \<Rightarrow> nat option"
  resolv_conf_file :: "string option"
  client_max_replays :: u32

definition NGX_INT64_LEN :: nat where "NGX_INT64_LEN = length ''-9223372036854775808''"

text \<open>\<open>ngx_snprintf\<close> stops at the end of the buffer.\<close>

definition tenant_dns_len :: nat where
  "tenant_dns_len = length ''c-.p0.ratelimitly.com'' + NGX_INT64_LEN"

definition default_tenant_dns :: "u64 \<Rightarrow> string" where
  "default_tenant_dns key =
     take tenant_dns_len (''c-'' @ show_dec (unat key) @ ''.p0.ratelimitly.com'')"

definition init_resolver :: "init_env \<Rightarrow> rn_main_conf_t \<Rightarrow> ngx_rc \<times> rn_main_conf_t" where
  "init_resolver env mcf =
     (if resolver mcf = None
      then case Option.bind (core_loc env) (\<lambda>clcf. Option.bind (core_resolver clcf)
          (\<lambda>(r, nelts). if nelts > 0 then Some (r, core_resolver_timeout clcf) else None)) of
        Some (r, timeout) \<Rightarrow> (NGX_OK, mcf\<lparr>resolver := Some r, resolver_timeout := timeout\<rparr>)
      | None \<Rightarrow>
          (case rn_create_system_dns_resolver (have_inet6 env) (pnalloc_ok env) (create_resolver env)
              (resolv_conf_file env) of
             None \<Rightarrow> (NGX_ERROR, mcf\<lparr>resolver := None\<rparr>)
           | Some r \<Rightarrow> (NGX_OK, mcf\<lparr>resolver := Some r\<rparr>))
      else (NGX_OK, mcf))"

text \<open>The derivation of the tenant name, and the limit of the admission horizon.\<close>

definition name_tenant :: "rn_main_conf_t \<Rightarrow> rn_main_conf_t" where
  "name_tenant mcf =
     (if length (str_of (tenant_dns mcf)) = 0
      then mcf\<lparr>tenant_dns := Some (default_tenant_dns (key_id mcf))\<rparr> else mcf)"

definition horizon_limit :: "rn_main_conf_t \<Rightarrow> u32" where
  "horizon_limit mcf = (if dedup_ttl_ms_max mcf = 0 then UINT32_MAX else dedup_ttl_ms_max mcf)"

definition init_enabled :: "init_env \<Rightarrow> rn_main_conf_t \<Rightarrow> ngx_rc \<times> rn_main_conf_t" where
  "init_enabled env mcf =
     (if length (str_of (auth_key mcf)) = 0 then (NGX_ERROR, mcf)
      else if length (str_of (tenant_dns mcf)) = 0 \<and> \<not> pnalloc_ok env tenant_dns_len then (NGX_ERROR, mcf)
      else
        let mcf1 = name_tenant mcf in
        if rn_policy_horizon_ms (client_max_replays env) (request_policy mcf1) (horizon_limit mcf1) = None
        then (NGX_ERROR, mcf1)
        else case init_resolver env mcf1 of
          (rc, mcf2) \<Rightarrow>
            if rc \<noteq> NGX_OK then (NGX_ERROR, mcf2)
            else (NGX_OK, if resolver_timeout mcf2 = 0 then mcf2\<lparr>resolver_timeout := 30000\<rparr> else mcf2))"

definition ngx_http_rn_init ::
  "init_env \<Rightarrow> core_main_conf option \<Rightarrow> rn_main_conf_t option
     \<Rightarrow> ngx_rc \<times> core_main_conf option \<times> rn_main_conf_t option" where
  "ngx_http_rn_init env cmcf main =
     (case cmcf of
        None \<Rightarrow> (NGX_ERROR, cmcf, main)
      | Some core \<Rightarrow>
          if \<not> push_ok env 0 then (NGX_ERROR, cmcf, main)
          else
            let core1 = core\<lparr>precontent_handlers := insert_first (precontent_handlers core)\<rparr> in
            if \<not> push_ok env 1 then (NGX_ERROR, Some core1, main)
            else
              let core2 = core1\<lparr>log_handlers := append_log (log_handlers core1)\<rparr> in
              case main of
                None \<Rightarrow> (NGX_OK, Some core2, main)
              | Some mcf \<Rightarrow>
                  (if main_enabled mcf
                   then case init_enabled env mcf of (rc, mcf') \<Rightarrow> (rc, Some core2, Some mcf')
                   else (NGX_OK, Some core2, main)))"

subsection \<open>What is accepted\<close>

text \<open>A 64-bit number has at most twenty digits, so the derived name always fits its buffer.\<close>

lemma show_dec_length_le: "0 < d \<Longrightarrow> n < 10 ^ d \<Longrightarrow> length (show_dec n) \<le> d"
proof (induction n arbitrary: d rule: show_dec.induct)
  case (1 n)
  show ?case
  proof (cases "n < 10")
    case True
    with 1 show ?thesis by (subst show_dec.simps) simp
  next
    case False
    with 1 obtain e where d: "d = Suc e" "0 < e" by (cases d; cases "d - 1") auto
    with 1 have "n div 10 < 10 ^ e" by simp
    from 1(1) [OF False d(2) this] show ?thesis using False d by (subst show_dec.simps) simp
  qed
qed

lemma default_tenant_dns_complete:
  "default_tenant_dns key = ''c-'' @ show_dec (unat key) @ ''.p0.ratelimitly.com''"
proof -
  have "length (show_dec (unat key)) \<le> 20"
    by (rule show_dec_length_le) (use unat_u64_less [of key] in simp_all)
  then show ?thesis by (simp add: default_tenant_dns_def tenant_dns_len_def NGX_INT64_LEN_def)
qed

text \<open>The admission of the policy's longest run must fit the deduplication time of the API key.\<close>

definition horizon_fits :: "init_env \<Rightarrow> rn_main_conf_t \<Rightarrow> bool" where
  "horizon_fits env mcf \<longleftrightarrow> policy_ok (client_max_replays env) (request_policy mcf)
     \<and> unat (unit_ms (request_policy mcf)) * horizon_units (request_policy mcf)
         \<le> (if dedup_ttl_ms_max mcf = 0 then 4294967295 else unat (dedup_ttl_ms_max mcf))"

text \<open>
  The resolver, with its timeout, by precedence: the module's directive, a usable resolver of the
  \<open>http\<close> level, the system's.
\<close>

definition chosen_resolver :: "init_env \<Rightarrow> rn_main_conf_t \<Rightarrow> (nat \<times> u64) option" where
  "chosen_resolver env mcf =
     (let
        own = map_option (\<lambda>r. (r, resolver_timeout mcf)) (resolver mcf);
        http = do { clcf \<leftarrow> core_loc env; (r, nelts) \<leftarrow> core_resolver clcf;
                    if nelts > 0 then Some (r, core_resolver_timeout clcf) else None };
        system = map_option (\<lambda>r. (r, resolver_timeout mcf))
          (rn_create_system_dns_resolver (have_inet6 env) (pnalloc_ok env) (create_resolver env)
            (resolv_conf_file env))
      in if own \<noteq> None then own else if http \<noteq> None then http else system)"

definition tenant_name :: "rn_main_conf_t \<Rightarrow> string" where
  "tenant_name mcf =
     (if str_of (tenant_dns mcf) = [] then ''c-'' @ show_dec (unat (key_id mcf)) @ ''.p0.ratelimitly.com''
      else str_of (tenant_dns mcf))"

definition finished_conf :: "nat \<times> u64 \<Rightarrow> rn_main_conf_t \<Rightarrow> rn_main_conf_t" where
  "finished_conf choice mcf =
     mcf\<lparr>tenant_dns := Some (tenant_name mcf), resolver := Some (fst choice),
       resolver_timeout := (if snd choice = 0 then 30000 else snd choice)\<rparr>"

lemma horizon_fits_iff:
  "rn_policy_horizon_ms (client_max_replays env) (request_policy mcf) (horizon_limit mcf) = None
    \<longleftrightarrow> \<not> horizon_fits env mcf"
proof (cases "policy_ok (client_max_replays env) (request_policy mcf)")
  case True
  have "unat (horizon_limit mcf) = (if dedup_ttl_ms_max mcf = 0 then 4294967295 else unat (dedup_ttl_ms_max mcf))"
    by (simp add: horizon_limit_def)
  moreover have "rn_policy_horizon_ms (client_max_replays env) (request_policy mcf) (horizon_limit mcf) = None
      \<longleftrightarrow> map_option unat (rn_policy_horizon_ms (client_max_replays env) (request_policy mcf) (horizon_limit mcf)) = None"
    by simp
  ultimately show ?thesis
    using True unfolding horizon_ms_value [OF True] by (simp add: horizon_fits_def Let_def)
next
  case False
  then show ?thesis by (simp add: horizon_ms_fails horizon_fits_def)
qed

lemma init_resolver_spec:
  "init_resolver env mcf =
    (case chosen_resolver env mcf of
       None \<Rightarrow> (NGX_ERROR, mcf)
     | Some (r, timeout) \<Rightarrow> (NGX_OK, mcf\<lparr>resolver := Some r, resolver_timeout := timeout\<rparr>))"
  by (cases "resolver mcf"; cases "core_loc env")
    (auto simp: init_resolver_def chosen_resolver_def Let_def split: option.splits if_splits prod.splits)

lemma chosen_resolver_tenant: "chosen_resolver env (mcf\<lparr>tenant_dns := d\<rparr>) = chosen_resolver env mcf"
  by (simp add: chosen_resolver_def)

definition startable :: "init_env \<Rightarrow> rn_main_conf_t \<Rightarrow> bool" where
  "startable env mcf \<longleftrightarrow> str_of (auth_key mcf) \<noteq> []
     \<and> (str_of (tenant_dns mcf) = [] \<longrightarrow> pnalloc_ok env tenant_dns_len)
     \<and> horizon_fits env mcf \<and> chosen_resolver env mcf \<noteq> None"

lemma name_tenant_eq: "name_tenant mcf = mcf\<lparr>tenant_dns := Some (tenant_name mcf)\<rparr>"
  by (cases mcf; cases "tenant_dns mcf")
    (auto simp: name_tenant_def tenant_name_def str_of_def default_tenant_dns_complete)

lemma init_enabled_spec:
  "fst (init_enabled env mcf) = (if startable env mcf then NGX_OK else NGX_ERROR)"
  "startable env mcf \<Longrightarrow> snd (init_enabled env mcf) = finished_conf (the (chosen_resolver env mcf)) mcf"
proof -
  let ?m = "mcf\<lparr>tenant_dns := Some (tenant_name mcf)\<rparr>"
  have fits: "horizon_fits env ?m \<longleftrightarrow> horizon_fits env mcf" by (simp add: horizon_fits_def)
  note run = init_enabled_def [of env mcf, unfolded Let_def name_tenant_eq horizon_fits_iff fits length_0_conv]
  show "fst (init_enabled env mcf) = (if startable env mcf then NGX_OK else NGX_ERROR)"
    unfolding run init_resolver_spec chosen_resolver_tenant
    by (cases "chosen_resolver env mcf") (auto simp: startable_def)
  assume st: "startable env mcf"
  then obtain r timeout where "chosen_resolver env mcf = Some (r, timeout)" by (auto simp: startable_def)
  with st show "snd (init_enabled env mcf) = finished_conf (the (chosen_resolver env mcf)) mcf"
    unfolding run init_resolver_spec chosen_resolver_tenant by (auto simp: startable_def finished_conf_def)
qed

subsection \<open>The property\<close>

text \<open>
  C19. For an enabled module, postconfiguration succeeds exactly when both phase handlers can be
  registered, an API key is given, the tenant name is given or can be derived, the policy is
  well-formed and its admission horizon fits the key's deduplication time, and a resolver can be
  had; otherwise it fails with \<open>NGX_ERROR\<close> and nginx does not start.  On success the
  configuration has the given tenant name or the complete derived one, the resolver of the
  highest precedence, and a timeout that is not zero, and nothing else of it has changed; the
  module's handler has become the first of the precontent array, so the last one to run, every
  other handler keeps its order, and the log handler is appended.
\<close>

theorem postconfiguration_decides:
  assumes "main_enabled mcf" and "ngx_http_rn_init env (Some core) (Some mcf) = (rc, core', mcf')"
  shows "rc = (if push_ok env 0 \<and> push_ok env 1 \<and> startable env mcf then NGX_OK else NGX_ERROR)
    \<and> (rc = NGX_OK \<longrightarrow>
         mcf' = Some (finished_conf (the (chosen_resolver env mcf)) mcf)
         \<and> core' = Some (core\<lparr>precontent_handlers := Rn_handler # precontent_handlers core,
             log_handlers := log_handlers core @ [Rn_log_handler]\<rparr>))"
proof (cases "push_ok env 0 \<and> push_ok env 1")
  case True
  obtain rc2 m where e: "init_enabled env mcf = (rc2, m)" by fastforce
  with assms True have "rc = rc2" "mcf' = Some m"
    "core' = Some (core\<lparr>precontent_handlers := Rn_handler # precontent_handlers core,
       log_handlers := log_handlers core @ [Rn_log_handler]\<rparr>)"
    by (simp_all add: ngx_http_rn_init_def Let_def insert_first_eq append_log_eq)
  with True e init_enabled_spec [of env mcf] show ?thesis by auto
next
  case False
  with assms show ?thesis by (auto simp: ngx_http_rn_init_def Let_def split: if_splits)
qed

text \<open>
  A configuration with an API key and a one-round policy, whose deduplication time is one second,
  on a host without \<open>/etc/resolv.conf\<close>.
\<close>

definition fresh_core :: core_main_conf where
  "fresh_core = \<lparr>precontent_handlers = [Other_handler 1, Other_handler 2], log_handlers = [Other_handler 3]\<rparr>"

definition fresh_policy :: r_request_policy_t where
  "fresh_policy = \<lparr>unit_ms = 50, replay_count = 0,
     replay_gap = \<lparr>schedule_kind = R_HA_SCHEDULE_FIXED, initial_units = 1, max_units = 1, growth = 0\<rparr>,
     final_receive_units = 2, completion_delivery = False\<rparr>"

definition fresh_main :: rn_main_conf_t where
  "fresh_main = \<lparr>zones = [], trackers = [], guards = [], groups = [], tenant_dns = None, key_id = 7,
     auth_type = R_AUTH_COOKIE, auth_key = Some ''rl'', dedup_ttl_ms_max = 1000,
     request_policy = fresh_policy, request_policy_kind = RN_POLICY_CUSTOM, request_policy_set = True,
     fail_open = True, main_enabled = True, bind_addr = None,
     bind_sockaddr = \<lparr>sa_family = AF_UNSPEC, sa_port = 0, sa_addr = []\<rparr>, bind_socklen = 0,
     resolver = None, resolver_timeout = 0, init_retry_at = 0, init_retry_delay = 0,
     debug = False, debug_set = False\<rparr>"

definition fresh_init :: "core_loc_conf option \<Rightarrow> init_env" where
  "fresh_init clcf = \<lparr>push_ok = (\<lambda>_. True), pnalloc_ok = (\<lambda>_. True), core_loc = clcf, have_inet6 = True,
     create_resolver = (\<lambda>names. Some (length names)), resolv_conf_file = None, client_max_replays = 5\<rparr>"

lemma fresh_startable: "startable (fresh_init None) fresh_main"
  and fresh_chosen: "chosen_resolver (fresh_init None) fresh_main = Some (1, 0)"
  by code_simp+

lemma postconfiguration_decides_witness:
  "\<exists>core. ngx_http_rn_init (fresh_init None) (Some fresh_core) (Some fresh_main) =
      (NGX_OK, Some core, Some (fresh_main\<lparr>tenant_dns := Some ''c-7.p0.ratelimitly.com'',
         resolver := Some 1, resolver_timeout := 30000\<rparr>))
    \<and> precontent_handlers core = [Rn_handler, Other_handler 1, Other_handler 2]"
proof -
  obtain rc core mcf where run: "ngx_http_rn_init (fresh_init None) (Some fresh_core) (Some fresh_main) = (rc, core, mcf)"
    by (metis prod_cases3)
  have on: "main_enabled fresh_main" by (simp add: fresh_main_def)
  have name: "tenant_name fresh_main = ''c-7.p0.ratelimitly.com''" by code_simp
  have push: "push_ok (fresh_init None) 0" "push_ok (fresh_init None) 1" by (simp_all add: fresh_init_def)
  from postconfiguration_decides [OF on run] fresh_startable fresh_chosen push name run show ?thesis
    by (simp add: finished_conf_def fresh_core_def)
qed

text \<open>
  nginx represents a timeout that no directive sets by \<open>NGX_CONF_UNSET_MSEC\<close>, all bits one.  The
  \<open>http\<close> level is never merged, so with \<open>resolver\<close> but no \<open>resolver_timeout\<close> there, that value,
  and not the 30 seconds of the test for zero, becomes the timeout of every lookup.
\<close>

definition NGX_CONF_UNSET_MSEC :: u64 where "NGX_CONF_UNSET_MSEC = -1"

lemma unset_timeout_is_copied:
  "map_option resolver_timeout (snd (snd (ngx_http_rn_init
      (fresh_init (Some \<lparr>core_resolver = Some (4, 1), core_resolver_timeout = NGX_CONF_UNSET_MSEC\<rparr>))
      (Some fresh_core) (Some fresh_main)))) = Some NGX_CONF_UNSET_MSEC"
  by code_simp

end
