(* ===== verification/Worker_Io.thy ===== *)
theory Worker_Io
  imports Worker Addr_Records
begin

unbundle bit_operations_syntax

text \<open>
  The callbacks that the C client calls for input and output: \<open>rn_udp_send\<close>, \<open>rn_log\<close>, and the
  formatting helpers they use.  (\<open>rn_now_ms\<close> is in Request, \<open>rn_on_steering_feedback\<close> in Worker,
  the resolver callbacks are in Dns.)

  A packet is a list of bytes, a socket address the bytes of a \<open>struct sockaddr_storage\<close> in the
  layout of Linux: a little-endian family, then port and address in network order.  A read past
  the end of an array is undefined in C and makes the result \<open>None\<close>.  \<open>sendto\<close> is a parameter.
\<close>

subsection \<open>Formatting\<close>

fun rn_auth_type_name :: "r_auth_type_t \<Rightarrow> string" where
  "rn_auth_type_name R_AUTH_COOKIE = ''cookie''"
| "rn_auth_type_name R_AUTH_AES_GCM = ''aes''"
| "rn_auth_type_name R_AUTH_NONE = ''unknown''"

definition rn_auth_tlv_name :: "u16 \<Rightarrow> string" where
  "rn_auth_tlv_name tlv_type =
     (if tlv_type = 0x4143 then ''cookie'' else if tlv_type = 0x4541 then ''aes'' else ''unknown'')"

definition rn_read_le16 :: "u8 list option \<Rightarrow> u16 option" where
  "rn_read_le16 p =
     (case p of
        None \<Rightarrow> Some 0
      | Some b \<Rightarrow>
          if length b < 2 then None
          else Some (ucast (b ! 0) OR push_bit 8 (ucast (b ! 1))))"

definition rn_read_le64 :: "u8 list option \<Rightarrow> u64 option" where
  "rn_read_le64 p =
     (case p of
        None \<Rightarrow> Some 0
      | Some b \<Rightarrow>
          if length b < 8 then None
          else Some (ucast (b ! 0) OR push_bit 8 (ucast (b ! 1)) OR push_bit 16 (ucast (b ! 2))
            OR push_bit 24 (ucast (b ! 3)) OR push_bit 32 (ucast (b ! 4)) OR push_bit 40 (ucast (b ! 5))
            OR push_bit 48 (ucast (b ! 6)) OR push_bit 56 (ucast (b ! 7))))"

definition hex_digit :: "u8 \<Rightarrow> char" where
  "hex_digit d = ''0123456789abcdef'' ! unat d"

fun hex16_loop :: "u8 list \<Rightarrow> string" where
  "hex16_loop [] = []"
| "hex16_loop (b # bs) = hex_digit (drop_bit 4 b AND 0x0f) # hex_digit (b AND 0x0f) # hex16_loop bs"

definition rn_hex16 :: "u8 list \<Rightarrow> string option" where
  "rn_hex16 input = (if length input < 16 then None else Some (hex16_loop (take 16 input) @ [nul]))"

definition rn_hex_id :: "u8 list \<Rightarrow> string option" where
  "rn_hex_id input = rn_hex16 input"

subsection \<open>The log callback\<close>

datatype r_log_level_t = R_LOG_ERROR | R_LOG_WARN | R_LOG_INFO | R_LOG_DEBUG

datatype ngx_log_level = NGX_LOG_ERR | NGX_LOG_WARN | NGX_LOG_INFO | NGX_LOG_DEBUG

text \<open>nginx's levels are numbers, the most severe first, and a log writes up to its own level.\<close>

primrec level_number :: "ngx_log_level \<Rightarrow> nat" where
  "level_number NGX_LOG_ERR = 4"
| "level_number NGX_LOG_WARN = 5"
| "level_number NGX_LOG_INFO = 7"
| "level_number NGX_LOG_DEBUG = 8"

lemma level_number_inject: "level_number a = level_number b \<longleftrightarrow> a = b"
  by (cases a; cases b) simp_all

instantiation ngx_log_level :: linorder
begin

definition less_eq_ngx_log_level :: "ngx_log_level \<Rightarrow> ngx_log_level \<Rightarrow> bool" where
  "less_eq_ngx_log_level a b \<longleftrightarrow> level_number a \<le> level_number b"

definition less_ngx_log_level :: "ngx_log_level \<Rightarrow> ngx_log_level \<Rightarrow> bool" where
  "less_ngx_log_level a b \<longleftrightarrow> level_number a < level_number b"

instance
  by standard (auto simp: less_eq_ngx_log_level_def less_ngx_log_level_def level_number_inject)

end

record ngx_log_t =
  log_name :: nat
  log_level :: ngx_log_level

text \<open>
  \<open>worker_log\<close> is the worker's log pointer when there is a worker; the result is the log, the
  level and the message written, if any.
\<close>

definition rn_log ::
  "ngx_log_t option option \<Rightarrow> ngx_log_t option \<Rightarrow> r_log_level_t \<Rightarrow> string option
     \<Rightarrow> (nat \<times> ngx_log_level \<times> string) option" where
  "rn_log worker_log cycle_log level msg =
     (let log = (case worker_log of Some l \<Rightarrow> l | None \<Rightarrow> cycle_log) in
      case (log, msg) of
        (Some l, Some m) \<Rightarrow>
          let ngx_level =
            (if level = R_LOG_ERROR then NGX_LOG_ERR
             else if level = R_LOG_WARN then NGX_LOG_WARN
             else if level = R_LOG_DEBUG then NGX_LOG_DEBUG
             else NGX_LOG_INFO)
          in if log_level l \<ge> ngx_level then Some (log_name l, ngx_level, ''rn: '' @ m) else None
      | _ \<Rightarrow> None)"

text \<open>A log that takes a message of the client takes its errors too.\<close>

lemma rn_log_errors: "rn_log w c level msg \<noteq> None \<Longrightarrow> rn_log w c R_LOG_ERROR msg \<noteq> None"
  by (auto simp: rn_log_def Let_def less_eq_ngx_log_level_def split: option.splits if_splits)

subsection \<open>Sending a datagram\<close>

text \<open>What the debug log says of a packet, and the failure message.\<close>

datatype send_log =
    Log_length nat
  | Log_request nat u64 string string u16 u16
  | Log_failed nat

definition udp_send_log :: "u8 list \<Rightarrow> send_log option" where
  "udp_send_log buf =
     (if length buf \<ge> 44
      then do {
        tlv_type \<leftarrow> rn_read_le16 (Some buf);
        tlv_size \<leftarrow> rn_read_le16 (Some (drop 2 buf));
        if tlv_type = 0x4C52 \<and> tlv_size \<ge> 40 \<and> unat tlv_size \<le> length buf
        then do {
          key_id \<leftarrow> rn_read_le64 (Some (drop 4 buf));
          auth_tlv_type \<leftarrow> rn_read_le16 (Some (drop 40 buf));
          auth_tlv_size \<leftarrow> rn_read_le16 (Some (drop 42 buf));
          hex \<leftarrow> rn_hex16 (drop 12 buf);
          Some (Log_request (length buf) key_id (c_string hex) (rn_auth_tlv_name auth_tlv_type)
            auth_tlv_type auth_tlv_size) }
        else Some (Log_length (length buf)) }
      else Some (Log_length (length buf)))"

record datagram =
  dg_fd :: ptr
  dg_bytes :: "u8 list"
  dg_dest :: string
  dg_dest_len :: nat

definition ss_family :: "string \<Rightarrow> nat" where
  "ss_family ss = of_char (ss ! 0) + 256 * of_char (ss ! 1)"

definition AF_INET_number :: nat where "AF_INET_number = 2"
definition sizeof_sockaddr_in6 :: nat where "sizeof_sockaddr_in6 = 28"

text \<open>
  The \<open>struct sockaddr_in6 mapped\<close>: family at 0, port at 2, address at 8; in \<open>sockaddr_in\<close> the
  port is at 2 and the address at 4.
\<close>

definition mapped_address :: "string \<Rightarrow> string" where
  "mapped_address sin =
     (let
        m0 = replicate sizeof_sockaddr_in6 nul;
        m1 = write_bytes 0 [CHR 0x0A, nul] m0;
        m2 = write_bytes 2 (take 2 (drop 2 sin)) m1;
        m3 = (m2[8 + 10 := CHR 0xFF])[8 + 11 := CHR 0xFF]
      in write_bytes (8 + 12) (take 4 (drop 4 sin)) m3)"

definition send_address :: "rn_worker_ctx_t \<Rightarrow> r_addr_t \<Rightarrow> string \<times> nat" where
  "send_address w to =
     (if udp_family w = AF_INET6 \<and> ss_family (sa to) = AF_INET_number
      then (write_bytes 0 (mapped_address (sa to)) (sa to), sizeof_sockaddr_in6)
      else (sa to, addr_len to))"

definition rn_udp_send ::
  "(datagram \<Rightarrow> int) \<Rightarrow> rn_worker_ctx_t option \<Rightarrow> r_addr_t option \<Rightarrow> u8 list option
     \<Rightarrow> (int \<times> send_log list \<times> datagram option) option" where
  "rn_udp_send sendto wk dest_addr buf =
     (case (wk, dest_addr, buf) of
        (Some w, Some addr, Some bytes) \<Rightarrow>
          (case udp_fd w of
             None \<Rightarrow> Some (-1, [], None)
           | Some fd \<Rightarrow>
               do { logs \<leftarrow> (if worker_debug w then map_option (\<lambda>l. [l]) (udp_send_log bytes) else Some []);
                    let (dest, dest_len) = send_address w addr;
                      dg = \<lparr>dg_fd = fd, dg_bytes = bytes, dg_dest = dest, dg_dest_len = dest_len\<rparr>;
                      n = sendto dg
                    in if n < 0 \<or> nat n \<noteq> length bytes
                       then Some (-1, logs @ (if worker_debug w then [Log_failed (length bytes)] else []), Some dg)
                       else Some (0, logs, Some dg) })
      | _ \<Rightarrow> Some (-1, [], None))"

subsection \<open>Little-endian reads\<close>

fun little_endian :: "u8 list \<Rightarrow> nat" where
  "little_endian [] = 0"
| "little_endian (b # bs) = unat b + 256 * little_endian bs"

lemma unat_byte_less [word_facts]: "unat (b :: u8) < 256"
  using unsigned_less [of b] by simp

lemma unat_ucast_byte [simp]:
  assumes "8 \<le> LENGTH('a)"
  shows "unat (ucast (b :: u8) :: 'a::len word) = unat b"
proof -
  have "(2::nat) ^ 8 \<le> 2 ^ LENGTH('a)" using assms by (rule power_increasing) simp
  then show ?thesis
    using unat_byte_less [of b] by (simp add: unsigned_ucast_eq take_bit_nat_eq_self)
qed

text \<open>One more byte on top of the \<open>k\<close> bits read so far.\<close>

lemma or_shifted:
  fixes x :: "'a::len word" and y :: u8
  assumes "unat x < 2 ^ k" and "k + 8 \<le> LENGTH('a)"
  shows "unat (x OR push_bit k (ucast y)) = unat x + 2 ^ k * unat y"
    and "unat (x OR push_bit k (ucast y)) < 2 ^ (k + 8)"
proof -
  have small: "x = take_bit k x" using assms(1)
    by (simp add: word_unat_eq_iff unsigned_take_bit_eq take_bit_nat_eq_self)
  have y: "unat y + 1 \<le> 256" using unat_byte_less [of y] by simp
  have le: "2 ^ k * unat y + 2 ^ k \<le> 2 ^ (k + 8)"
    using mult_le_mono2 [OF y, of "2 ^ k"] by (simp add: power_add)
  have top: "(2::nat) ^ (k + 8) \<le> 2 ^ LENGTH('a)" using assms(2) by (intro power_increasing) simp_all
  have "x AND push_bit k (ucast y) = 0"
    by (subst small) (auto intro!: bit_word_eqI simp: bit_simps)
  then have sum: "x OR push_bit k (ucast y) = x + push_bit k (ucast y)"
    by (simp add: disjunctive_add_eq_or)
  have "unat ((2 :: 'a word) ^ k) = 2 ^ k"
    using assms(2) unsigned_of_nat [of "2 ^ k", where 'b = 'a and 'a = nat] by (simp add: take_bit_nat_eq_self)
  then have "unat (ucast y :: 'a word) * unat ((2 :: 'a word) ^ k) = 2 ^ k * unat y"
    using assms(2) by simp
  moreover have "2 ^ k * unat y < 2 ^ LENGTH('a)"
    using le top zero_less_power [of "2 :: nat" k] by linarith
  ultimately have "unat (push_bit k (ucast y :: 'a word)) = 2 ^ k * unat y"
    unfolding push_bit_eq_mult by (subst unat_mult_no_wrap) (simp_all del: unat_ucast_byte)
  moreover have "unat x + 2 ^ k * unat y < 2 ^ LENGTH('a)" using assms(1) le top by linarith
  ultimately show "unat (x OR push_bit k (ucast y)) = unat x + 2 ^ k * unat y"
    unfolding sum by (subst unat_add_no_wrap) simp_all
  with assms(1) le show "unat (x OR push_bit k (ucast y)) < 2 ^ (k + 8)" by linarith
qed

lemma le16_value:
  assumes "length b \<ge> 2"
  shows "\<exists>v. rn_read_le16 (Some b) = Some v \<and> unat v = little_endian (take 2 b)"
proof -
  obtain b0 b1 r where b: "b = b0 # b1 # r" using assms by (auto simp: numeral_2_eq_2 Suc_le_length_iff)
  have "unat (ucast b0 OR push_bit 8 (ucast b1) :: u16) = unat b0 + 256 * unat b1"
    using unat_byte_less [of b0] by (subst or_shifted(1)) simp_all
  then show ?thesis by (simp add: rn_read_le16_def b)
qed

lemma le64_value:
  assumes "length b \<ge> 8"
  shows "\<exists>v. rn_read_le64 (Some b) = Some v \<and> unat v = little_endian (take 8 b)"
proof -
  obtain b0 b1 b2 b3 b4 b5 b6 b7 r where b: "b = b0 # b1 # b2 # b3 # b4 # b5 # b6 # b7 # r"
    using assms by (auto simp: eval_nat_numeral Suc_le_length_iff)
  have x0: "unat (ucast b0 :: u64) < 2 ^ 8" using unat_byte_less [of b0] by simp
  note x1 = or_shifted [OF x0, of b1, simplified]
  note x2 = or_shifted [where k = 16, simplified, OF x1(2), of b2]
  note x3 = or_shifted [where k = 24, simplified, OF x2(2), of b3]
  note x4 = or_shifted [where k = 32, simplified, OF x3(2), of b4]
  note x5 = or_shifted [where k = 40, simplified, OF x4(2), of b5]
  note x6 = or_shifted [where k = 48, simplified, OF x5(2), of b6]
  note x7 = or_shifted(1) [where k = 56, simplified, OF x6(2), of b7]
  have "rn_read_le64 (Some b) = Some (((((((ucast b0 OR push_bit 8 (ucast b1)) OR push_bit 16 (ucast b2))
      OR push_bit 24 (ucast b3)) OR push_bit 32 (ucast b4)) OR push_bit 40 (ucast b5))
      OR push_bit 48 (ucast b6)) OR push_bit 56 (ucast b7))"
    by (simp add: rn_read_le64_def b or.assoc)
  moreover have "little_endian (take 8 b) = unat b0 + 256 * unat b1 + 65536 * unat b2 + 16777216 * unat b3
      + 4294967296 * unat b4 + 1099511627776 * unat b5 + 281474976710656 * unat b6 + 72057594037927936 * unat b7"
    by (simp add: b)
  ultimately show ?thesis using x1(1) x2(1) x3(1) x4(1) x5(1) x6(1) x7 by simp
qed

text \<open>The text of an identifier is 32 characters, none of which ends it early.\<close>

lemma hex_digit_not_nul: "unat d < 16 \<Longrightarrow> hex_digit d \<noteq> nul"
proof -
  assume "unat d < 16"
  then have "hex_digit d \<in> set ''0123456789abcdef''"
    unfolding hex_digit_def by (intro nth_mem) simp
  then show ?thesis by auto
qed

lemma nibbles: "unat (drop_bit 4 (b :: u8) AND 0x0f) < 16" "unat (b AND 0x0f) < 16"
proof -
  have "unat (x AND 0x0f) < 16" for x :: u8
    using word_and_le1 [of x "0x0f"] by (simp add: word_le_nat_alt le_less_trans)
  then show "unat (drop_bit 4 b AND 0x0f) < 16" "unat (b AND 0x0f) < 16" by auto
qed

lemma hex16_loop_text: "length (hex16_loop bs) = 2 * length bs \<and> nul \<notin> set (hex16_loop bs)"
  using hex_digit_not_nul nibbles by (induction bs) fastforce+

lemma hex16_text:
  assumes "16 \<le> length b"
  shows "\<exists>out. rn_hex16 b = Some out \<and> length out = 33 \<and> length (c_string out) = 32"
proof -
  have "length (hex16_loop (take 16 b)) = 32" and no: "nul \<notin> set (hex16_loop (take 16 b))"
    using hex16_loop_text [of "take 16 b"] assms by simp_all
  moreover from no have "c_string (hex16_loop (take 16 b) @ [nul]) = hex16_loop (take 16 b)"
    by (auto simp: c_string_def takeWhile_append)
  ultimately show ?thesis using assms by (simp add: rn_hex16_def)
qed

subsection \<open>The mapped address\<close>

text \<open>RFC 4291: an IPv4 address in IPv6 is ten zero bytes, two bytes of ones, and its four bytes.\<close>

definition v4_mapped :: "string \<Rightarrow> string \<Rightarrow> string" where
  "v4_mapped port addr =
     [CHR 0x0A, nul] @ port @ replicate 4 nul @ (replicate 10 nul @ [CHR 0xFF, CHR 0xFF] @ addr) @ replicate 4 nul"

lemma mapped_address_eq:
  assumes "8 \<le> length sin"
  shows "mapped_address sin = v4_mapped (take 2 (drop 2 sin)) (take 4 (drop 4 sin))"
proof -
  obtain a b c d e f g h r where "sin = a # b # c # d # e # f # g # h # r"
    using assms by (auto simp: eval_nat_numeral Suc_le_length_iff)
  then show ?thesis
    by (simp add: mapped_address_def v4_mapped_def sizeof_sockaddr_in6_def write_bytes_def Let_def eval_nat_numeral)
qed

text \<open>No read of the debug log is outside the packet.\<close>

lemma udp_send_log_ok: "udp_send_log buf \<noteq> None"
proof (cases "length buf \<ge> 44")
  case True
  then obtain v1 v2 v3 v4 v5 where "rn_read_le16 (Some buf) = Some v1" "rn_read_le16 (Some (drop 2 buf)) = Some v2"
    "rn_read_le64 (Some (drop 4 buf)) = Some v3" "rn_read_le16 (Some (drop 40 buf)) = Some v4"
    "rn_read_le16 (Some (drop 42 buf)) = Some v5"
    using le16_value [of buf] le16_value [of "drop 2 buf"] le64_value [of "drop 4 buf"]
      le16_value [of "drop 40 buf"] le16_value [of "drop 42 buf"] by fastforce
  moreover have "\<not> length (drop 12 buf) < 16" using True by simp
  ultimately show ?thesis using True by (simp add: udp_send_log_def rn_hex16_def)
qed (simp add: udp_send_log_def)

lemma rn_udp_send_run:
  assumes "udp_fd w = Some fd"
  obtains logs where "rn_udp_send sendto (Some w) (Some to) (Some buf) =
    (let dg = \<lparr>dg_fd = fd, dg_bytes = buf, dg_dest = fst (send_address w to), dg_dest_len = snd (send_address w to)\<rparr>
     in Some (if sendto dg = int (length buf) then 0 else -1, logs, Some dg))"
proof (cases "worker_debug w")
  case True
  obtain l where "udp_send_log buf = Some l" using udp_send_log_ok [of buf] by auto
  with True assms show thesis
    by (intro that [of "if sendto \<lparr>dg_fd = fd, dg_bytes = buf, dg_dest = fst (send_address w to),
      dg_dest_len = snd (send_address w to)\<rparr> = int (length buf) then [l] else [l, Log_failed (length buf)]"])
      (auto simp: rn_udp_send_def Let_def split_beta)
next
  case False
  with assms show thesis by (intro that [of "[]"]) (auto simp: rn_udp_send_def Let_def split_beta)
qed

lemma send_address_mapped:
  assumes "r_addr_ok to" and "udp_family w = AF_INET6" and "ss_family (sa to) = AF_INET_number"
  shows "take 28 (fst (send_address w to)) = v4_mapped (take 2 (drop 2 (sa to))) (take 4 (drop 4 (sa to)))"
    and "length (fst (send_address w to)) = SOCKADDR_STORAGE_SIZE" and "snd (send_address w to) = 28"
proof -
  have len: "length (sa to) = 128" using assms(1) by (simp add: r_addr_ok_def SOCKADDR_STORAGE_SIZE_def)
  then have m: "mapped_address (sa to) = v4_mapped (take 2 (drop 2 (sa to))) (take 4 (drop 4 (sa to)))"
    by (intro mapped_address_eq) simp
  have "length (mapped_address (sa to)) = 28" using len by (simp add: m v4_mapped_def)
  with assms(2,3) len m
  show "take 28 (fst (send_address w to)) = v4_mapped (take 2 (drop 2 (sa to))) (take 4 (drop 4 (sa to)))"
    and "length (fst (send_address w to)) = SOCKADDR_STORAGE_SIZE" and "snd (send_address w to) = 28"
    by (simp_all add: send_address_def write_bytes_def sizeof_sockaddr_in6_def SOCKADDR_STORAGE_SIZE_def)
qed

subsection \<open>The property\<close>

text \<open>
  C27. With an open endpoint, \<open>rn_udp_send\<close> hands the packet unchanged to the endpoint's socket in
  one datagram, and returns 0 exactly when all of it was sent.  An IPv4 destination on an IPv6
  socket becomes the IPv4-mapped address with the same port and the length of a
  \<open>sockaddr_in6\<close>; every other destination goes out as the resolver gave it.  The debug log reads
  nothing outside the packet, whatever its length fields claim.
\<close>

theorem udp_send_correct:
  assumes "udp_fd w = Some fd" and "r_addr_ok to"
  shows "\<exists>logs dg. rn_udp_send sendto (Some w) (Some to) (Some buf) =
      Some (if sendto dg = int (length buf) then 0 else -1, logs, Some dg)
    \<and> dg_fd dg = fd \<and> dg_bytes dg = buf \<and> length (dg_dest dg) = SOCKADDR_STORAGE_SIZE
    \<and> (if udp_family w = AF_INET6 \<and> ss_family (sa to) = AF_INET_number
       then take 28 (dg_dest dg) = v4_mapped (take 2 (drop 2 (sa to))) (take 4 (drop 4 (sa to)))
         \<and> dg_dest_len dg = 28
       else dg_dest dg = sa to \<and> dg_dest_len dg = addr_len to)"
proof -
  obtain logs where run: "rn_udp_send sendto (Some w) (Some to) (Some buf) =
    (let dg = \<lparr>dg_fd = fd, dg_bytes = buf, dg_dest = fst (send_address w to), dg_dest_len = snd (send_address w to)\<rparr>
     in Some (if sendto dg = int (length buf) then 0 else -1, logs, Some dg))"
    by (rule rn_udp_send_run [OF assms(1)])
  show ?thesis
  proof (cases "udp_family w = AF_INET6 \<and> ss_family (sa to) = AF_INET_number")
    case True
    with run send_address_mapped [OF assms(2), of w] show ?thesis by (simp add: Let_def)
  next
    case False
    then have addr: "send_address w to = (sa to, addr_len to)" by (auto simp: send_address_def)
    from False assms(2) run show ?thesis unfolding addr by (auto simp: Let_def r_addr_ok_def)
  qed
qed

text \<open>A reply port 53 at 192.0.2.1, sent from an IPv6 endpoint by a system that sends all.\<close>

definition v4_destination :: r_addr_t where
  "v4_destination = \<lparr>sa = [CHR 0x02, nul, nul, CHR 0x35, CHR 0xC0, nul, CHR 0x02, CHR 0x01] @ replicate 120 nul, addr_len = 16\<rparr>"

definition open_worker :: rn_worker_ctx_t where
  "open_worker = \<lparr>self = 1, client = None, cfg_dns_name = None, cfg_key_id = 0, cfg_auth_type = R_AUTH_NONE,
     cfg_secret = None, cfg_secret_len = 0, worker_policy = zero_policy, worker_resolver = None,
     worker_resolver_timeout = 0, udp_fd = Some 5, udp_family = AF_INET6, udp_conn = Some 6, inflight = 0,
     rebind_pending = False, rebind_scheduled = False, rebind_event = None, udp_read_active = False,
     worker_bind_sockaddr = \<lparr>sa_family = AF_UNSPEC, sa_port = 0, sa_addr = []\<rparr>, worker_bind_socklen = 0,
     worker_debug = True\<rparr>"

lemma udp_send_correct_witness:
  "\<exists>logs dg. rn_udp_send (\<lambda>d. int (length (dg_bytes d))) (Some open_worker) (Some v4_destination) (Some [1, 2, 3]) =
      Some (0, logs, Some dg)
    \<and> take 28 (dg_dest dg) = v4_mapped [nul, CHR 0x35] [CHR 0xC0, nul, CHR 0x02, CHR 0x01] \<and> dg_dest_len dg = 28"
proof -
  have fd: "udp_fd open_worker = Some 5" "udp_family open_worker = AF_INET6" by (simp_all add: open_worker_def)
  have ok: "r_addr_ok v4_destination" by code_simp
  have fam: "ss_family (sa v4_destination) = AF_INET_number"
    and parts: "take 2 (drop 2 (sa v4_destination)) = [nul, CHR 0x35]"
      "take 4 (drop 4 (sa v4_destination)) = [CHR 0xC0, nul, CHR 0x02, CHR 0x01]" by code_simp+
  from udp_send_correct [OF fd(1) ok, of "\<lambda>d. int (length (dg_bytes d))" "[1, 2, 3]"] show ?thesis
    unfolding fd(2) fam parts by auto
qed

end
