(* ===== verification/Spec2Isabelle.thy ===== *)
theory Spec2Isabelle
  imports Config_Load Request_Properties Dns_Properties Module_Init Worker_Io
begin

text \<open>
  Verification library of \<open>ngx_http_ratelimitly_module\<close>, the nginx module that asks the
  RateLimitly service, over UDP, whether a request may pass.  The program is the C code under
  \<open>src/\<close> of the repository: the module itself, \<open>src/ngx_http_ratelimitly_module.c\<close> (below: the
  module), and five helper files.

  \<^bold>\<open>The parts and how they interact.\<close>  nginx parses the configuration file and calls one handler
  per directive (Config, Policy); nested blocks inherit (Config_Load); after parsing,
  postconfiguration registers the phase handlers and completes the configuration, with the
  system's nameservers if it needs them (Module_Init, Resolv_Conf).  In a worker process the
  first protected request creates the worker context with its UDP endpoint and the C client
  (Worker).  Each request runs the pre-content handler, which expands the rules of its location
  into a check (Request_Build), starts it and waits; the client's completion callback, the
  deadline timer, or the end of the request finishes the wait (Request, Request_System).  The
  client calls back into the module to send packets (Worker_Io), to resolve the service's SRV
  and address records (Dns, Srv_Records, Addr_Records, Async_State), and to announce that the
  port should change (Worker).

  \<^bold>\<open>Theories and code.\<close>
  \<^item> Prelude: machine words, C string routines, fallible runs.  Heap: allocation with ownership,
    the interface \<open>allocator\<close>.
  \<^item> Numeric: \<open>rn_numeric.c\<close>.  Policy, Policy_Args: \<open>rn_parse_protocol_duration_ms\<close>,
    \<open>rn_parse_policy_schedule\<close>, \<open>rn_policy_schedule_units\<close>, \<open>rn_policy_horizon_ms\<close> and
    \<open>ngx_http_rn_set_policy\<close>.
  \<^item> Conf_Types, Config, Config_Load: the configuration structures and \<open>rn_find_*\<close> (the interface
    \<open>registry\<close>), every directive handler, the create and merge hooks, and the command table as
    a step function.
  \<^item> Module_Init: \<open>ngx_http_rn_add_variables\<close>, \<open>ngx_http_rn_init\<close>.  Resolv_Conf:
    \<open>rn_resolv_conf.c\<close> and \<open>rn_create_system_dns_resolver\<close>.
  \<^item> Worker, Worker_Facts: \<open>rn_worker_init\<close>, \<open>rn_worker_ensure\<close>, \<open>rn_worker_cleanup\<close>,
    \<open>rn_exit_process\<close>, \<open>rn_open_socket_candidate\<close>, \<open>rn_rebind_*\<close>, \<open>rn_schedule_rebind*\<close>,
    \<open>rn_on_steering_feedback\<close>, \<open>rn_udp_read_handler\<close>.  Worker_Io: \<open>rn_udp_send\<close>, \<open>rn_log\<close> and the
    formatting helpers.
  \<^item> Request_Build: \<open>rn_build_*\<close>, \<open>rn_zone_rate_for_request\<close> and the expansion loop of the
    handler.  Request: \<open>ngx_http_rn_handler\<close>, \<open>rn_rate_cb\<close>, \<open>rn_request_timeout_handler\<close>,
    \<open>rn_request_teardown\<close>, \<open>rn_request_cleanup\<close>, \<open>rn_get_request_ctx\<close>,
    \<open>ngx_http_rn_log_handler\<close>, \<open>ngx_http_rn_verdict_variable\<close>.  Request_System: the events of a
    worker process as a step relation.  Request_Inv, Request_Updates, Request_Ends,
    Request_Handler, Request_Safety, Request_Properties: its invariant and what follows.
  \<^item> Async_State: \<open>rn_async_state.c\<close> (the interface \<open>async_operation\<close>).  Srv_Records:
    \<open>rn_srv_records.c\<close>.  Addr_Records: \<open>rn_addr_records.c\<close>.  Dns: \<open>rn_resolve_srv\<close>,
    \<open>rn_resolve_addrs\<close>, \<open>rn_resolve_cancel\<close>, the two resolver handlers and the release functions.
    Dns_Owner, Dns_Answers, Dns_Start, Dns_Properties: ownership of its memory, the balance of
    lookups and callbacks, and the refinement of a table of pending lookups.

  \<^bold>\<open>State.\<close>  A structure is a record with the fields of the C type; an enum a datatype; an integer
  a word of its width where it can wrap, and \<open>nat\<close> for sizes and counts of objects in memory.
  Objects with a lifetime of their own are blocks of an explicit heap: a free or an access
  through a dead pointer sets \<open>misused\<close> (Worker, Srv_Records, Dns) or makes the whole event
  \<open>None\<close> (Request), and the safety properties say that this does not happen.  What the code
  calls outside the repository (nginx, the operating system, the C client) is a parameter: the
  fields of \<open>conf_env\<close>, \<open>init_env\<close>, \<open>worker_env\<close>, \<open>sock_env\<close>, \<open>render_env\<close>, \<open>handler_env\<close>,
  \<open>timeout_env\<close>, \<open>log_env\<close>, \<open>start_env\<close> and \<open>dns_answer\<close>, and the functions \<open>sendto\<close>, \<open>recvfrom\<close> and
  \<open>ngx_resolver_create\<close>.  Contracts of theirs that a property needs are named
  hypotheses (\<open>merge_contract\<close>, \<open>answer_ok\<close>) or part of \<open>enabled_event\<close>.

  \<^bold>\<open>What is shown.\<close>  For the request path, in every reachable state of a worker process: no event
  touches freed memory or a dead handle; a request causes at most one check; a waiting context
  owns exactly one handle, one request reference and one unit of the in-flight count; decisions
  are final and agree with the recorded outcome; termination releases everything; a timer makes
  progress; the endpoint is not replaced under a request in flight.  The completion decides as
  a declarative contract says and then resumes the request's phases.  For the worker: creation is
  all or nothing with backoff and hands the configuration to the client; after any run its objects
  are exactly what is allocated, and exit releases them and its timer; requested rebinds are not
  lost and happen; the receive loop ends.  For the DNS adapter: memory and callbacks are conserved
  under reentrant clients, and the operations refine an abstract table, also when memory runs out.
  For the configuration: what loads resolves, inherits from the innermost block, builds its checks
  and reaches the worker; policies, rates, schedules and \<open>resolv.conf\<close> lines mean what their
  specifications say; postconfiguration has an exact success condition.

  \<^bold>\<open>Bounds and fuel.\<close>  The loops over configuration data, records and files are recursions on the
  data; the receive loop and the horizon loop have measures (64 datagrams, the replay count).
  Two places take a finite list instead of an open-ended behaviour, and the properties hold for
  every such list: what nginx does with a resumed request (\<open>resume_phases\<close>), and how deep a DNS
  client may react to a callback within a callback (\<open>client_runs\<close>, any depth \<open>n\<close>).  Pointers are never
  reused, so an id that was retired stays recognisable; a DNS client cancels only ids that are
  pending or 0, as the adapter's interface demands.

  \<^bold>\<open>Not modelled.\<close>  Log messages other than those of \<open>rn_udp_send\<close> and \<open>rn_log\<close>, which change no
  state; the test-only fault injection (\<open>rn_test_fault_active\<close>), which is compiled out; the
  layout of socket addresses beyond Linux; build files, tests and tools.  The C client's protocol
  and nginx's phase engine are outside the repository and enter by their contracts.

  This theory holds the property that spans the components from the configuration file to the
  worker.
\<close>

subsection \<open>From the configuration file to a working process\<close>

text \<open>Postconfiguration changes no table and no flag of the loaded configuration.\<close>

lemma finished_same_tables: "same_tables m (finished_conf choice m)"
  by (simp add: same_tables_def finished_conf_def)

lemma finished_settings:
  "auth_key (finished_conf choice m) = auth_key m" "request_policy (finished_conf choice m) = request_policy m"
  "dedup_ttl_ms_max (finished_conf choice m) = dedup_ttl_ms_max m" "key_id (finished_conf choice m) = key_id m"
  "auth_type (finished_conf choice m) = auth_type m" "tenant_dns (finished_conf choice m) = Some (tenant_name m)"
  "resolver (finished_conf choice m) = Some (fst choice)"
  "resolver_timeout (finished_conf choice m) = (if snd choice = 0 then 30000 else snd choice)"
  "str_of (tenant_dns (finished_conf choice m)) \<noteq> []"
  by (simp_all add: finished_conf_def tenant_name_def str_of_def)

lemma init_ready:
  assumes "main_enabled m0" and "ngx_http_rn_init env (Some core) (Some m0) = (NGX_OK, core', Some m)"
  shows "\<exists>choice. chosen_resolver env m0 = Some choice \<and> m = finished_conf choice m0 \<and> startable env m0"
proof -
  obtain rc m' where e: "init_enabled env m0 = (rc, m')" by fastforce
  with assms have "rc = NGX_OK" "m = m'"
    by (simp_all add: ngx_http_rn_init_def Let_def split: if_splits)
  with e init_enabled_spec [of env m0]
  have "startable env m0" "m = finished_conf (the (chosen_resolver env m0)) m0" by (auto split: if_splits)
  then show ?thesis by (auto simp: startable_def)
qed

lemma conf_wf_finished: "conf_wf st \<Longrightarrow> conf_wf (st\<lparr>main := finished_conf choice (main st)\<rparr>)"
  by (rule conf_wf_main) (auto simp: conf_wf_def dest: same_tables_wf [OF finished_same_tables])

text \<open>
  C8. What a configuration file says reaches the worker.  When a configuration loads, passes
  postconfiguration, and a worker initialises from the result, the worker has a client, a socket,
  the configured request policy, whose whole admission fits the key's deduplication time, and the
  chosen resolver; the lookup timeout is the one that belongs to that resolver, or 30 seconds when
  that is zero (the \<open>http\<close> block's value is copied as it stands, also when it is the unset marker).
  The client was created with the nonempty tenant name, configured or derived from the key, the key
  id, the type of the key, the nonempty key itself and the policy.  In every location where the
  module is enabled the rules expand to a check, unless a value of the request is invalid or memory
  runs out.
\<close>

theorem accepted_configuration_works:
  assumes "load_conf cenv ds = Some st" and "merge_contract mv"
    and "lcf = effective_conf mv (locs st b) (map (locs st) bs)" and "enabled lcf = Some True"
    and "ngx_http_rn_init ienv (Some core) (Some (main st)) = (NGX_OK, core', Some m)"
    and "heap_ok h" and "rn_worker_init wenv m None h = (NGX_OK, Some w, h')"
  shows "\<exists>c r timeout. client w = Some c \<and> udp_fd w \<noteq> None
    \<and> chosen_resolver ienv (main st) = Some (r, timeout) \<and> worker_resolver w = Some r
    \<and> worker_resolver_timeout w = (if timeout = 0 then 30000 else timeout)
    \<and> worker_policy w = request_policy (main st)
    \<and> unat (unit_ms (worker_policy w)) * horizon_units (worker_policy w)
        \<le> (if dedup_ttl_ms_max (main st) = 0 then 4294967295 else unat (dedup_ttl_ms_max (main st)))
    \<and> blocks h' c = Some (Client \<lparr>given_dns = c_string (tenant_name (main st)), given_key_id = key_id (main st),
        given_auth_type = auth_type (main st), given_secret = Some (str_of (auth_key (main st))),
        given_policy = request_policy (main st)\<rparr>)
    \<and> tenant_name (main st) \<noteq> [] \<and> str_of (auth_key (main st)) \<noteq> []
    \<and> (values_ok env m lcf \<longrightarrow> (\<exists>res gs label. build_check env m lcf = Check res gs label))"
proof -
  have wf: "conf_wf st" by (rule load_conf_wf [OF assms(1)])
  have ready: "loc_ready m' lcf" if "conf_wf (st\<lparr>main := m'\<rparr>)" for m'
    unfolding assms(3) by (intro effective_loc_ready [OF assms(2)])
      (use that in \<open>auto simp: conf_wf_def loc_wf_def list_all_iff\<close>)
  from ready [of "main st"] wf assms(4) have "main_enabled (main st)"
    by (auto simp: loc_ready_def split: option.splits)
  from init_ready [OF this assms(5)] obtain choice where choice: "chosen_resolver ienv (main st) = Some choice"
    and m: "m = finished_conf choice (main st)" and st: "startable ienv (main st)" by blast
  have wf': "conf_wf (st\<lparr>main := m\<rparr>)" unfolding m by (rule conf_wf_finished [OF wf])
  from init_step [OF assms(6,7)] have w: "Worker_Facts.ready m w" "has_client m w h'" by (simp_all add: init_outcome_def)
  have "\<exists>res gs label. build_check env m lcf = Check res gs label" if "values_ok env m lcf"
    using check_total [OF _ ready [OF wf'] assms(4) that] wf' by (simp add: conf_wf_def)
  moreover have "tenant_name (main st) \<noteq> []" "str_of (auth_key (main st)) \<noteq> []"
    using st by (simp_all add: tenant_name_def startable_def)
  moreover have "unat (unit_ms (request_policy (main st))) * horizon_units (request_policy (main st))
      \<le> (if dedup_ttl_ms_max (main st) = 0 then 4294967295 else unat (dedup_ttl_ms_max (main st)))"
    using st by (simp add: startable_def horizon_fits_def)
  ultimately show ?thesis
    using w m choice
    by (cases choice) (auto simp: Worker_Facts.ready_def has_client_def client_of_def finished_settings str_of_def)
qed

text \<open>The sample configuration with an API key, on a host without \<open>/etc/resolv.conf\<close>.\<close>

definition keyed_env :: conf_env where
  "keyed_env = sample_env\<lparr>parse_auth_key := (\<lambda>_. Some \<lparr>info_type = R_AUTH_COOKIE, info_key_id = 7,
     info_dedup_ttl_ms_max = 0\<rparr>)\<rparr>"

definition keyed_conf :: "(nat \<times> directive) list" where
  "keyed_conf = (0, Ratelimitly_auth_key ''rl'') # sample_conf"

lemma keyed_runs:
  "case load_conf (\<lambda>_. keyed_env) keyed_conf of
     None \<Rightarrow> False
   | Some st \<Rightarrow> enabled (sample_lcf st) = Some True
       \<and> (case ngx_http_rn_init (fresh_init None) (Some fresh_core) (Some (main st)) of
            (rc, _, Some m) \<Rightarrow> rc = NGX_OK
              \<and> fst (rn_worker_init (sample_worker_env True) m None empty_heap) = NGX_OK
          | _ \<Rightarrow> False)"
  by code_simp

lemma accepted_configuration_works_witness:
  "\<exists>st core' m w h' c k. load_conf (\<lambda>_. keyed_env) keyed_conf = Some st
     \<and> ngx_http_rn_init (fresh_init None) (Some fresh_core) (Some (main st)) = (NGX_OK, core', Some m)
     \<and> rn_worker_init (sample_worker_env True) m None empty_heap = (NGX_OK, Some w, h')
     \<and> client w = Some c \<and> blocks h' c = Some (Client k) \<and> given_secret k \<noteq> None
     \<and> given_policy k = request_policy (main st)"
proof -
  obtain st core' m where load: "load_conf (\<lambda>_. keyed_env) keyed_conf = Some st"
    and en: "enabled (sample_lcf st) = Some True"
    and init: "ngx_http_rn_init (fresh_init None) (Some fresh_core) (Some (main st)) = (NGX_OK, core', Some m)"
    and rc: "fst (rn_worker_init (sample_worker_env True) m None empty_heap) = NGX_OK"
    using keyed_runs by (auto split: option.splits prod.splits)
  obtain w' h' where run: "rn_worker_init (sample_worker_env True) m None empty_heap = (NGX_OK, w', h')"
    using rc by (cases "rn_worker_init (sample_worker_env True) m None empty_heap") auto
  from init_step [OF heap_ok_empty run] obtain w where w': "w' = Some w"
    by (auto simp: init_outcome_def split: option.splits)
  have mv: "merge_contract nginx_merge_value" by (simp add: merge_contract_def nginx_merge_value_def)
  from accepted_configuration_works [OF load mv sample_lcf_def en init heap_ok_empty run [unfolded w']]
  show ?thesis using load init run w' by fastforce
qed

end
